(* ===== verification/Adtm_Prelude.thy ===== *)
theory Adtm_Prelude
  imports Main "HOL-Library.Word"
begin

text \<open>
  Shared vocabulary of the development: the machine integer types of the C++ sources, the
  faults a C operation can end in, the combinators that sequence operations which may fault,
  and the view of a byte buffer as a stream of bits, least significant bit of the first byte
  first, which is the order both the administration packet writer and the probe parser use.
\<close>

unbundle bit_operations_syntax

section \<open>Machine integers and faults\<close>

type_synonym u8 = "8 word"
type_synonym u16 = "16 word"
type_synonym u32 = "32 word"
type_synonym u64 = "64 word"

text \<open>
  A fault is an outcome that the C++ standard leaves undefined (an access outside an object, a
  null \<open>FILE*\<close>, a number outside \<open>int\<close>) or that aborts the process (a failed \<open>assert\<close>). \<open>Unfinished\<close> is no outcome of the
  program: an operation that draws random numbers was given too few of them to end.
\<close>

datatype fault = OutOfBounds | NullPointer | AssertFailed | Unfinished | IntOverflow

type_synonym 'a cres = "fault + 'a"

named_theorems cres_simps \<open>evaluation of sequenced operations that may fault\<close>
named_theorems stream_simps \<open>buffers and words as bit streams\<close>
named_theorems layout_simps \<open>widths of the administration packet's fields\<close>

section \<open>Sequencing operations that may fault\<close>

definition cbind :: "'a cres \<Rightarrow> ('a \<Rightarrow> 'b cres) \<Rightarrow> 'b cres" where
  "cbind m k = (case m of Inl e \<Rightarrow> Inl e | Inr x \<Rightarrow> k x)"

primrec cmap :: "('a \<Rightarrow> 'b cres) \<Rightarrow> 'a list \<Rightarrow> 'b list cres" where
  "cmap g [] = Inr []"
| "cmap g (x # xs) = cbind (g x) (\<lambda>y. cbind (cmap g xs) (\<lambda>ys. Inr (y # ys)))"

primrec cfold :: "('s \<Rightarrow> 'a \<Rightarrow> 's cres) \<Rightarrow> 's \<Rightarrow> 'a list \<Rightarrow> 's cres" where
  "cfold step s [] = Inr s"
| "cfold step s (x # xs) = cbind (step s x) (\<lambda>t. cfold step t xs)"

text \<open>Reading and writing one cell of an array object.\<close>

definition cread :: "'a list \<Rightarrow> nat \<Rightarrow> 'a cres" where
  "cread xs i = (if i < length xs then Inr (xs ! i) else Inl OutOfBounds)"

definition cwrite :: "'a list \<Rightarrow> nat \<Rightarrow> 'a \<Rightarrow> 'a list cres" where
  "cwrite xs i x = (if i < length xs then Inr (xs[i := x]) else Inl OutOfBounds)"

text \<open>\<open>memcpy\<close> of the bytes \<open>ys\<close> to offset \<open>p\<close> of an array object.\<close>

definition cblit :: "'a list \<Rightarrow> nat \<Rightarrow> 'a list \<Rightarrow> 'a list cres" where
  "cblit xs p ys =
     (if p + length ys \<le> length xs
      then Inr (take p xs @ ys @ drop (p + length ys) xs) else Inl OutOfBounds)"

section \<open>Words, bytes and bits\<close>

text \<open>The low \<open>n\<close> bits of a word, least significant first.\<close>

definition word_bits :: "nat \<Rightarrow> 'a::len word \<Rightarrow> bool list" where
  "word_bits n w = map (bit w) [0..<n]"

definition bytes_bits :: "u8 list \<Rightarrow> bool list" where
  "bytes_bits bs = concat (map (word_bits 8) bs)"

text \<open>The word whose bit \<open>k\<close> is element \<open>k\<close> of the list.\<close>

definition word_of_bits :: "bool list \<Rightarrow> 'a::len word" where
  "word_of_bits xs = horner_sum of_bool 2 xs"

text \<open>The bytes of a bit stream.\<close>

definition pack_bits :: "bool list \<Rightarrow> u8 list" where
  "pack_bits xs = map (\<lambda>i. word_of_bits (take 8 (drop (8 * i) xs))) [0..<length xs div 8]"

text \<open>The little-endian memory image of a word, and the word in a little-endian image.\<close>

definition le_bytes :: "nat \<Rightarrow> 'a::len word \<Rightarrow> u8 list" where
  "le_bytes n w = map (\<lambda>i. ucast (drop_bit (8 * i) w)) [0..<n]"

definition le_word :: "u8 list \<Rightarrow> 'a::len word" where
  "le_word bs = foldr (\<lambda>b w. ucast b OR push_bit 8 w) bs 0"

text \<open>The byte swaps of \<open>byteswap.h\<close>; \<open>htons\<close> and \<open>ntohs\<close> on a little-endian host.\<close>

definition bswap_16 :: "u16 \<Rightarrow> u16" where
  "bswap_16 x = push_bit 8 x OR drop_bit 8 x"

definition bswap_64 :: "u64 \<Rightarrow> u64" where
  "bswap_64 x = le_word (rev (le_bytes 8 x))"

abbreviation htons :: "u16 \<Rightarrow> u16" where "htons \<equiv> bswap_16"
abbreviation ntohs :: "u16 \<Rightarrow> u16" where "ntohs \<equiv> bswap_16"

section \<open>Lemmas on sequencing\<close>

lemma cbind_Inr [simp, cres_simps]: "cbind (Inr x) k = k x"
  and cbind_Inl [simp, cres_simps]: "cbind (Inl e) k = Inl e"
  by (simp_all add: cbind_def)

lemma cbind_assoc: "cbind (cbind m k) h = cbind m (\<lambda>x. cbind (k x) h)"
  by (simp add: cbind_def split: sum.split)

lemma cbind_eq_Inr: "cbind m k = Inr y \<longleftrightarrow> (\<exists>x. m = Inr x \<and> k x = Inr y)"
  by (auto simp: cbind_def split: sum.splits)

lemma cmap_Inr: "(\<And>x. x \<in> set xs \<Longrightarrow> g x = Inr (h x)) \<Longrightarrow> cmap g xs = Inr (map h xs)"
  by (induction xs) auto

text \<open>A computation that runs outside an object exactly under a condition, and otherwise returns.\<close>

definition faults_iff :: "bool \<Rightarrow> 'a cres \<Rightarrow> bool" where
  "faults_iff c r \<longleftrightarrow> (if c then r = Inl OutOfBounds else \<exists>s. r = Inr s)"

lemma faults_iff_cbind:
  "faults_iff c r \<Longrightarrow> (\<And>s. faults_iff d (k s)) \<Longrightarrow> faults_iff (c \<or> d) (cbind r k)"
  by (auto simp: faults_iff_def split: if_splits)

lemma faults_iff_Inr: "faults_iff False (Inr x)"
  by (simp add: faults_iff_def)

lemma faults_iff_cread: "faults_iff (length xs \<le> i) (cread xs i)"
  by (simp add: faults_iff_def cread_def)

lemma faults_iff_cmap: "(\<And>i. i \<in> set is \<Longrightarrow> faults_iff (c i) (g i)) \<Longrightarrow> faults_iff (\<exists>i\<in>set is. c i) (cmap g is)"
proof (induction "is")
  case (Cons i "is")
  then have "faults_iff (\<exists>i\<in>set is. c i) (cmap g is)" "faults_iff (c i) (g i)" by simp_all
  then have "faults_iff (c i \<or> (\<exists>i\<in>set is. c i) \<or> False) (cmap g (i # is))"
    unfolding cmap.simps by (intro faults_iff_cbind faults_iff_Inr)
  then show ?case by simp
qed (simp add: faults_iff_Inr)

lemma cfold_append: "cfold g s (xs @ ys) = cbind (cfold g s xs) (\<lambda>t. cfold g t ys)"
  by (induction xs arbitrary: s) (auto simp: cbind_assoc)

lemma cbind_return [simp]: "cbind m Inr = m"
  by (cases m) simp_all

lemma cfold_upt_Suc:
  "m \<le> n \<Longrightarrow> cfold g s [m..<Suc n] = cbind (cfold g s [m..<n]) (\<lambda>t. g t n)"
  by (simp add: cfold_append)

lemma cread_Inr [cres_simps]: "i < length xs \<Longrightarrow> cread xs i = Inr (xs ! i)"
  by (simp add: cread_def)

lemma cwrite_Inr [cres_simps]: "i < length xs \<Longrightarrow> cwrite xs i x = Inr (xs[i := x])"
  by (simp add: cwrite_def)

lemma cblit_Inr [cres_simps]:
  "p + length ys \<le> length xs \<Longrightarrow>
     cblit xs p ys = Inr (take p xs @ ys @ drop (p + length ys) xs)"
  by (simp add: cblit_def)

section \<open>Lemmas on bit streams\<close>

lemma length_word_bits [simp]: "length (word_bits n w) = n"
  by (simp add: word_bits_def)

lemma nth_word_bits [simp]: "i < n \<Longrightarrow> word_bits n w ! i = bit w i"
  by (simp add: word_bits_def)

lemma word_bits_0 [simp]: "word_bits 0 w = []"
  by (simp add: word_bits_def)

lemma take_word_bits [stream_simps]: "take m (word_bits n w) = word_bits (min m n) w"
  by (simp add: word_bits_def take_map min_def)

lemma drop_word_bits [stream_simps]:
  "drop m (word_bits n w) = word_bits (n - m) (drop_bit m w)"
  by (rule nth_equalityI) (auto simp: bit_simps)

lemma word_bits_add: "word_bits (m + n) w = word_bits m w @ word_bits n (drop_bit m w)"
  by (rule nth_equalityI) (auto simp: nth_append bit_simps)

lemma word_bits_eqI: "(\<And>i. i < n \<Longrightarrow> bit v i = bit w i) \<Longrightarrow> word_bits n v = word_bits n w"
  by (rule nth_equalityI) auto

lemma word_bits_ucast:
  fixes w :: "'a::len word"
  assumes "n \<le> LENGTH('b)"
  shows "word_bits n (ucast w :: 'b::len word) = word_bits n w"
  using assms by (auto intro!: nth_equalityI simp: bit_simps bit_imp_le_length)

lemma word_bits_inj:
  fixes v w :: "'a::len word"
  assumes "word_bits n v = word_bits n w" and "LENGTH('a) \<le> n"
  shows "v = w"
proof (rule bit_word_eqI)
  fix k assume "k < LENGTH('a)"
  with assms(2) have "k < n" by simp
  then show "bit v k = bit w k" using assms(1) nth_word_bits by metis
qed

lemma length_bytes_bits [simp]: "length (bytes_bits bs) = 8 * length bs"
  by (induction bs) (auto simp: bytes_bits_def)

lemma bytes_bits_Nil [simp]: "bytes_bits [] = []"
  and bytes_bits_Cons [simp]: "bytes_bits (b # bs) = word_bits 8 b @ bytes_bits bs"
  and bytes_bits_append [simp]: "bytes_bits (bs @ cs) = bytes_bits bs @ bytes_bits cs"
  by (simp_all add: bytes_bits_def)

lemma nth_bytes_bits:
  "i < 8 * length bs \<Longrightarrow> bytes_bits bs ! i = bit (bs ! (i div 8)) (i mod 8)"
proof (induction bs arbitrary: i)
  case (Cons b bs)
  show ?case
  proof (cases "i < 8")
    case False
    then obtain j where "i = j + 8" by (metis add.commute le_Suc_ex not_less)
    with Cons show ?thesis by (simp add: nth_append div_add_self2)
  qed (simp add: nth_append)
qed simp

lemma take_bytes_bits [stream_simps]: "bytes_bits (take n bs) = take (8 * n) (bytes_bits bs)"
  by (induction bs arbitrary: n) (auto simp: take_Cons' take_word_bits diff_mult_distrib2)

lemma drop_bytes_bits [stream_simps]: "bytes_bits (drop n bs) = drop (8 * n) (bytes_bits bs)"
  by (induction bs arbitrary: n) (auto simp: drop_Cons' drop_word_bits diff_mult_distrib2)

lemma bytes_bits_inj: "bytes_bits bs = bytes_bits cs \<Longrightarrow> bs = cs"
proof (induction bs arbitrary: cs)
  case Nil
  then show ?case by (metis bytes_bits_Nil length_0_conv length_bytes_bits mult_eq_0_iff zero_neq_numeral)
next
  case (Cons b bs)
  then obtain c cs' where "cs = c # cs'"
    by (metis length_bytes_bits length_Cons length_0_conv list.exhaust mult_cancel1 nat.distinct(1) zero_neq_numeral)
  with Cons show ?case
    by (auto intro: word_bits_inj)
qed

lemma bytes_bits_replicate_0: "bytes_bits (replicate n 0) = replicate (8 * n) False"
  by (rule nth_equalityI) (simp_all add: nth_bytes_bits less_mult_imp_div_less mult.commute)

lemma bit_word_of_bits:
  "bit (word_of_bits xs :: 'a::len word) k \<longleftrightarrow> k < LENGTH('a) \<and> k < length xs \<and> xs ! k"
  by (auto simp: word_of_bits_def bit_horner_sum_bit_word_iff)

lemma word_of_bits_word_bits:
  fixes w :: "'a::len word"
  shows "word_of_bits (word_bits LENGTH('a) w) = w"
  by (rule bit_word_eqI) (simp add: bit_word_of_bits)

lemma bytes_bits_pack_bits:
  assumes "8 dvd length xs" shows "bytes_bits (pack_bits xs) = xs"
proof (rule nth_equalityI)
  show "length (bytes_bits (pack_bits xs)) = length xs" using assms by (simp add: pack_bits_def)
  fix i assume "i < length (bytes_bits (pack_bits xs))"
  then have i: "i < length xs" "i div 8 < length xs div 8"
    using assms by (auto simp: pack_bits_def less_mult_imp_div_less mult.commute)
  then show "bytes_bits (pack_bits xs) ! i = xs ! i"
    using assms by (simp add: nth_bytes_bits pack_bits_def bit_word_of_bits)
qed

lemma pack_bits_bytes_bits: "pack_bits (bytes_bits bs) = bs"
  by (rule bytes_bits_inj) (simp add: bytes_bits_pack_bits)

lemma length_pack_bits: "length (pack_bits xs) = length xs div 8"
  by (simp add: pack_bits_def)

lemma length_le_bytes [simp]: "length (le_bytes n w) = n"
  by (simp add: le_bytes_def)

lemma nth_le_bytes [simp]: "i < n \<Longrightarrow> le_bytes n w ! i = ucast (drop_bit (8 * i) w)"
  by (simp add: le_bytes_def)

lemma bytes_bits_le_bytes [stream_simps]: "bytes_bits (le_bytes n w) = word_bits (8 * n) w"
  by (rule nth_equalityI) (simp_all add: nth_bytes_bits bit_simps less_mult_imp_div_less mult.commute)

lemma bit_le_word:
  "bit (le_word bs :: 'a::len word) k \<longleftrightarrow>
     k < LENGTH('a) \<and> k < 8 * length bs \<and> bit (bs ! (k div 8)) (k mod 8)"
proof (induction bs arbitrary: k)
  case Nil
  then show ?case by (simp add: le_word_def)
next
  case (Cons b bs)
  have eq: "le_word (b # bs) = (ucast b OR push_bit 8 (le_word bs) :: 'a word)"
    by (simp add: le_word_def)
  show ?case
  proof (cases "k < 8")
    case True
    then show ?thesis by (auto simp: eq bit_simps)
  next
    case False
    then obtain j where j: "k = j + 8" by (metis add.commute le_Suc_ex not_less)
    have "\<not> bit b (j + 8)" using bit_imp_le_length [of b "j + 8"] by auto
    then show ?thesis by (auto simp add: eq j bit_simps Cons.IH div_add_self2)
  qed
qed

lemma word_bits_le_word [stream_simps]:
  assumes "8 * length bs \<le> LENGTH('a)"
  shows "word_bits (8 * length bs) (le_word bs :: 'a::len word) = bytes_bits bs"
  using assms by (auto intro!: nth_equalityI simp: bit_le_word nth_bytes_bits)

lemma le_word_le_bytes:
  fixes w :: "'a::len word"
  assumes "LENGTH('a) \<le> 8 * n"
  shows "le_word (le_bytes n w) = w"
  using assms
  by (intro bit_word_eqI) (auto simp: bit_le_word bit_simps less_mult_imp_div_less mult.commute)

lemma le_bytes_le_word:
  assumes "8 * length bs \<le> LENGTH('a)"
  shows "le_bytes (length bs) (le_word bs :: 'a::len word) = bs"
  using assms word_bits_le_word [OF assms] bytes_bits_le_bytes [of "length bs" "le_word bs :: 'a word"]
  by (auto intro: bytes_bits_inj)

lemma bswap_16_bswap_16 [simp]: "bswap_16 (bswap_16 x) = x"
  by (rule bit_word_eqI) (auto simp: bswap_16_def bit_simps bit_imp_le_length)

text \<open>Two bytes in network order.\<close>

lemma network_order: "unat (htons (le_word [a, b])) = 256 * unat a + unat b" for a b :: u8
proof -
  have ab: "unat a < 256" "unat b < 256" using unsigned_less [of a, where 'a = nat] unsigned_less [of b, where 'a = nat] by simp_all
  have "htons (le_word [a, b]) = push_bit 8 (ucast a) OR ucast b"
    by (rule bit_word_eqI) (auto simp: bswap_16_def le_word_def bit_simps dest: bit_imp_le_length)
  also have "\<dots> = push_bit 8 (ucast a) + ucast b"
    by (rule disjunctive_add [symmetric]) (auto simp: bit_simps dest: bit_imp_le_length)
  also have "unat \<dots> = 256 * unat a + unat b"
    using ab by (simp add: unat_word_ariths push_bit_eq_mult unsigned_ucast_eq take_bit_nat_eq_self)
  finally show ?thesis .
qed

end
