(* ===== verification/Fpga.thy ===== *)
theory Fpga
  imports Adtm_Prelude
begin

text \<open>
  The data model shared by every command of the administration client:
  \<^verbatim>\<open>sw/admin-cli/const.hh\<close>, \<^verbatim>\<open>sw/admin-cli/fpga-const.hh\<close> and
  \<^verbatim>\<open>sw/admin-cli/fpga.hh\<close>. A C array member is a list; its declared extent is the
  type invariant \<open>wf_filter\<close>. Bit-field members are words of the declared width.
\<close>

section \<open>Constants\<close>

definition FILTER_DEPTH :: nat where "FILTER_DEPTH = 2"
definition BUFFER_SIZE :: nat where "BUFFER_SIZE = 65536"
definition MS_IN_USEC :: u64 where "MS_IN_USEC = 1000"
definition PROBE_TIMEOUT :: u64 where "PROBE_TIMEOUT = MS_IN_USEC"

datatype e_ethertype = IPv4
datatype e_ip_proto = TCP | UDP

fun ethertype_code :: "e_ethertype \<Rightarrow> u16" where
  "ethertype_code IPv4 = 0x0800"

fun ip_proto_code :: "e_ip_proto \<Rightarrow> u8" where
  "ip_proto_code TCP = 0x06"
| "ip_proto_code UDP = 0x11"

section \<open>Addresses, filters, statistics\<close>

record mac_addr_t =
  byte :: "u8 list"

record ip_addr_t =
  num :: "u8 list"

record udp_port_t =
  port :: u16

record dns_filter_item_t =
  dns_c :: "u8 list"

record filter_t =
  srcMACBW :: "1 word"
  srcMACLength :: "2 word"
  srcMACList :: "mac_addr_t list"
  dstMACBW :: "1 word"
  dstMACLength :: "2 word"
  dstMACList :: "mac_addr_t list"
  srcIPBW :: "1 word"
  srcIPLength :: "2 word"
  srcIPList :: "ip_addr_t list"
  dstIPBW :: "1 word"
  dstIPLength :: "2 word"
  dstIPList :: "ip_addr_t list"
  srcPortBW :: "1 word"
  srcPortLength :: "2 word"
  srcPortList :: "udp_port_t list"
  dstPortBW :: "1 word"
  dstPortLength :: "2 word"
  dstPortList :: "udp_port_t list"
  dnsBW :: "1 word"
  dnsLength :: "2 word"
  dnsItemEndPtr :: "u8 list"
  dnsList :: "dns_filter_item_t list"
  replyType :: "1 word"

record stats_t =
  stc :: u64
  sfc :: u64
  smc :: u64
  sic :: u64
  spc :: u64

text \<open>The values \<open>{}\<close> of the sources: value-initialised objects.\<close>

definition mac_zero :: mac_addr_t where "mac_zero = \<lparr>byte = replicate 6 0\<rparr>"
definition ip_zero :: ip_addr_t where "ip_zero = \<lparr>num = replicate 4 0\<rparr>"
definition port_zero :: udp_port_t where "port_zero = \<lparr>port = 0\<rparr>"
definition dns_item_zero :: dns_filter_item_t where "dns_item_zero = \<lparr>dns_c = replicate 16 0\<rparr>"

definition filter_zero :: filter_t where
  "filter_zero = \<lparr>
     srcMACBW = 0, srcMACLength = 0, srcMACList = replicate FILTER_DEPTH mac_zero,
     dstMACBW = 0, dstMACLength = 0, dstMACList = replicate FILTER_DEPTH mac_zero,
     srcIPBW = 0, srcIPLength = 0, srcIPList = replicate FILTER_DEPTH ip_zero,
     dstIPBW = 0, dstIPLength = 0, dstIPList = replicate FILTER_DEPTH ip_zero,
     srcPortBW = 0, srcPortLength = 0, srcPortList = replicate FILTER_DEPTH port_zero,
     dstPortBW = 0, dstPortLength = 0, dstPortList = replicate FILTER_DEPTH port_zero,
     dnsBW = 0, dnsLength = 0, dnsItemEndPtr = replicate FILTER_DEPTH 0,
     dnsList = replicate FILTER_DEPTH dns_item_zero,
     replyType = 0\<rparr>"

definition stats_zero :: stats_t where
  "stats_zero = \<lparr>stc = 0, sfc = 0, smc = 0, sic = 0, spc = 0\<rparr>"

definition fpga_src_mac :: mac_addr_t where
  "fpga_src_mac = \<lparr>byte = [0x00, 0x0a, 0x35, 0x00, 0x00, 0x00]\<rparr>"
definition admin_dst_mac :: mac_addr_t where
  "admin_dst_mac = \<lparr>byte = [0x00, 0x0a, 0x35, 0xff, 0xff, 0xff]\<rparr>"
definition probe_dst_mac :: mac_addr_t where
  "probe_dst_mac = \<lparr>byte = [0x00, 0x0a, 0x35, 0xbe, 0x91, 0xad]\<rparr>"

definition ADMIN_PKT_TMP_FILENAME :: string where "ADMIN_PKT_TMP_FILENAME = ''admin.bin''"

section \<open>Type invariants\<close>

definition wf_mac :: "mac_addr_t \<Rightarrow> bool" where "wf_mac m \<longleftrightarrow> length (byte m) = 6"
definition wf_ip :: "ip_addr_t \<Rightarrow> bool" where "wf_ip a \<longleftrightarrow> length (num a) = 4"
definition wf_dns_item :: "dns_filter_item_t \<Rightarrow> bool" where
  "wf_dns_item d \<longleftrightarrow> length (dns_c d) = 16"

definition wf_array :: "('a \<Rightarrow> bool) \<Rightarrow> 'a list \<Rightarrow> bool" where
  "wf_array p xs \<longleftrightarrow> length xs = FILTER_DEPTH \<and> list_all p xs"

definition wf_filter :: "filter_t \<Rightarrow> bool" where
  "wf_filter f \<longleftrightarrow>
     wf_array wf_mac (srcMACList f) \<and> wf_array wf_mac (dstMACList f) \<and>
     wf_array wf_ip (srcIPList f) \<and> wf_array wf_ip (dstIPList f) \<and>
     length (srcPortList f) = FILTER_DEPTH \<and> length (dstPortList f) = FILTER_DEPTH \<and>
     length (dnsItemEndPtr f) = FILTER_DEPTH \<and> wf_array wf_dns_item (dnsList f)"

section \<open>The IPv4 header checksum\<close>

fun IPsum :: "u32 \<Rightarrow> u16 list \<Rightarrow> u32" where
  "IPsum acc [] = acc"
| "IPsum acc (w # ws) = IPsum (acc + ucast (htons w)) ws"

definition IPfold :: "u32 \<Rightarrow> u16" where
  "IPfold acc =
     (let acc = drop_bit 16 acc + (acc AND 0xFFFF);
          acc = acc + drop_bit 16 acc
      in ucast (NOT acc))"

definition IPchecksum :: "u16 list \<Rightarrow> nat \<Rightarrow> u16 cres" where
  "IPchecksum buff n =
     (if n \<le> length buff then Inr (IPfold (IPsum 0 (take n buff))) else Inl OutOfBounds)"

section \<open>Lemmas on the data model\<close>

lemma wf_filter_zero: "wf_filter filter_zero"
  by (simp add: wf_filter_def wf_array_def filter_zero_def FILTER_DEPTH_def wf_mac_def wf_ip_def
      wf_dns_item_def mac_zero_def ip_zero_def dns_item_zero_def numeral_2_eq_2)

lemma wf_const_macs: "wf_mac fpga_src_mac" "wf_mac admin_dst_mac" "wf_mac probe_dst_mac"
  by (simp_all add: wf_mac_def fpga_src_mac_def admin_dst_mac_def probe_dst_mac_def)

lemma wf_array_nth: "wf_array p xs \<Longrightarrow> i < FILTER_DEPTH \<Longrightarrow> p (xs ! i)"
  by (simp add: wf_array_def list_all_length)

lemma wf_array_update: "wf_array p xs \<Longrightarrow> p x \<Longrightarrow> wf_array p (xs[i := x])"
  by (cases "i < length xs") (auto simp: wf_array_def list_all_length nth_list_update)

section \<open>Lemmas on the checksum\<close>

text \<open>The sum as a natural number, exact while it fits 32 bits.\<close>

definition words_sum :: "u16 list \<Rightarrow> nat" where
  "words_sum ws = (\<Sum>w\<leftarrow>ws. unat (htons w))"

lemma words_sum_simps [simp]:
  "words_sum [] = 0" "words_sum (w # ws) = unat (htons w) + words_sum ws"
  "words_sum (ws @ vs) = words_sum ws + words_sum vs"
  by (simp_all add: words_sum_def)

lemma words_sum_bound: "words_sum ws \<le> 65535 * length ws"
proof (induction ws)
  case (Cons w ws)
  have "unat (htons w) < 2 ^ 16" using unsigned_less [of "htons w"] by simp
  with Cons show ?case by simp
qed simp

lemma IPsum_unat:
  "unat s + words_sum ws < 2 ^ 32 \<Longrightarrow> unat (IPsum s ws) = unat s + words_sum ws"
proof (induction ws arbitrary: s)
  case (Cons w ws)
  have "unat (ucast (htons w) :: u32) = unat (htons w)"
    by (simp add: unsigned_ucast_eq take_bit_nat_eq_self_iff order_less_trans [OF unsigned_less])
  moreover from this Cons.prems have "unat (s + ucast (htons w)) = unat s + unat (htons w)"
    by (subst unat_add_lem [THEN iffD1]) auto
  ultimately show ?case using Cons.IH [of "s + ucast (htons w)"] Cons.prems by simp
qed simp

definition nat_fold :: "nat \<Rightarrow> nat" where
  "nat_fold n = (let m = n div 65536 + n mod 65536 in (m + m div 65536) mod 65536)"

lemma nat_fold_cases:
  assumes "n < 2 ^ 32"
  obtains q r where "n = 65535 * q + (q + r)" "q < 65536" "r < 65536"
    "nat_fold n = (if q + r < 65536 then q + r else q + r - 65535)"
proof -
  let ?q = "n div 65536" and ?r = "n mod 65536"
  have n: "n = 65535 * ?q + (?q + ?r)" using div_mult_mod_eq [of n 65536] by simp
  have q: "?q < 65536" using assms by (simp add: div_less_iff_less_mult)
  have r: "?r < 65536" by simp
  have "nat_fold n = (if ?q + ?r < 65536 then ?q + ?r else ?q + ?r - 65535)"
  proof (cases "?q + ?r < 65536")
    case False
    then obtain k where k: "?q + ?r = 65536 + k" by (metis le_Suc_ex not_less)
    then have "k < 65536 - 1" using q r by linarith
    moreover have "(65536 + k) div 65536 = 1" using \<open>k < 65536 - 1\<close> by simp
    moreover from this have "(65537 + k) mod 65536 = Suc k" using \<open>k < 65536 - 1\<close> by (simp add: mod_if)
    ultimately show ?thesis using k by (simp add: nat_fold_def Let_def)
  qed (simp add: nat_fold_def Let_def)
  then show thesis using that n q r by blast
qed

lemma nat_fold_decomp:
  assumes "n < 2 ^ 32" obtains k where "n = nat_fold n + 65535 * k"
proof -
  from assms obtain q r where
    n: "n = 65535 * q + (q + r)"
    and nf: "nat_fold n = (if q + r < 65536 then q + r else q + r - 65535)"
    by (rule nat_fold_cases)
  show thesis
  proof (cases "q + r < 65536")
    case True
    with n nf that [of q] show thesis by simp
  next
    case False
    with n nf that [of "Suc q"] show thesis by simp
  qed
qed

lemma nat_fold_pos:
  assumes "0 < n" "n < 2 ^ 32" shows "0 < nat_fold n"
  using assms(2,1) by (elim nat_fold_cases) (auto split: if_splits)

lemma nat_fold_le: "nat_fold n \<le> 65535"
proof -
  have "nat_fold n < 65536" by (simp add: nat_fold_def Let_def)
  then show ?thesis by simp
qed

lemma IPfold_unat: "unat (IPfold s) = 65535 - nat_fold (unat s)"
proof -
  let ?m = "drop_bit 16 s + (s AND 0xFFFF)"
  have lo: "s AND 0xFFFF = take_bit 16 s"
    by (simp add: take_bit_eq_mask mask_eq_exp_minus_1)
  have sh: "unat (drop_bit 16 x) = unat x div 65536" for x :: u32
    by (simp only: unsigned_drop_bit_eq take_bit_nat_eq_self unsigned_less) (simp add: drop_bit_eq_div)
  have lw: "unat (s AND 0xFFFF) = unat s mod 65536"
    by (simp only: lo unsigned_take_bit_eq) (simp add: take_bit_eq_mod)
  have "unat s < 2 ^ 32" using unsigned_less [of s] by simp
  then have q: "unat s div 65536 < 65536" by (simp add: div_less_iff_less_mult)
  have "unat s mod 65536 < 65536" by simp
  with q have b: "unat s div 65536 + unat s mod 65536 < 2 * 65536" by linarith
  then have m: "unat ?m = unat s div 65536 + unat s mod 65536"
    by (subst unat_add_lem [THEN iffD1]) (simp_all only: sh lw, simp)
  have "unat ?m div 65536 \<le> 1" unfolding m using b by (simp add: less_Suc_eq_le [symmetric] div_less_iff_less_mult)
  then have n: "unat (?m + drop_bit 16 ?m) = unat ?m + unat ?m div 65536"
    using b by (subst unat_add_lem [THEN iffD1]) (simp_all only: sh, simp add: m)
  have "ucast (NOT (?m + drop_bit 16 ?m)) = NOT (ucast (?m + drop_bit 16 ?m) :: u16)"
    by (rule bit_word_eqI) (simp add: bit_simps)
  then have "IPfold s = NOT (ucast (?m + drop_bit 16 ?m) :: u16)"
    by (simp add: IPfold_def Let_def)
  moreover have "unat (ucast (?m + drop_bit 16 ?m) :: u16) = nat_fold (unat s)"
    by (simp only: unsigned_ucast_eq n m nat_fold_def Let_def) (simp add: take_bit_eq_mod)
  moreover have "unat (NOT x) = 65535 - unat x" for x :: u16
  proof -
    have "NOT x = - 1 - x" by (simp add: not_eq_complement)
    then show ?thesis
      using unat_sub [of x "- 1"] by (simp add: unsigned_minus_1_eq_mask mask_eq_exp_minus_1)
  qed
  ultimately show ?thesis by simp
qed

text \<open>
  A header whose checksum field was zero while the checksum was computed verifies: summing all
  words together with the stored (network order) checksum folds to zero.
\<close>

lemma IPchecksum_verifies_aux:
  assumes "IPchecksum (ws @ 0 # vs) (Suc (length ws + length vs)) = Inr r"
    and "length ws + length vs < 65536" and "0 < words_sum ws + words_sum vs"
  shows "IPchecksum (ws @ htons r # vs) (Suc (length ws + length vs)) = Inr 0"
proof -
  let ?S = "words_sum ws + words_sum vs"
  have S: "?S + 65535 < 2 ^ 32"
    using words_sum_bound [of ws] words_sum_bound [of vs] assms(2) by simp
  from assms(1) have "r = IPfold (IPsum 0 (ws @ 0 # vs))"
    by (simp add: IPchecksum_def)
  moreover have "unat (IPsum 0 (ws @ 0 # vs)) = ?S"
    using S by (subst IPsum_unat) (auto simp: bswap_16_def)
  ultimately have r: "unat r = 65535 - nat_fold ?S" by (simp add: IPfold_unat)
  let ?T = "?S + unat r"
  obtain k where k: "?S = nat_fold ?S + 65535 * k" using S nat_fold_decomp [of ?S] by auto
  have T: "?T = 65535 * Suc k" using k r nat_fold_le [of ?S] by simp
  have "?T < 2 ^ 32" using S r by simp
  then obtain k' where k': "?T = nat_fold ?T + 65535 * k'" by (rule nat_fold_decomp)
  with T have "65535 dvd nat_fold ?T"
    by (metis dvd_add_left_iff dvd_triv_left)
  moreover have "0 < nat_fold ?T" using nat_fold_pos [of ?T] \<open>?T < 2 ^ 32\<close> assms(3) by auto
  ultimately have "nat_fold ?T = 65535" using nat_fold_le [of ?T] dvd_imp_le le_antisym by blast
  have "unat (IPsum 0 (ws @ htons r # vs)) = ?T"
    using S r by (subst IPsum_unat) auto
  then have "unat (IPfold (IPsum 0 (ws @ htons r # vs))) = 0"
    by (simp add: IPfold_unat \<open>nat_fold ?T = 65535\<close>)
  then show ?thesis by (simp add: IPchecksum_def unat_eq_0)
qed

end
