(* ===== verification/Siphash.thy ===== *)
theory Siphash
  imports Adtm_Prelude
begin

text \<open>
  The keyed hash that authenticates an administration packet:
  \<^verbatim>\<open>sw/admin-cli/siphash-ref-impl/siphash.c\<close>. The routine walks a byte buffer with a
  pointer, packs the last bytes in a fall-through \<open>switch\<close>, and writes the digest byte by byte.
  \<open>siphash_spec\<close> is the published algorithm on the padded message, with rounds of its own, and the
  two agree.
\<close>

section \<open>The routine of the source\<close>

type_synonym sip_state = "u64 \<times> u64 \<times> u64 \<times> u64"

definition cROUNDS :: nat where "cROUNDS = 2"
definition dROUNDS :: nat where "dROUNDS = 4"

definition ROTL :: "u64 \<Rightarrow> nat \<Rightarrow> u64" where
  "ROTL x b = push_bit b x OR drop_bit (64 - b) x"

definition U32TO8_LE :: "u32 \<Rightarrow> u8 list" where
  "U32TO8_LE v = [ucast v, ucast (drop_bit 8 v), ucast (drop_bit 16 v), ucast (drop_bit 24 v)]"

definition U64TO8_LE :: "u64 \<Rightarrow> u8 list" where
  "U64TO8_LE v = U32TO8_LE (ucast v) @ U32TO8_LE (ucast (drop_bit 32 v))"

definition U8TO64_LE :: "u8 list \<Rightarrow> nat \<Rightarrow> u64" where
  "U8TO64_LE m p =
     ucast (m ! p) OR push_bit 8 (ucast (m ! (p + 1))) OR
     push_bit 16 (ucast (m ! (p + 2))) OR push_bit 24 (ucast (m ! (p + 3))) OR
     push_bit 32 (ucast (m ! (p + 4))) OR push_bit 40 (ucast (m ! (p + 5))) OR
     push_bit 48 (ucast (m ! (p + 6))) OR push_bit 56 (ucast (m ! (p + 7)))"

definition SIPROUND :: "sip_state \<Rightarrow> sip_state" where
  "SIPROUND s = (case s of (v0, v1, v2, v3) \<Rightarrow>
     let v0 = v0 + v1; v1 = ROTL v1 13; v1 = v1 XOR v0; v0 = ROTL v0 32;
         v2 = v2 + v3; v3 = ROTL v3 16; v3 = v3 XOR v2;
         v0 = v0 + v3; v3 = ROTL v3 21; v3 = v3 XOR v0;
         v2 = v2 + v1; v1 = ROTL v1 17; v1 = v1 XOR v2; v2 = ROTL v2 32
     in (v0, v1, v2, v3))"

text \<open>One turn of the block loop: \<open>v3 ^= m\<close>, the compression rounds, \<open>v0 ^= m\<close>.\<close>

definition sip_block :: "u64 \<Rightarrow> sip_state \<Rightarrow> sip_state" where
  "sip_block m s = (case s of (v0, v1, v2, v3) \<Rightarrow>
     case (SIPROUND ^^ cROUNDS) (v0, v1, v2, v3 XOR m) of
       (v0, v1, v2, v3) \<Rightarrow> (v0 XOR m, v1, v2, v3))"

text \<open>
  The fall-through \<open>switch\<close>: case \<open>j + 1\<close> adds byte \<open>j\<close> of the rest and falls into case \<open>j\<close>.
\<close>

primrec sip_tail :: "nat \<Rightarrow> u8 list \<Rightarrow> nat \<Rightarrow> u64 \<Rightarrow> u64" where
  "sip_tail 0 m ni b = b"
| "sip_tail (Suc j) m ni b = sip_tail j m ni (b OR push_bit (8 * j) (ucast (m ! (ni + j))))"

definition sip_xor4 :: "sip_state \<Rightarrow> u64" where
  "sip_xor4 s = (case s of (v0, v1, v2, v3) \<Rightarrow> v0 XOR v1 XOR v2 XOR v3)"

definition siphash :: "u8 list \<Rightarrow> nat \<Rightarrow> u8 list \<Rightarrow> nat \<Rightarrow> u8 list cres" where
  "siphash inp inlen k outlen =
     (if \<not> (outlen = 8 \<or> outlen = 16) then Inl AssertFailed
      else if length inp < inlen \<or> length k < 16 then Inl OutOfBounds
      else
        let v0 = 0x736f6d6570736575; v1 = 0x646f72616e646f6d;
            v2 = 0x6c7967656e657261; v3 = 0x7465646279746573;
            k0 = U8TO64_LE k 0; k1 = U8TO64_LE k 8;
            left = inlen mod 8; b = push_bit 56 (of_nat inlen);
            v3 = v3 XOR k1; v2 = v2 XOR k0; v1 = v1 XOR k1; v0 = v0 XOR k0;
            v1 = (if outlen = 16 then v1 XOR 0xee else v1);
            s = fold (\<lambda>i s. sip_block (U8TO64_LE inp (8 * i)) s) [0..<inlen div 8] (v0, v1, v2, v3);
            b = sip_tail left inp (inlen - left) b;
            (v0, v1, v2, v3) = sip_block b s;
            v2 = (if outlen = 16 then v2 XOR 0xee else v2 XOR 0xff);
            (v0, v1, v2, v3) = (SIPROUND ^^ dROUNDS) (v0, v1, v2, v3);
            out = U64TO8_LE (sip_xor4 (v0, v1, v2, v3))
        in if outlen = 8 then Inr out
           else Inr (out @ U64TO8_LE (sip_xor4 ((SIPROUND ^^ dROUNDS) (v0, v1 XOR 0xdd, v2, v3)))))"

section \<open>The published algorithm\<close>

definition sip_pad :: "u8 list \<Rightarrow> u8 list" where
  "sip_pad msg = msg @ replicate (7 - length msg mod 8) 0 @ [of_nat (length msg)]"

definition le_words :: "u8 list \<Rightarrow> u64 list" where
  "le_words bs = map (\<lambda>i. le_word (take 8 (drop (8 * i) bs))) [0..<length bs div 8]"

text \<open>
  SipRound in the order of the published description, with the rotations of the word library; two
  rounds absorb a word of the message and four finish, as the name SipHash-2-4 says. Nothing below
  refers to the routine above.
\<close>

definition sip_round :: "sip_state \<Rightarrow> sip_state" where
  "sip_round s = (case s of (v0, v1, v2, v3) \<Rightarrow>
     let v0 = v0 + v1; v2 = v2 + v3; v1 = word_rotl 13 v1; v3 = word_rotl 16 v3;
         v1 = v1 XOR v0; v3 = v3 XOR v2; v0 = word_rotl 32 v0;
         v2 = v2 + v1; v0 = v0 + v3; v1 = word_rotl 17 v1; v3 = word_rotl 21 v3;
         v1 = v1 XOR v2; v3 = v3 XOR v0; v2 = word_rotl 32 v2
     in (v0, v1, v2, v3))"

definition sip_absorb :: "u64 \<Rightarrow> sip_state \<Rightarrow> sip_state" where
  "sip_absorb m s = (let (v0, v1, v2, v3) = s;
       (v0, v1, v2, v3) = sip_round (sip_round (v0, v1, v2, v3 XOR m))
     in (v0 XOR m, v1, v2, v3))"

definition sip_finish :: "sip_state \<Rightarrow> sip_state" where
  "sip_finish s = sip_round (sip_round (sip_round (sip_round s)))"

definition sip_word :: "sip_state \<Rightarrow> u64" where
  "sip_word s = (let (v0, v1, v2, v3) = s in v0 XOR v1 XOR v2 XOR v3)"

definition siphash_spec :: "bool \<Rightarrow> u64 \<Rightarrow> u64 \<Rightarrow> u8 list \<Rightarrow> u64 list" where
  "siphash_spec wide k0 k1 msg =
     (let init = (0x736f6d6570736575 XOR k0,
                  (0x646f72616e646f6d XOR k1) XOR (if wide then 0xee else 0),
                  0x6c7967656e657261 XOR k0, 0x7465646279746573 XOR k1);
          (v0, v1, v2, v3) = fold sip_absorb (le_words (sip_pad msg)) init;
          (v0, v1, v2, v3) = sip_finish (v0, v1, v2 XOR (if wide then 0xee else 0xff), v3)
      in sip_word (v0, v1, v2, v3) #
         (if wide then [sip_word (sip_finish (v0, v1 XOR 0xdd, v2, v3))] else []))"

section \<open>Equivalence\<close>

lemma ROTL_eq:
  assumes "0 < b" and "b < 64"
  shows "ROTL x b = word_rotl b x"
proof (rule bit_word_eqI)
  fix n assume "n < LENGTH(64)"
  then have n: "n < 64" by simp
  show "bit (ROTL x b) n \<longleftrightarrow> bit (word_rotl b x) n"
  proof (cases "n < b")
    case True
    moreover from this have "64 - b + n = n + 64 - b" using assms by arith
    ultimately show ?thesis using n assms by (simp add: ROTL_def bit_drop_bit_eq bit_word_rotl_iff bit_push_bit_iff bit_or_iff)
  next
    case False
    then have "(n + 64 - b) mod 64 = n - b" using n by (metis add.commute diff_add_assoc less_imp_diff_less mod_add_self1 mod_less not_less)
    moreover from False have "\<not> bit x (64 - b + n)"
      using assms by (auto dest: bit_imp_le_length)
    ultimately show ?thesis using n assms False
      by (simp add: ROTL_def bit_drop_bit_eq bit_word_rotl_iff bit_push_bit_iff bit_or_iff)
  qed
qed

lemma SIPROUND_eq: "SIPROUND s = sip_round s"
  by (cases s) (simp add: SIPROUND_def sip_round_def ROTL_eq Let_def ac_simps)

lemma sip_block_eq: "sip_block = sip_absorb"
  by (intro ext) (simp add: sip_block_def sip_absorb_def cROUNDS_def SIPROUND_eq numeral_2_eq_2
      split: prod.split)

lemma dROUNDS_eq: "(SIPROUND ^^ dROUNDS) s = sip_finish s"
  by (simp add: dROUNDS_def SIPROUND_eq sip_finish_def eval_nat_numeral)

lemma sip_xor4_eq: "sip_xor4 s = sip_word s"
  by (simp add: sip_xor4_def sip_word_def)

lemmas sip_spec_eqs = sip_block_eq dROUNDS_eq sip_xor4_eq

lemma nat_less_8_cases:
  "k < 8 \<Longrightarrow> k = 0 \<or> k = 1 \<or> k = 2 \<or> k = 3 \<or> k = 4 \<or> k = 5 \<or> k = 6 \<or> (k::nat) = 7"
  by auto

lemma upt_8: "[0..<8] = [0, 1, 2, 3, 4, 5, 6, 7::nat]"
  by (simp add: upt_rec)

lemma U64TO8_LE_eq: "U64TO8_LE v = le_bytes 8 v"
  by (auto simp: U64TO8_LE_def U32TO8_LE_def le_bytes_def upt_8 intro!: bit_word_eqI)
    (auto simp: bit_simps add.commute)

lemma take_8_drop:
  assumes "p + 8 \<le> length m"
  shows "take 8 (drop p m) =
    [m ! p, m ! (p + 1), m ! (p + 2), m ! (p + 3), m ! (p + 4), m ! (p + 5), m ! (p + 6), m ! (p + 7)]"
proof (rule nth_equalityI)
  fix i assume "i < length (take 8 (drop p m))"
  then have "i < 8" by simp
  with assms show "take 8 (drop p m) ! i =
    [m ! p, m ! (p + 1), m ! (p + 2), m ! (p + 3), m ! (p + 4), m ! (p + 5), m ! (p + 6), m ! (p + 7)] ! i"
    by (auto dest!: nat_less_8_cases)
qed (use assms in simp)

lemma U8TO64_LE_eq:
  assumes "p + 8 \<le> length m"
  shows "U8TO64_LE m p = le_word (take 8 (drop p m))"
  unfolding take_8_drop [OF assms] U8TO64_LE_def le_word_def
  by (simp add: push_bit_or ac_simps)

lemma bit_sip_tail:
  assumes "j \<le> 8"
  shows "bit (sip_tail j m ni b) k \<longleftrightarrow>
    bit b k \<or> (k < 8 * j \<and> bit (m ! (ni + k div 8)) (k mod 8))"
  using assms
proof (induction j arbitrary: b)
  case (Suc j)
  have "(k < 64 \<and> 8 * j \<le> k \<and> bit (m ! (ni + j)) (k - 8 * j)) \<longleftrightarrow>
      (8 * j \<le> k \<and> k < 8 * Suc j \<and> bit (m ! (ni + k div 8)) (k mod 8))"
  proof (cases "8 * j \<le> k \<and> k < 8 * Suc j")
    case True
    then obtain d where "k = 8 * j + d" "d < 8" by (metis add_less_cancel_left le_Suc_ex mult_Suc_right add.commute)
    with Suc.prems show ?thesis by simp
  next
    case False
    then show ?thesis using bit_imp_le_length [of "m ! (ni + j)" "k - 8 * j"] by auto
  qed
  moreover have "bit (push_bit (8 * j) (ucast (m ! (ni + j)) :: u64)) k \<longleftrightarrow>
      k < 64 \<and> 8 * j \<le> k \<and> bit (m ! (ni + j)) (k - 8 * j)"
    by (auto simp: bit_simps)
  ultimately have X: "bit (push_bit (8 * j) (ucast (m ! (ni + j)) :: u64)) k \<longleftrightarrow>
      8 * j \<le> k \<and> k < 8 * Suc j \<and> bit (m ! (ni + k div 8)) (k mod 8)" by simp
  show ?case
    using Suc.prems by (simp only: sip_tail.simps Suc.IH Suc_leD bit_or_iff X) auto
qed simp

lemma sip_pad_last:
  assumes "length msg = 8 * q + r" and "r < 8"
  shows "le_word (take 8 (drop (8 * q) (sip_pad msg))) =
    sip_tail r msg (8 * q) (push_bit 56 (of_nat (length msg)))"
proof (rule bit_word_eqI)
  fix k assume "k < LENGTH(64)"
  then have k: "k < 64" by simp
  let ?b = "sip_pad msg ! (8 * q + k div 8)"
  have d: "k div 8 < 8" using k by (simp add: div_less_iff_less_mult)
  have r: "length msg mod 8 = r" using assms by simp
  have len: "length (sip_pad msg) = 8 * q + 8" using assms r by (simp add: sip_pad_def)
  have b: "?b = (if k div 8 < r then msg ! (8 * q + k div 8)
                else if k div 8 < 7 then 0 else of_nat (length msg))"
    using d assms r by (auto simp: sip_pad_def nth_append nth_Cons')
  have "bit (le_word (take 8 (drop (8 * q) (sip_pad msg))) :: u64) k \<longleftrightarrow> bit ?b (k mod 8)"
    using k d len by (simp add: bit_le_word)
  moreover have "bit (sip_tail r msg (8 * q) (push_bit 56 (of_nat (length msg)))) k \<longleftrightarrow> bit ?b (k mod 8)"
  proof (cases "k < 56")
    case True
    moreover from True have "k div 8 < 7" by (simp add: div_less_iff_less_mult)
    moreover have "k div 8 < r \<longleftrightarrow> k < 8 * r" by (simp add: div_less_iff_less_mult mult.commute)
    ultimately show ?thesis using assms by (simp add: bit_sip_tail b bit_simps)
  next
    case False
    then obtain e where e: "k = 56 + e" by (metis le_Suc_ex not_less)
    with k have "e < 8" by simp
    then have "k div 8 = 7" "k mod 8 = e" "\<not> k < 8 * r" using e assms by (auto simp: mod_if)
    moreover from this have "?b = of_nat (length msg)" using b assms by simp
    moreover have "r \<le> 8" using assms by simp
    ultimately show ?thesis using k e \<open>e < 8\<close>
      by (simp only: bit_sip_tail bit_push_bit_iff) (simp add: bit_simps)
  qed
  ultimately show "bit (le_word (take 8 (drop (8 * q) (sip_pad msg))) :: u64) k \<longleftrightarrow>
    bit (sip_tail r msg (8 * q) (push_bit 56 (of_nat (length msg)))) k" by simp
qed

lemma le_words_sip_pad:
  assumes "length msg = 8 * q + r" and "r < 8"
  shows "le_words (sip_pad msg) =
     map (\<lambda>i. le_word (take 8 (drop (8 * i) msg))) [0..<q] @
     [sip_tail r msg (8 * q) (push_bit 56 (of_nat (length msg)))]"
proof -
  have "length msg mod 8 = r" using assms by simp
  then have "length (sip_pad msg) div 8 = Suc q" using assms by (simp add: sip_pad_def)
  moreover have "take 8 (drop (8 * i) (sip_pad msg)) = take 8 (drop (8 * i) msg)" if "i < q" for i
    using that assms by (simp add: sip_pad_def)
  ultimately show ?thesis using sip_pad_last [OF assms] by (simp add: le_words_def)
qed

lemma sip_tail_take: "ni + j \<le> n \<Longrightarrow> sip_tail j (take n m) ni b = sip_tail j m ni b"
  by (induction j arbitrary: b) simp_all

lemma siphash_blocks:
  assumes "inlen \<le> length inp"
  shows "fold (\<lambda>i s. sip_block (U8TO64_LE inp (8 * i)) s) [0..<inlen div 8] s0 =
    fold sip_block (map (\<lambda>i. le_word (take 8 (drop (8 * i) (take inlen inp)))) [0..<inlen div 8]) s0"
proof -
  have "U8TO64_LE inp (8 * i) = le_word (take 8 (drop (8 * i) (take inlen inp)))"
    if "i < inlen div 8" for i
  proof -
    have "8 * i + 8 \<le> inlen" using that by (metis Suc_leI div_times_less_eq_dividend le_trans mult.commute mult_Suc_right mult_le_mono2 add.commute)
    then have "take 8 (drop (8 * i) (take inlen inp)) = take 8 (drop (8 * i) inp)"
      by (simp add: drop_take)
    then show ?thesis using \<open>8 * i + 8 \<le> inlen\<close> assms by (simp add: U8TO64_LE_eq)
  qed
  then show ?thesis unfolding fold_map comp_def by (intro fold_cong) auto
qed

lemma siphash_eq_spec:
  assumes "inlen \<le> length inp" and "16 \<le> length k" and "outlen = 8 \<or> outlen = 16"
  shows "siphash inp inlen k outlen =
    Inr (concat (map (le_bytes 8)
      (siphash_spec (outlen = 16) (le_word (take 8 k)) (le_word (take 8 (drop 8 k))) (take inlen inp))))"
proof -
  let ?m = "take inlen inp"
  have len: "length ?m = 8 * (inlen div 8) + inlen mod 8" using assms(1) by simp
  have words: "le_words (sip_pad ?m) =
     map (\<lambda>i. le_word (take 8 (drop (8 * i) ?m))) [0..<inlen div 8] @
     [sip_tail (inlen mod 8) inp (8 * (inlen div 8)) (push_bit 56 (of_nat inlen))]"
    using assms(1) by (simp add: le_words_sip_pad [OF len] sip_tail_take)
  have nl: "inlen - inlen mod 8 = 8 * (inlen div 8)" by (metis minus_mod_eq_mult_div)
  have k: "U8TO64_LE k 0 = le_word (take 8 k)" "U8TO64_LE k 8 = le_word (take 8 (drop 8 k))"
    using assms(2) U8TO64_LE_eq [of 0 k] U8TO64_LE_eq [of 8 k] by simp_all
  show ?thesis
    using assms
    by (elim disjE; auto simp: siphash_def siphash_spec_def siphash_blocks [unfolded sip_block_eq]
        words nl k U64TO8_LE_eq sip_spec_eqs Let_def split: prod.split)
qed

text \<open>
  The test vector of the published description: the key \<open>00 .. 0f\<close> and the message \<open>00 .. 0e\<close>.
\<close>

lemma vector_rounds:
  "sip_round (0x7469686173716475, 0x6b617f6d656e6665, 0x6b7f62616d677361, 0x7c6d6c6a717c6d7b) =
     (0x64668a929363847f, 0x4ed232083d9aa8dc, 0xf2f74892d8141a2e, 0x9290f9810552f4a8)"
  "sip_round (0x64668a929363847f, 0x4ed232083d9aa8dc, 0xf2f74892d8141a2e, 0x9290f9810552f4a8) =
     (0x4d07749cdd0858e0, 0x0d52f6f62a4f59a4, 0x634cb3577b01fd3d, 0xa5224d6f55c7d9c8)"
  "sip_round (0x4a017198de0a59e0, 0x0d52f6f62a4f59a4, 0x634cb3577b01fd3d, 0xaa2c40635ecdd0c0) =
     (0x557560fb6063d060, 0x4c8e675bd961133e, 0xbd3d002b1703a181, 0xfb9441179a4a7315)"
  "sip_round (0x557560fb6063d060, 0x4c8e675bd961133e, 0xbd3d002b1703a181, 0xfb9441179a4a7315) =
     (0x338bbea7645fb759, 0x414fc3fb98efe374, 0xccf13ea527b9f4bd, 0x5293f5da84008f82)"
  "sip_round (0x3c85b3ab6f55be51, 0x414fc3fb98efe374, 0xccf13ea527b9f442, 0x5293f5da84008f82) =
     (0xf2a55244a20e48fe, 0xac5ad16ccc3ca6e4, 0x9fe5adb0a52f393a, 0xfd41d55e88f30308)"
  "sip_round (0xf2a55244a20e48fe, 0xac5ad16ccc3ca6e4, 0x9fe5adb0a52f393a, 0xfd41d55e88f30308) =
     (0xb6c3fbdecc2ae4b4, 0x1638c86adc6b3cf0, 0x28b8b6ab62553d46, 0xc9465e86ec43eb95)"
  "sip_round (0xb6c3fbdecc2ae4b4, 0x1638c86adc6b3cf0, 0x28b8b6ab62553d46, 0xc9465e86ec43eb95) =
     (0x58101b167209a5e6, 0xf8792ae75b66e7dd, 0x1da14c3ec7f0b4f7, 0x7624ba8a41bc4ad9)"
  "sip_round (0x58101b167209a5e6, 0xf8792ae75b66e7dd, 0x1da14c3ec7f0b4f7, 0x7624ba8a41bc4ad9) =
     (0xf6bcd53893fecff1, 0x54b9964c7ea0d937, 0x1b38329c099bb55a, 0x1814bb89ad7be679)"
  unfolding SIPROUND_eq [symmetric] by (simp_all add: SIPROUND_def ROTL_def)

lemma vector_words: "le_words (sip_pad (map of_nat [0..<15])) = [0x706050403020100, 0xf0e0d0c0b0a0908]"
  by code_simp

lemma siphash_vector: "siphash_spec False 0x706050403020100 0xf0e0d0c0b0a0908 (map of_nat [0..<15]) = [0xa129ca6149be45e5]"
  by (simp add: siphash_spec_def vector_words sip_absorb_def sip_finish_def sip_word_def vector_rounds)

lemma vector_key:
  "le_word (take 8 (map of_nat [0..<16])) = (0x706050403020100 :: u64)"
  "le_word (drop 8 (map of_nat [0..<16])) = (0xf0e0d0c0b0a0908 :: u64)"
  by code_simp+

text \<open>The output has the requested length.\<close>

lemma siphash_length: "siphash inp inlen k outlen = Inr out \<Longrightarrow> length out = outlen"
  by (auto simp: siphash_def Let_def U64TO8_LE_def U32TO8_LE_def split: if_splits prod.splits)

lemma siphash_8_ok:
  assumes "inlen \<le> length inp" and "16 \<le> length k"
  obtains out where "siphash inp inlen k 8 = Inr out" "length out = 8"
  using siphash_eq_spec [OF assms, of 8] siphash_length by (metis)

end
