(* ===== verification/Bit_Reverse.thy ===== *)
theory Bit_Reverse
  imports Adtm_Prelude
begin

text \<open>
  The two bit reversal routines at the top of \<^verbatim>\<open>sw/admin-cli/fpga-filter.hh\<close>: a mask
  swapping loop on 64-bit words and a multiply-and-modulus trick on single bytes. Both are shown
  to compute the reversal of the bit sequence, which turns a buffer filled from its most
  significant end into bytes whose bits are in stream order.
\<close>

section \<open>The routines of the source\<close>

function reverse_bits_loop :: "nat \<Rightarrow> u64 \<Rightarrow> u64 \<Rightarrow> u64" where
  "reverse_bits_loop s msk n =
     (let s = s div 2 in
      if s > 0
      then let msk = msk XOR push_bit s msk
           in reverse_bits_loop s msk ((drop_bit s n AND msk) OR (push_bit s n AND NOT msk))
      else n)"
  by pat_completeness auto
termination by (relation "measure (\<lambda>(s, _). s)") auto

declare reverse_bits_loop.simps [simp del]

definition reverse_bits_64 :: "u64 \<Rightarrow> u64" where
  "reverse_bits_64 n = reverse_bits_loop 64 (NOT 0) n"

definition reverse_bits_byte :: "u8 \<Rightarrow> u8" where
  "reverse_bits_byte p = ucast ((ucast p * 0x0202020202 AND 0x010884422010) mod 1023 :: u64)"

definition reverse_bits_byte_64 :: "u64 \<Rightarrow> u64" where
  "reverse_bits_byte_64 n = le_word (map reverse_bits_byte (le_bytes 8 n))"

section \<open>The byte routine reverses a byte\<close>

lemma reverse_byte_table:
  "list_all (\<lambda>p. (p * 0x0202020202 AND 0x010884422010) mod 1023 =
     of_bool (bit p 0) * 128 + of_bool (bit p 1) * 64 + of_bool (bit p 2) * 32 +
     of_bool (bit p 3) * 16 + of_bool (bit p 4) * 8 + of_bool (bit p 5) * 4 +
     of_bool (bit p 6) * 2 + (of_bool (bit p 7) :: int)) (map int [0..<256])"
  by code_simp

lemma uint_reverse_byte:
  fixes p :: u8
  shows "uint (reverse_bits_byte p) =
     of_bool (bit p 0) * 128 + of_bool (bit p 1) * 64 + of_bool (bit p 2) * 32 +
     of_bool (bit p 3) * 16 + of_bool (bit p 4) * 8 + of_bool (bit p 5) * 4 +
     of_bool (bit p 6) * 2 + of_bool (bit p 7)" (is "_ = ?r")
proof -
  let ?x = "uint p"
  have x: "0 \<le> ?x" "?x < 256" using unsigned_less [of p] by simp_all
  then have "?x \<in> set (map int [0..<256])"
    using unsigned_less [where 'a = nat, of p] by (auto simp: image_iff intro!: bexI [where x = "nat ?x"])
  then have tab: "(?x * 0x0202020202 AND 0x010884422010) mod 1023 = ?r"
    using bspec [OF reverse_byte_table [unfolded list_all_iff]] by (simp only: bit_uint_iff) simp
  have b: "?r < 256" by (simp split: split_of_bool)
  have up: "uint (ucast p :: u64) = ?x"
    using x by (simp add: unsigned_ucast_eq take_bit_int_eq_self)
  have mul: "uint (ucast p * 0x0202020202 :: u64) = ?x * 0x0202020202"
    using x by (simp add: uint_word_ariths up)
  have "uint ((ucast p * 0x0202020202 AND 0x010884422010) mod 1023 :: u64) = ?r"
    by (simp only: uint_mod uint_and mul tab [symmetric]) simp
  then show ?thesis
    unfolding reverse_bits_byte_def using b by (simp add: unsigned_ucast_eq take_bit_int_eq_self)
qed

lemma bit_reverse_bits_byte:
  assumes "k < 8" shows "bit (reverse_bits_byte p) k = bit p (7 - k)"
proof -
  let ?xs = "[bit p 7, bit p 6, bit p 5, bit p 4, bit p 3, bit p 2, bit p 1, bit p 0]"
  have "uint (reverse_bits_byte p) = horner_sum of_bool 2 ?xs"
    by (simp add: uint_reverse_byte)
  then have "bit (uint (reverse_bits_byte p)) k \<longleftrightarrow> k < length ?xs \<and> ?xs ! k"
    by (simp only: bit_horner_sum_bit_iff possible_bit_int simp_thms)
  then have "bit (reverse_bits_byte p) k \<longleftrightarrow> ?xs ! k"
    using assms by (simp add: bit_uint_iff)
  moreover have "?xs ! k = bit p (7 - k)"
    using assms by (auto simp: less_Suc_eq numeral_eq_Suc)
  ultimately show ?thesis by simp
qed

lemma word_bits_reverse_bits_byte: "word_bits 8 (reverse_bits_byte p) = rev (word_bits 8 p)"
  by (rule nth_equalityI) (simp_all add: bit_reverse_bits_byte rev_nth)

section \<open>The word routine reverses a word\<close>

definition swap_step :: "nat \<Rightarrow> u64 \<Rightarrow> u64 \<Rightarrow> u64" where
  "swap_step s msk n = (drop_bit s n AND msk) OR (push_bit s n AND NOT msk)"

lemma bit_swap_step:
  "bit (swap_step s msk n) k \<longleftrightarrow>
     k < 64 \<and> (if bit msk k then bit n (k + s) else s \<le> k \<and> bit n (k - s))"
  by (auto simp: swap_step_def bit_simps add.commute dest: bit_imp_le_length)

lemma reverse_bits_loop_step:
  "reverse_bits_loop s msk n =
     (if s div 2 > 0
      then reverse_bits_loop (s div 2) (msk XOR push_bit (s div 2) msk)
             (swap_step (s div 2) (msk XOR push_bit (s div 2) msk) n)
      else n)"
  by (subst reverse_bits_loop.simps) (simp add: Let_def swap_step_def)

lemma reverse_bits_64_unroll:
  "reverse_bits_64 n =
     swap_step 1 0x5555555555555555 (swap_step 2 0x3333333333333333
       (swap_step 4 0x0F0F0F0F0F0F0F0F (swap_step 8 0x00FF00FF00FF00FF
         (swap_step 16 0x0000FFFF0000FFFF (swap_step 32 0x00000000FFFFFFFF n)))))"
  unfolding reverse_bits_64_def
  by (simp add: reverse_bits_loop_step mask_eq_exp_minus_1)

lemma bit_reverse_bits_64:
  assumes "k < 64" shows "bit (reverse_bits_64 n) k = bit n (63 - k)"
proof -
  have "\<forall>k\<in>set [0..<64]. bit (reverse_bits_64 n) k = bit n (63 - k)"
    unfolding reverse_bits_64_unroll by (simp add: bit_swap_step upt_rec, simp add: numeral_eq_Suc)
  with assms show ?thesis by simp
qed

end
