(* ===== verification/Bit_Sink.thy ===== *)
theory Bit_Sink
  imports Adtm_Prelude
begin

text \<open>
  The contract of a bit writer, as the packet formatting code relies on it: a call with a
  positive width appends that many low bits of the value to the stream, a call with width zero
  closes the current word by padding the stream to a multiple of 32 bits. Two writers of the
  repository have it: \<open>write_admin_buf\<close> of the administration client and \<open>write_buf\<close> of the
  stand-alone packet builder.
\<close>

definition pad32 :: "nat \<Rightarrow> nat" where
  "pad32 n = (32 - n mod 32) mod 32"

definition call_bits :: "u64 \<times> u8 \<Rightarrow> bool list" where
  "call_bits c = word_bits (unat (snd c)) (fst c)"

definition narrow_call :: "u64 \<times> u8 \<Rightarrow> bool" where
  "narrow_call c \<longleftrightarrow> 0 < unat (snd c) \<and> unat (snd c) \<le> 30"

definition calls_bits :: "(u64 \<times> u8) list \<Rightarrow> bool list" where
  "calls_bits cs = concat (map call_bits cs)"

lemma calls_bits_simps [simp]:
  "calls_bits [] = []" "calls_bits (c # cs) = call_bits c @ calls_bits cs"
  "calls_bits (cs @ ds) = calls_bits cs @ calls_bits ds"
  by (simp_all add: calls_bits_def)

lemma length_call_bits [simp]: "length (call_bits c) = unat (snd c)"
  by (simp add: call_bits_def)

lemma pad32_less: "pad32 n < 32"
  by (simp add: pad32_def)

lemma pad32_dvd: "32 dvd n + pad32 n"
proof -
  obtain q r where n: "n = 32 * q + r" "r < 32" by (metis mult_div_mod_eq mod_less_divisor zero_less_numeral)
  then show ?thesis by (cases "r = 0") (auto simp: pad32_def)
qed

locale bit_sink =
  fixes put :: "'s \<Rightarrow> u64 \<Rightarrow> u8 \<Rightarrow> 's cres"
    and stream :: "'s \<Rightarrow> bool list"
    and ok :: "'s \<Rightarrow> bool"
    and flushed :: "'s \<Rightarrow> bool"
    and room :: "'s \<Rightarrow> nat \<Rightarrow> bool"
  assumes put_field:
    "ok s \<Longrightarrow> 0 < unat b \<Longrightarrow> unat b \<le> 30 \<or> unat b \<le> 64 \<and> (v = 0 \<or> flushed s) \<Longrightarrow>
     room s (unat b + n) \<Longrightarrow>
     \<exists>t. put s v b = Inr t \<and> ok t \<and> room t n \<and> stream t = stream s @ word_bits (unat b) v"
    and put_close:
    "ok s \<Longrightarrow> room s (pad32 (length (stream s)) + n) \<Longrightarrow>
     \<exists>t. put s v 0 = Inr t \<and> ok t \<and> flushed t \<and> room t n \<and>
       stream t = stream s @ replicate (pad32 (length (stream s))) False"
begin

lemma put_all:
  assumes "ok s" and "list_all narrow_call cs" and "room s (length (calls_bits cs) + n)"
  shows "\<exists>t. cfold (\<lambda>s c. put s (fst c) (snd c)) s cs = Inr t \<and> ok t \<and> room t n \<and>
    stream t = stream s @ calls_bits cs"
  using assms
proof (induction cs arbitrary: s)
  case (Cons c cs)
  from Cons.prems have r: "room s (unat (snd c) + (length (calls_bits cs) + n))"
    by (simp add: add.assoc)
  from Cons.prems have "0 < unat (snd c)" "unat (snd c) \<le> 30"
    by (simp_all add: narrow_call_def)
  then obtain u where u: "put s (fst c) (snd c) = Inr u" "ok u" "room u (length (calls_bits cs) + n)"
      "stream u = stream s @ word_bits (unat (snd c)) (fst c)"
    using put_field [OF Cons.prems(1) _ _ r, of "fst c"] by blast
  from Cons.IH [OF u(2) _ u(3)] Cons.prems(2) obtain t where
    "cfold (\<lambda>s c. put s (fst c) (snd c)) u cs = Inr t" "ok t" "room t n"
    "stream t = stream u @ calls_bits cs" by auto
  with u show ?case by (simp add: call_bits_def)
qed simp

lemma put_zeros:
  assumes "ok s" and "room s (64 * k + n)"
  shows "\<exists>t. cfold (\<lambda>s c. put s (fst c) (snd c)) s (replicate k (0, 64)) = Inr t \<and> ok t \<and> room t n \<and>
    stream t = stream s @ replicate (64 * k) False"
  using assms
proof (induction k arbitrary: s)
  case (Suc k)
  have z: "word_bits 64 (0 :: u64) = replicate 64 False"
    by (rule nth_equalityI) simp_all
  from Suc.prems have "room s (unat (64 :: u8) + (64 * k + n))" by (simp add: add.assoc)
  then obtain u where u: "put s 0 64 = Inr u" "ok u" "room u (64 * k + n)"
      "stream u = stream s @ replicate 64 False"
    using put_field [OF Suc.prems(1), of 64 0 "64 * k + n"] z by auto
  from Suc.IH [OF u(2,3)] obtain t where
    "cfold (\<lambda>s c. put s (fst c) (snd c)) u (replicate k (0, 64)) = Inr t" "ok t" "room t n"
    "stream t = stream u @ replicate (64 * k) False" by blast
  with u show ?case by (simp add: replicate_add [symmetric])
qed simp

end

end
