(* ===== verification/Fpga_Filter.thy ===== *)
theory Fpga_Filter
  imports Fpga Siphash Bit_Reverse Bit_Sink
begin

text \<open>
  The administration packet writer of \<^verbatim>\<open>sw/admin-cli/fpga-filter.hh\<close>: a 64-bit bit
  buffer filled from its most significant end, flushed to the packet file and to the hash input
  \<open>admin_buf_data\<close>, and the serialisation of a filter configuration through it.

  Shifts by the width of the operand are undefined in C++; the model gives them the result of
  the x86-64 shift instructions the program is built for, which reduce the count modulo the
  operand width. They occur only where the shifted value is zero or unused.
\<close>

section \<open>The bit writer of the source\<close>

record admin_io =
  admin_pkt :: "u8 list option"
  admin_buf :: u64
  admin_buf_bits_clean :: u8
  admin_buf_data_ptr :: nat
  admin_buf_data :: "u8 list"

definition admin_io_init :: admin_io where
  "admin_io_init = \<lparr>admin_pkt = None, admin_buf = 0, admin_buf_bits_clean = 64,
     admin_buf_data_ptr = 0, admin_buf_data = replicate 128 0\<rparr>"

definition admin_buf_key :: "u8 list" where
  "admin_buf_key = le_bytes 8 (0xdecaface1eadf1a9 :: u64) @ le_bytes 8 (0x1713440219990927 :: u64)"

definition shr64 :: "u64 \<Rightarrow> nat \<Rightarrow> u64" where "shr64 x n = drop_bit (n mod 64) x"
definition shl64 :: "u64 \<Rightarrow> nat \<Rightarrow> u64" where "shl64 x n = push_bit (n mod 64) x"

text \<open>The \<open>int\<close> expression \<open>(1 << n) - 1\<close>, converted to \<open>uint64_t\<close>.\<close>

definition int_mask :: "nat \<Rightarrow> u64" where
  "int_mask n = scast (push_bit (n mod 32) 1 - 1 :: u32)"

definition write_admin_buf_item_and_hash :: "admin_io \<Rightarrow> u64 \<Rightarrow> u8 \<Rightarrow> admin_io cres" where
  "write_admin_buf_item_and_hash st w bytes_to_write =
     (let n = unat bytes_to_write in
      if n > 8 then Inl OutOfBounds
      else cbind (cblit (admin_buf_data st) (admin_buf_data_ptr st) (le_bytes n w)) (\<lambda>dat.
        let st = st\<lparr>admin_buf_data := dat, admin_buf_data_ptr := admin_buf_data_ptr st + n\<rparr>
        in case admin_pkt st of
             None \<Rightarrow> Inl NullPointer
           | Some file \<Rightarrow> Inr (st\<lparr>admin_pkt := Some (file @ le_bytes n w)\<rparr>)))"

definition write_admin_buf :: "admin_io \<Rightarrow> u64 \<Rightarrow> u8 \<Rightarrow> admin_io cres" where
  "write_admin_buf st info bits =
     (let info = shr64 (reverse_bits_64 info) (64 - unat bits);
          clean = admin_buf_bits_clean st
      in
      if bits = 0 then
        let bytes_to_write = word_of_int (((64 - uint clean + 7) div 8 + 3) AND NOT 3);
            buf = reverse_bits_byte_64 (bswap_64 (admin_buf st))
        in cbind (write_admin_buf_item_and_hash (st\<lparr>admin_buf := buf\<rparr>) buf bytes_to_write) (\<lambda>st.
             Inr (st\<lparr>admin_buf_bits_clean := 64, admin_buf := 0\<rparr>))
      else if clean \<ge> bits then
        Inr (st\<lparr>admin_buf := admin_buf st OR shl64 info (unat (clean - bits)),
                admin_buf_bits_clean := clean - bits\<rparr>)
      else
        let bits_after_write = bits - clean;
            buf = reverse_bits_byte_64 (bswap_64 (admin_buf st OR shr64 info (unat bits_after_write)))
        in cbind (write_admin_buf_item_and_hash (st\<lparr>admin_buf := buf\<rparr>) buf 8) (\<lambda>st.
             let clean = 64 - bits_after_write
             in Inr (st\<lparr>admin_buf_bits_clean := clean,
                        admin_buf := shl64 (info AND int_mask (unat bits_after_write + 1))
                                       (unat clean)\<rparr>)))"

section \<open>The writer as a bit stream\<close>

definition pending :: "admin_io \<Rightarrow> bool list" where
  "pending st = map (\<lambda>i. bit (admin_buf st) (63 - i)) [0..<64 - unat (admin_buf_bits_clean st)]"

definition admin_file :: "admin_io \<Rightarrow> u8 list" where
  "admin_file st = (case admin_pkt st of None \<Rightarrow> [] | Some file \<Rightarrow> file)"

definition admin_stream :: "admin_io \<Rightarrow> bool list" where
  "admin_stream st = bytes_bits (admin_file st) @ pending st"

definition admin_ok :: "admin_io \<Rightarrow> bool" where
  "admin_ok st \<longleftrightarrow>
     admin_pkt st \<noteq> None \<and> unat (admin_buf_bits_clean st) \<le> 64 \<and>
     (\<forall>k < unat (admin_buf_bits_clean st). \<not> bit (admin_buf st) k) \<and>
     length (admin_buf_data st) = 128 \<and> 4 dvd length (admin_file st) \<and>
     admin_buf_data_ptr st = length (admin_file st) \<and> length (admin_file st) \<le> 128 \<and>
     take (length (admin_file st)) (admin_buf_data st) = admin_file st"

definition admin_flushed :: "admin_io \<Rightarrow> bool" where
  "admin_flushed st \<longleftrightarrow> admin_buf_bits_clean st = 64 \<and> admin_buf st = 0"

definition admin_room :: "admin_io \<Rightarrow> nat \<Rightarrow> bool" where
  "admin_room st n \<longleftrightarrow> length (admin_stream st) + n \<le> 1024"

text \<open>A flushed word leaves its bits in the file most significant first.\<close>

lemma le_bytes_flush:
  "le_bytes 8 (reverse_bits_byte_64 (bswap_64 w)) = map reverse_bits_byte (rev (le_bytes 8 w))"
proof -
  have le: "le_bytes 8 (le_word bs :: u64) = bs" if "length bs = 8" for bs
    using that le_bytes_le_word [where 'a = 64, of bs] by simp
  show ?thesis by (simp add: reverse_bits_byte_64_def bswap_64_def le)
qed

lemma bytes_bits_flush:
  "bytes_bits (le_bytes 8 (reverse_bits_byte_64 (bswap_64 w))) = rev (word_bits 64 w)"
proof -
  have "bytes_bits (map reverse_bits_byte (rev bs)) = rev (bytes_bits bs)" for bs
    by (induction bs) (simp_all add: word_bits_reverse_bits_byte)
  then show ?thesis using bytes_bits_le_bytes [of 8 w] by (simp add: le_bytes_flush)
qed

lemma item_and_hash_ok:
  assumes "n \<le> 8" "admin_pkt st = Some file" "length (admin_buf_data st) = 128"
    "admin_buf_data_ptr st = length file" "length file + n \<le> 128"
    "take (length file) (admin_buf_data st) = file" "unat b = n"
  shows "\<exists>st'. write_admin_buf_item_and_hash st w b = Inr st' \<and>
    admin_pkt st' = Some (file @ le_bytes n w) \<and> length (admin_buf_data st') = 128 \<and>
    admin_buf_data_ptr st' = length (file @ le_bytes n w) \<and>
    take (length (file @ le_bytes n w)) (admin_buf_data st') = file @ le_bytes n w"
  using assms
  by (simp add: write_admin_buf_item_and_hash_def Let_def cblit_def)

section \<open>Every call appends the low bits of its value\<close>

lemma bit_info:
  assumes "0 < b" "b \<le> 64"
  shows "bit (shr64 (reverse_bits_64 v) (64 - b)) k \<longleftrightarrow> k < b \<and> bit v (b - 1 - k)"
proof (cases "k < b")
  case True
  then have "64 - b + k < 64" "63 - (64 - b + k) = b - 1 - k" using assms by auto
  with True assms show ?thesis by (simp add: shr64_def bit_drop_bit_eq bit_reverse_bits_64)
next
  case False
  then show ?thesis using assms by (auto simp: shr64_def bit_drop_bit_eq dest: bit_imp_le_length)
qed

lemma int_mask_eq: "n \<le> 31 \<Longrightarrow> bit (int_mask n) k \<longleftrightarrow> k < n"
proof -
  assume "n \<le> 31"
  then have "push_bit (n mod 32) 1 - 1 = (mask n :: u32)"
    by (simp add: mask_eq_exp_minus_1 push_bit_eq_mult)
  with \<open>n \<le> 31\<close> show ?thesis
    by (auto simp: int_mask_def bit_simps)
qed

lemma pending_normal:
  assumes "0 < b" "b \<le> c" "c \<le> 64" "\<forall>k<c. \<not> bit buf k"
    and info: "\<And>k. bit info k \<longleftrightarrow> k < b \<and> bit v (b - 1 - k)"
  shows "map (\<lambda>i. bit (buf OR shl64 info (c - b)) (63 - i)) [0..<64 - (c - b)] =
    map (\<lambda>i. bit buf (63 - i)) [0..<64 - c] @ word_bits b v"
    (is "?l = ?r")
proof (rule nth_equalityI)
  show "length ?l = length ?r" using assms by simp
  fix i assume "i < length ?l"
  then have i: "i < 64 - (c - b)" by simp
  have sh: "(c - b) mod 64 = c - b" using assms by simp
  show "?l ! i = ?r ! i"
  proof (cases "i < 64 - c")
    case True
    then have "\<not> 63 - i - (c - b) < b" using assms by auto
    with True i show ?thesis by (simp add: nth_append bit_or_iff shl64_def sh bit_push_bit_iff info)
  next
    case False
    then have "\<not> bit buf (63 - i)" "c - b \<le> 63 - i" "63 - i - (c - b) < b" "63 - i < 64"
      "b - 1 - (63 - i - (c - b)) = i - (64 - c)" "i - (64 - c) < b"
      using assms i by auto
    with False i show ?thesis
      by (simp add: nth_append bit_or_iff shl64_def sh bit_push_bit_iff info)
  qed
qed

lemma pending_split:
  assumes "0 < d" "c + d \<le> 64" "\<forall>k<c. \<not> bit buf k" "d \<le> 63 \<or> v = 0"
    and info: "\<And>k. bit info k \<longleftrightarrow> k < c + d \<and> bit v (c + d - 1 - k)"
  shows "rev (word_bits 64 (buf OR shr64 info d)) =
    map (\<lambda>i. bit buf (63 - i)) [0..<64 - c] @ word_bits c v"
    (is "?l = ?r")
proof (rule nth_equalityI)
  show "length ?l = length ?r" using assms by simp
  fix i assume "i < length ?l"
  then have i: "i < 64" by simp
  have "info = 0" if "v = 0" using info that by (auto intro: bit_word_eqI)
  then have sh: "bit (shr64 info d) k \<longleftrightarrow> bit info (d + k)" for k
    using assms(4) by (cases "v = 0") (simp_all add: shr64_def bit_drop_bit_eq)
  show "?l ! i = ?r ! i"
  proof (cases "i < 64 - c")
    case True
    then have "\<not> d + (63 - i) < c + d" using assms by auto
    with True i show ?thesis by (simp add: nth_append rev_nth bit_or_iff sh info)
  next
    case False
    then have "\<not> bit buf (63 - i)" "d + (63 - i) < c + d"
      "c + d - Suc (d + (63 - i)) = i - (64 - c)" "i - (64 - c) < c"
      using assms i by auto
    with False i assms show ?thesis
      by (simp add: nth_append rev_nth bit_or_iff sh info)
  qed
qed

lemma pending_rest:
  assumes "0 < d" "c + d \<le> 64" "d \<le> 30 \<or> v = 0"
    and info: "\<And>k. bit info k \<longleftrightarrow> k < c + d \<and> bit v (c + d - 1 - k)"
  defines "buf \<equiv> shl64 (info AND int_mask (d + 1)) (64 - d)"
  shows "map (\<lambda>i. bit buf (63 - i)) [0..<d] = word_bits d (drop_bit c v)" (is "?l = ?r")
    and "k < 64 - d \<Longrightarrow> \<not> bit buf k"
proof -
  have "info = 0" if "v = 0" using info that by (auto intro: bit_word_eqI)
  then have sh: "bit buf k \<longleftrightarrow> k < 64 \<and> 64 - d \<le> k \<and> bit info (k - (64 - d))" for k
  proof (cases "v = 0")
    case False
    then have "d + 1 \<le> 31" using assms(3) by simp
    moreover have "(64 - d) mod 64 = 64 - d" using assms(1) by simp
    moreover have "k < 64 \<Longrightarrow> 64 - d \<le> k \<Longrightarrow> k - (64 - d) < d + 1" by auto
    ultimately show ?thesis
      unfolding buf_def shl64_def by (simp add: bit_push_bit_iff bit_and_iff int_mask_eq) blast
  qed (simp add: buf_def shl64_def)
  show "?l = ?r"
  proof (rule nth_equalityI)
    fix i assume "i < length ?l"
    then have "i < d" by simp
    moreover from this assms(1,2) have "63 - i - (64 - d) < c + d" "64 - d \<le> 63 - i"
      "c + d - Suc (63 - i - (64 - d)) = c + i" "63 - i < 64" by auto
    ultimately show "?l ! i = ?r ! i" by (simp add: sh info bit_drop_bit_eq)
  qed simp
  show "k < 64 - d \<Longrightarrow> \<not> bit buf k" by (simp add: sh)
qed

lemma admin_okD:
  assumes "admin_ok st"
  obtains fl where "admin_pkt st = Some fl" "admin_file st = fl"
    "unat (admin_buf_bits_clean st) \<le> 64" "\<forall>k < unat (admin_buf_bits_clean st). \<not> bit (admin_buf st) k"
    "length (admin_buf_data st) = 128" "4 dvd length fl" "admin_buf_data_ptr st = length fl"
    "length fl \<le> 128" "take (length fl) (admin_buf_data st) = fl"
  using assms by (auto simp: admin_ok_def admin_file_def split: option.splits)

lemma length_pending: "length (pending st) = 64 - unat (admin_buf_bits_clean st)"
  by (simp add: pending_def)

lemma write_admin_buf_normal:
  assumes ok: "admin_ok s" and b: "0 < unat b" and le: "b \<le> admin_buf_bits_clean s"
    and room: "admin_room s (unat b + n)"
  shows "\<exists>t. write_admin_buf s v b = Inr t \<and> admin_ok t \<and> admin_room t n \<and>
    admin_stream t = admin_stream s @ word_bits (unat b) v"
proof -
  let ?c = "unat (admin_buf_bits_clean s)" and ?b = "unat b"
  let ?info = "shr64 (reverse_bits_64 v) (64 - ?b)"
  let ?t = "s\<lparr>admin_buf := admin_buf s OR shl64 ?info (unat (admin_buf_bits_clean s - b)),
              admin_buf_bits_clean := admin_buf_bits_clean s - b\<rparr>"
  have s: "?c \<le> 64" "\<forall>k < ?c. \<not> bit (admin_buf s) k" using ok by (auto simp: admin_ok_def)
  have le': "?b \<le> ?c" using le by (simp add: word_le_nat_alt)
  then have info: "bit ?info k \<longleftrightarrow> k < ?b \<and> bit v (?b - 1 - k)" for k
    using s(1) by (intro bit_info [OF b]) simp
  have sub: "unat (admin_buf_bits_clean s - b) = ?c - ?b" using le by (rule unat_sub)
  have put: "write_admin_buf s v b = Inr ?t"
    using le b by (auto simp: write_admin_buf_def Let_def)
  have str: "admin_stream ?t = admin_stream s @ word_bits ?b v"
    using pending_normal [OF b le' s info]
    by (simp add: admin_stream_def pending_def admin_file_def sub)
  have "\<not> bit (shl64 ?info (?c - ?b)) k" if "k < ?c - ?b" for k
    using that s(1) b le' by (simp add: shl64_def bit_push_bit_iff)
  then have "admin_ok ?t"
    using ok s by (auto simp: admin_ok_def admin_file_def sub bit_or_iff)
  with put str room show ?thesis by (auto simp: admin_room_def)
qed

lemma write_admin_buf_split:
  assumes ok: "admin_ok s" and b64: "unat b \<le> 64" and lt: "admin_buf_bits_clean s < b"
    and small: "unat b \<le> 30 \<or> v = 0" and room: "admin_room s (unat b + n)"
  shows "\<exists>t. write_admin_buf s v b = Inr t \<and> admin_ok t \<and> admin_room t n \<and>
    admin_stream t = admin_stream s @ word_bits (unat b) v"
proof -
  let ?c = "unat (admin_buf_bits_clean s)" and ?b = "unat b"
  let ?info = "shr64 (reverse_bits_64 v) (64 - ?b)" and ?d = "unat b - unat (admin_buf_bits_clean s)"
  from ok obtain fl where s: "admin_pkt s = Some fl" "admin_file s = fl"
    "?c \<le> 64" "\<forall>k < ?c. \<not> bit (admin_buf s) k"
    "length (admin_buf_data s) = 128" "4 dvd length fl" "admin_buf_data_ptr s = length fl"
    "length fl \<le> 128" "take (length fl) (admin_buf_data s) = fl" by (rule admin_okD)
  have d: "0 < ?d" "?c + ?d = ?b" "?c + ?d \<le> 64" "?d \<le> 30 \<or> v = 0"
    using lt b64 small by (auto simp: word_less_nat_alt)
  have sub: "unat (b - admin_buf_bits_clean s) = ?d" using lt by (intro unat_sub) simp
  define buf1 where "buf1 = admin_buf s OR shr64 ?info ?d"
  define w where "w = reverse_bits_byte_64 (bswap_64 buf1)"
  define buf2 where "buf2 = shl64 (?info AND int_mask (?d + 1)) (64 - ?d)"
  have info: "bit ?info k \<longleftrightarrow> k < ?c + ?d \<and> bit v (?c + ?d - 1 - k)" for k
    using bit_info [of ?b v k] d by simp
  have bits1: "rev (word_bits 64 buf1) = pending s @ word_bits ?c v"
    unfolding buf1_def pending_def by (rule pending_split [OF d(1,3) s(4) _ info]) (use d in auto)
  have bits2: "map (\<lambda>i. bit buf2 (63 - i)) [0..<?d] = word_bits ?d (drop_bit ?c v)"
    and low2: "\<And>k. k < 64 - ?d \<Longrightarrow> \<not> bit buf2 k"
    unfolding buf2_def using pending_rest [OF d(1,3,4) info] by blast+
  have "8 * length fl + 64 \<le> 1024"
    using room d s(2,3) by (auto simp: admin_room_def admin_stream_def length_pending)
  then have "length fl + 8 \<le> 128" by simp
  with item_and_hash_ok [of 8 "s\<lparr>admin_buf := w\<rparr>" fl 8 w] s
  obtain u where u: "write_admin_buf_item_and_hash (s\<lparr>admin_buf := w\<rparr>) w 8 = Inr u"
    "admin_pkt u = Some (fl @ le_bytes 8 w)" "length (admin_buf_data u) = 128"
    "admin_buf_data_ptr u = length (fl @ le_bytes 8 w)"
    "take (length (fl @ le_bytes 8 w)) (admin_buf_data u) = fl @ le_bytes 8 w" by auto
  let ?t = "u\<lparr>admin_buf_bits_clean := 64 - (b - admin_buf_bits_clean s), admin_buf := buf2\<rparr>"
  have clean: "unat (64 - (b - admin_buf_bits_clean s)) = 64 - ?d"
    using sub d(3) by (subst unat_sub) (simp_all add: word_le_nat_alt)
  have put: "write_admin_buf s v b = Inr ?t"
    using lt d u(1) by (auto simp: write_admin_buf_def Let_def sub clean w_def buf1_def buf2_def)
  have "admin_stream ?t = bytes_bits fl @ rev (word_bits 64 buf1) @ word_bits ?d (drop_bit ?c v)"
    using u(2) bits2 d(3) by (simp add: admin_stream_def admin_file_def pending_def clean w_def bytes_bits_flush)
  also have "\<dots> = admin_stream s @ word_bits ?b v"
    using word_bits_add [of ?c ?d v] s(2) by (simp add: bits1 admin_stream_def d(2))
  finally have str: "admin_stream ?t = admin_stream s @ word_bits ?b v" .
  have "admin_ok ?t"
    using u s(6) low2 \<open>length fl + 8 \<le> 128\<close> by (simp add: admin_ok_def admin_file_def clean)
  with put str room show ?thesis by (auto simp: admin_room_def)
qed

lemma write_admin_buf_field:
  assumes "admin_ok s" and "0 < unat b"
    and wide: "unat b \<le> 30 \<or> unat b \<le> 64 \<and> (v = 0 \<or> admin_flushed s)"
    and "admin_room s (unat b + n)"
  shows "\<exists>t. write_admin_buf s v b = Inr t \<and> admin_ok t \<and> admin_room t n \<and>
    admin_stream t = admin_stream s @ word_bits (unat b) v"
proof (cases "b \<le> admin_buf_bits_clean s")
  case True
  with assms show ?thesis by (intro write_admin_buf_normal)
next
  case False
  then have "unat b \<le> 30 \<or> v = 0" using wide by (auto simp: admin_flushed_def word_le_nat_alt)
  with False assms show ?thesis by (intro write_admin_buf_split) auto
qed

lemma close_bytes_table:
  "list_all (\<lambda>p. ((int p + 7) div 8 + 3) AND NOT 3 = int ((p + pad32 p) div 8) \<and> (p + pad32 p) div 8 \<le> 8) [0..<65]"
  by code_simp

lemma close_count:
  assumes "p \<le> 64"
  obtains n8 where "((int p + 7) div 8 + 3) AND NOT 3 = int n8" "8 * n8 = p + pad32 p"
    "n8 \<le> 8" "4 dvd n8" "unat (word_of_nat n8 :: u8) = n8"
proof -
  let ?n = "(p + pad32 p) div 8"
  have "((int p + 7) div 8 + 3) AND NOT 3 = int ?n" and n: "?n \<le> 8"
    using assms close_bytes_table by (simp_all add: list_all_iff)
  moreover have "8 * ?n = p + pad32 p" "4 dvd ?n" using pad32_dvd [of p] by (auto elim!: dvdE)
  moreover have "unat (word_of_nat ?n :: u8) = ?n" using n by (simp add: unsigned_of_nat take_bit_eq_mod)
  ultimately show thesis using that by blast
qed

lemma pad32_add: "32 dvd m \<Longrightarrow> pad32 (m + n) = pad32 n"
  by (auto simp: pad32_def mod_add_left_eq elim!: dvdE)

lemma rev_bits_pad:
  assumes "c \<le> 64" "\<forall>k<c. \<not> bit buf k" "m \<le> c"
  shows "take (64 - c + m) (rev (word_bits 64 buf)) =
    map (\<lambda>i. bit (buf :: u64) (63 - i)) [0..<64 - c] @ replicate m False" (is "?l = ?r")
proof (rule nth_equalityI)
  show "length ?l = length ?r" using assms by simp
  fix i assume "i < length ?l"
  with assms show "?l ! i = ?r ! i" by (auto simp: nth_append rev_nth)
qed

lemma write_admin_buf_close:
  assumes ok: "admin_ok s" and room: "admin_room s (pad32 (length (admin_stream s)) + n)"
  shows "\<exists>t. write_admin_buf s v 0 = Inr t \<and> admin_ok t \<and> admin_flushed t \<and> admin_room t n \<and>
    admin_stream t = admin_stream s @ replicate (pad32 (length (admin_stream s))) False"
proof -
  let ?c = "unat (admin_buf_bits_clean s)"
  from ok obtain fl where s: "admin_pkt s = Some fl" "admin_file s = fl"
    "?c \<le> 64" "\<forall>k < ?c. \<not> bit (admin_buf s) k"
    "length (admin_buf_data s) = 128" "4 dvd length fl" "admin_buf_data_ptr s = length fl"
    "length fl \<le> 128" "take (length fl) (admin_buf_data s) = fl" by (rule admin_okD)
  define p where "p = 64 - ?c"
  define w where "w = reverse_bits_byte_64 (bswap_64 (admin_buf s))"
  have "p \<le> 64" by (simp add: p_def)
  then obtain n8 where cb: "((int p + 7) div 8 + 3) AND NOT 3 = int n8"
    and n8: "8 * n8 = p + pad32 p" "n8 \<le> 8" "4 dvd n8" and un8: "unat (word_of_nat n8 :: u8) = n8"
    by (rule close_count)
  have pc: "pad32 p \<le> ?c" using n8 s(3) by (simp add: p_def)
  have "int p = 64 - uint (admin_buf_bits_clean s)" using s(3) by (simp add: p_def of_nat_diff)
  then have bw: "word_of_int (((64 - uint (admin_buf_bits_clean s) + 7) div 8 + 3) AND NOT 3) = (word_of_nat n8 :: u8)"
    using cb by simp
  have d32: "32 dvd 8 * length fl" using s(6) by (auto elim!: dvdE)
  have len: "length (admin_stream s) = 8 * length fl + p"
    using s(2) by (simp add: admin_stream_def length_pending p_def)
  then have pad: "pad32 (length (admin_stream s)) = pad32 p" using pad32_add [OF d32] by simp
  have "length fl + n8 \<le> 128" using room n8(1) unfolding admin_room_def pad by (simp add: len)
  with item_and_hash_ok [OF n8(2), of "s\<lparr>admin_buf := w\<rparr>" fl "word_of_nat n8" w] s un8
  obtain u where u: "write_admin_buf_item_and_hash (s\<lparr>admin_buf := w\<rparr>) w (word_of_nat n8) = Inr u"
    "admin_pkt u = Some (fl @ le_bytes n8 w)" "length (admin_buf_data u) = 128"
    "admin_buf_data_ptr u = length (fl @ le_bytes n8 w)"
    "take (length (fl @ le_bytes n8 w)) (admin_buf_data u) = fl @ le_bytes n8 w" by auto
  let ?t = "u\<lparr>admin_buf_bits_clean := 64, admin_buf := 0\<rparr>"
  have put: "write_admin_buf s v 0 = Inr ?t"
    using u(1) unfolding write_admin_buf_def Let_def bw by (simp add: w_def)
  have "le_bytes n8 w = take n8 (le_bytes 8 w)" using n8(2) by (simp add: le_bytes_def take_map min_def)
  then have "bytes_bits (le_bytes n8 w) = take (8 * n8) (rev (word_bits 64 (admin_buf s)))"
    by (simp add: take_bytes_bits w_def bytes_bits_flush)
  also have "\<dots> = pending s @ replicate (pad32 p) False"
    using rev_bits_pad [OF s(3,4) pc] n8(1) by (simp add: pending_def p_def)
  finally have str: "admin_stream ?t = admin_stream s @ replicate (pad32 (length (admin_stream s))) False"
    unfolding pad using u(2) s(2) by (simp add: admin_stream_def admin_file_def pending_def)
  have "admin_ok ?t"
    using u s(6) n8(3) \<open>length fl + n8 \<le> 128\<close> by (simp add: admin_ok_def admin_file_def)
  with put str room show ?thesis by (auto simp: admin_room_def admin_flushed_def)
qed

interpretation admin_sink: bit_sink write_admin_buf admin_stream admin_ok admin_flushed admin_room
  by unfold_locales (blast intro: write_admin_buf_field, blast intro: write_admin_buf_close)

end
