(* ===== verification/Admin_Packet.thy ===== *)
theory Admin_Packet
  imports Fpga_Filter
begin

text \<open>
  The serialisation half of \<^verbatim>\<open>sw/admin-cli/fpga-filter.hh\<close>: the sequence of
  \<open>write_admin_buf\<close> calls that \<open>write_to_admin_pkt\<close> makes for a filter, the authentication hash,
  and the initial configuration. \<open>admin_layout\<close> is the wire format as a bit string; the writer is
  shown to produce exactly it, 128 bytes with the digest of the first 120 at the end.
\<close>

section \<open>Serialisation as the source does it\<close>

definition byte_calls :: "u8 list \<Rightarrow> (u64 \<times> u8) list" where
  "byte_calls bs = map (\<lambda>b. (ucast b, 8)) bs"

definition port_calls :: "udp_port_t list \<Rightarrow> (u64 \<times> u8) list" where
  "port_calls ps = map (\<lambda>p. (ucast (htons (port p)), 16)) ps"

text \<open>The field writes of \<open>write_to_admin_pkt\<close>, in program order.\<close>

definition admin_calls :: "filter_t \<Rightarrow> (u64 \<times> u8) list" where
  "admin_calls f =
     [(ucast (srcMACBW f), 1), (ucast (srcMACLength f), 2)] @
       concat (map (\<lambda>m. byte_calls (byte m)) (srcMACList f)) @
     [(ucast (dstMACBW f), 1), (ucast (dstMACLength f), 2)] @
       concat (map (\<lambda>m. byte_calls (byte m)) (dstMACList f)) @
     [(ucast (srcIPBW f), 1), (ucast (srcIPLength f), 2)] @
       concat (map (\<lambda>a. byte_calls (num a)) (srcIPList f)) @
     [(ucast (dstIPBW f), 1), (ucast (dstIPLength f), 2)] @
       concat (map (\<lambda>a. byte_calls (num a)) (dstIPList f)) @
     [(ucast (srcPortBW f), 1), (ucast (srcPortLength f), 2)] @ port_calls (srcPortList f) @
     [(ucast (dstPortBW f), 1), (ucast (dstPortLength f), 2)] @ port_calls (dstPortList f) @
     [(ucast (dnsBW f), 1), (ucast (dnsLength f), 2)] @ byte_calls (dnsItemEndPtr f) @
       concat (map (\<lambda>d. byte_calls (dns_c d)) (dnsList f)) @
     [(ucast (replyType f), 1)]"

abbreviation write_calls :: "admin_io \<Rightarrow> (u64 \<times> u8) list \<Rightarrow> admin_io cres" where
  "write_calls \<equiv> cfold (\<lambda>st c. write_admin_buf st (fst c) (snd c))"

definition append_auth_hash :: "admin_io \<Rightarrow> admin_io cres" where
  "append_auth_hash st =
     cbind (siphash (admin_buf_data st) 120 admin_buf_key 8) (\<lambda>out.
     cbind (write_admin_buf st (le_word out) 64) (\<lambda>st.
     write_admin_buf st 0 0))"

text \<open>
  \<open>fopen_ok\<close> tells whether \<open>fopen(filename, "wb")\<close> succeeded. A failure is reported but the
  function goes on with the null pointer.
\<close>

definition write_to_admin_pkt :: "bool \<Rightarrow> admin_io \<Rightarrow> filter_t \<Rightarrow> admin_io cres" where
  "write_to_admin_pkt fopen_ok st f =
     (let st = st\<lparr>admin_pkt := (if fopen_ok then Some [] else None),
                  admin_buf_data_ptr := 0,
                  admin_buf_data := replicate 120 0 @ drop 120 (admin_buf_data st)\<rparr>
      in cbind (write_calls st (admin_calls f)) (\<lambda>st.
         cbind (write_admin_buf st 0 0) (\<lambda>st.
         cbind (write_calls st (replicate 4 (0, 64))) (\<lambda>st.
         cbind (write_admin_buf st 0 0) (\<lambda>st.
         append_auth_hash st)))))"

text \<open>The configuration the client starts with.\<close>

definition initialise_fpga_configuration :: filter_t where
  "initialise_fpga_configuration = \<lparr>
     srcMACBW = 1, srcMACLength = 1,
     srcMACList = [\<lparr>byte = [0x00, 0x0c, 0x29, 0x5f, 0x29, 0xae]\<rparr>, mac_zero],
     dstMACBW = 0, dstMACLength = 1,
     dstMACList = [\<lparr>byte = [0x00, 0x0a, 0x35, 0xff, 0xff, 0xff]\<rparr>, mac_zero],
     srcIPBW = 1, srcIPLength = 2,
     srcIPList = [\<lparr>num = [0, 0, 0, 0]\<rparr>, \<lparr>num = [192, 168, 255, 255]\<rparr>],
     dstIPBW = 0, dstIPLength = 2,
     dstIPList = [\<lparr>num = [1, 2, 3, 4]\<rparr>, \<lparr>num = [255, 255, 255, 255]\<rparr>],
     srcPortBW = 1, srcPortLength = 2, srcPortList = [\<lparr>port = 53\<rparr>, \<lparr>port = 12345\<rparr>],
     dstPortBW = 1, dstPortLength = 2, dstPortList = [\<lparr>port = 53\<rparr>, \<lparr>port = 23456\<rparr>],
     dnsBW = 0, dnsLength = 2, dnsItemEndPtr = [9 * 8, 10 * 8],
     dnsList = [\<lparr>dns_c = map of_char ''apple.com'' @ replicate 7 0\<rparr>,
                \<lparr>dns_c = map of_char ''google.com'' @ replicate 6 0\<rparr>],
     replyType = 0\<rparr>"

section \<open>The wire format\<close>

definition admin_layout :: "filter_t \<Rightarrow> bool list" where
  "admin_layout f =
     word_bits 1 (srcMACBW f) @ word_bits 2 (srcMACLength f) @ bytes_bits (concat (map byte (srcMACList f))) @
     word_bits 1 (dstMACBW f) @ word_bits 2 (dstMACLength f) @ bytes_bits (concat (map byte (dstMACList f))) @
     word_bits 1 (srcIPBW f) @ word_bits 2 (srcIPLength f) @ bytes_bits (concat (map num (srcIPList f))) @
     word_bits 1 (dstIPBW f) @ word_bits 2 (dstIPLength f) @ bytes_bits (concat (map num (dstIPList f))) @
     word_bits 1 (srcPortBW f) @ word_bits 2 (srcPortLength f) @
       concat (map (\<lambda>p. word_bits 16 (htons (port p))) (srcPortList f)) @
     word_bits 1 (dstPortBW f) @ word_bits 2 (dstPortLength f) @
       concat (map (\<lambda>p. word_bits 16 (htons (port p))) (dstPortList f)) @
     word_bits 1 (dnsBW f) @ word_bits 2 (dnsLength f) @ bytes_bits (dnsItemEndPtr f) @
       bytes_bits (concat (map dns_c (dnsList f))) @
     word_bits 1 (replyType f)"

definition admin_idle :: "admin_io \<Rightarrow> bool" where
  "admin_idle st \<longleftrightarrow> admin_buf st = 0 \<and> admin_buf_bits_clean st = 64 \<and> length (admin_buf_data st) = 128"

definition auth_digest :: "u8 list \<Rightarrow> u8 list" where
  "auth_digest body =
     concat (map (le_bytes 8) (siphash_spec False 0xdecaface1eadf1a9 0x1713440219990927 body))"

text \<open>The packet: the configuration padded to 120 bytes, and the digest of those bytes.\<close>

definition admin_body :: "filter_t \<Rightarrow> u8 list" where
  "admin_body f = pack_bits (admin_layout f @ replicate (960 - length (admin_layout f)) False)"

definition admin_packet :: "filter_t \<Rightarrow> u8 list" where
  "admin_packet f = admin_body f @ auth_digest (admin_body f)"

section \<open>The writer produces the wire format\<close>

lemma wf_initial_configuration: "wf_filter initialise_fpga_configuration"
  by (simp add: wf_filter_def wf_array_def initialise_fpga_configuration_def FILTER_DEPTH_def
      wf_mac_def wf_ip_def wf_dns_item_def mac_zero_def)

lemma calls_bits_byte_calls: "calls_bits (byte_calls bs) = bytes_bits bs"
  by (induction bs) (simp_all add: byte_calls_def call_bits_def word_bits_ucast)

lemma calls_bits_concat_byte_calls:
  "calls_bits (concat (map (\<lambda>x. byte_calls (g x)) xs)) = bytes_bits (concat (map g xs))"
  by (induction xs) (simp_all add: calls_bits_byte_calls)

lemma calls_bits_port_calls:
  "calls_bits (port_calls ps) = concat (map (\<lambda>p. word_bits 16 (htons (port p))) ps)"
  by (induction ps) (simp_all add: port_calls_def call_bits_def word_bits_ucast)

lemma calls_bits_admin_calls: "calls_bits (admin_calls f) = admin_layout f"
  by (simp add: admin_calls_def admin_layout_def calls_bits_concat_byte_calls calls_bits_byte_calls
      calls_bits_port_calls call_bits_def word_bits_ucast)

lemma narrow_admin_calls: "list_all narrow_call (admin_calls f)"
  by (auto simp: admin_calls_def byte_calls_def port_calls_def narrow_call_def list_all_iff)

lemma length_concat_map:
  "(\<And>x. x \<in> set xs \<Longrightarrow> length (g x) = k) \<Longrightarrow> length (concat (map g xs)) = length xs * k"
  by (induction xs) auto

lemma wf_filter_lengths [layout_simps]:
  assumes "wf_filter f"
  shows "length (concat (map byte (srcMACList f))) = 12" "length (concat (map byte (dstMACList f))) = 12"
    "length (concat (map num (srcIPList f))) = 8" "length (concat (map num (dstIPList f))) = 8"
    "length (concat (map (\<lambda>p. word_bits 16 (htons (port p))) (srcPortList f))) = 32"
    "length (concat (map (\<lambda>p. word_bits 16 (htons (port p))) (dstPortList f))) = 32"
    "length (dnsItemEndPtr f) = 2" "length (concat (map dns_c (dnsList f))) = 32"
  using assms
  by (simp_all add: wf_filter_def wf_array_def FILTER_DEPTH_def wf_mac_def wf_ip_def wf_dns_item_def
      list_all_iff length_concat_map [where k = 6] length_concat_map [where k = 4]
      length_concat_map [where k = 16] del: length_concat)

lemma length_admin_layout: "wf_filter f \<Longrightarrow> length (admin_layout f) = 678"
  by (simp add: admin_layout_def wf_filter_lengths del: length_concat)

lemma bytes_bits_admin_body:
  assumes "wf_filter f"
  shows "bytes_bits (admin_body f) = admin_layout f @ replicate 282 False" "length (admin_body f) = 120"
  using assms by (simp_all add: admin_body_def bytes_bits_pack_bits length_admin_layout length_pack_bits)

lemma auth_digest_siphash:
  assumes "120 \<le> length dat"
  shows "siphash dat 120 admin_buf_key 8 = Inr (auth_digest (take 120 dat))"
    "length (auth_digest (take 120 dat)) = 8"
proof -
  show *: "siphash dat 120 admin_buf_key 8 = Inr (auth_digest (take 120 dat))"
    using siphash_eq_spec [of 120 dat admin_buf_key 8] assms
    by (simp add: auth_digest_def admin_buf_key_def le_word_le_bytes)
  show "length (auth_digest (take 120 dat)) = 8" using siphash_length [OF *] .
qed

lemma admin_flushed_file:
  assumes "admin_ok st" "admin_flushed st"
  shows "admin_stream st = bytes_bits (admin_file st)"
  using assms by (simp add: admin_stream_def pending_def admin_flushed_def)

lemma append_auth_hash_ok:
  assumes "admin_ok st" "admin_flushed st" "length (admin_file st) = 120"
  shows "\<exists>t. append_auth_hash st = Inr t \<and> admin_ok t \<and> admin_flushed t \<and>
    admin_file t = admin_file st @ auth_digest (admin_file st)"
proof -
  have str: "admin_stream st = bytes_bits (admin_file st)" using assms(1,2) by (rule admin_flushed_file)
  have dat: "120 \<le> length (admin_buf_data st)" "take 120 (admin_buf_data st) = admin_file st"
    using assms by (simp_all add: admin_ok_def)
  define h where "h = auth_digest (admin_file st)"
  have h: "siphash (admin_buf_data st) 120 admin_buf_key 8 = Inr h" "length h = 8"
    using auth_digest_siphash [OF dat(1)] by (simp_all add: dat(2) h_def)
  have "admin_room st (unat (64 :: u8) + 0)" using str assms(3) by (simp add: admin_room_def)
  then obtain u where u: "write_admin_buf st (le_word h) 64 = Inr u" "admin_ok u" "admin_room u 0"
      "admin_stream u = admin_stream st @ word_bits 64 (le_word h :: u64)"
    using admin_sink.put_field [OF assms(1), of 64 "le_word h" 0] assms(2) by auto
  have hb: "word_bits 64 (le_word h :: u64) = bytes_bits h"
    using word_bits_le_word [where 'a = 64, of h] h(2) by simp
  have "length (admin_stream u) = 1024" using u(4) str assms(3) by simp
  then have pad: "pad32 (length (admin_stream u)) = 0" by (simp add: pad32_def)
  then obtain t where t: "write_admin_buf u 0 0 = Inr t" "admin_ok t" "admin_flushed t"
      "admin_stream t = admin_stream u"
    using admin_sink.put_close [OF u(2), of 0 0] u(3) by auto
  have "bytes_bits (admin_file t) = bytes_bits (admin_file st @ h)"
    using t(4) u(4) by (simp add: str hb flip: admin_flushed_file [OF t(2,3)])
  then have "admin_file t = admin_file st @ h" by (rule bytes_bits_inj)
  with h u t show ?thesis by (simp add: append_auth_hash_def h_def)
qed

lemma write_to_admin_pkt_refines:
  assumes wf: "wf_filter f" and idle: "admin_idle st"
  shows "\<exists>t. write_to_admin_pkt True st f = Inr t \<and> admin_idle t \<and> admin_file t = admin_packet f"
proof -
  let ?s = "st\<lparr>admin_pkt := Some [], admin_buf_data_ptr := 0,
      admin_buf_data := replicate 120 0 @ drop 120 (admin_buf_data st)\<rparr>"
  have s: "admin_ok ?s" "admin_stream ?s = []"
    using idle by (simp_all add: admin_ok_def admin_idle_def admin_file_def admin_stream_def pending_def)
  have len: "length (calls_bits (admin_calls f)) = 678"
    by (simp add: calls_bits_admin_calls length_admin_layout [OF wf])
  have "admin_room ?s (length (calls_bits (admin_calls f)) + 346)"
    using s(2) by (simp add: admin_room_def len)
  then obtain t1 where t1: "write_calls ?s (admin_calls f) = Inr t1" "admin_ok t1" "admin_room t1 346"
      "admin_stream t1 = admin_layout f"
    using admin_sink.put_all [OF s(1) narrow_admin_calls] s(2) by (auto simp: calls_bits_admin_calls)
  have "pad32 (length (admin_stream t1)) = 26"
    by (simp add: t1(4) length_admin_layout [OF wf] pad32_def)
  then obtain t2 where t2: "write_admin_buf t1 0 0 = Inr t2" "admin_ok t2" "admin_room t2 320"
      "admin_stream t2 = admin_layout f @ replicate 26 False"
    using admin_sink.put_close [OF t1(2), of 320 0] t1(3,4) by auto
  obtain t3 where t3: "write_calls t2 (replicate 4 (0, 64)) = Inr t3" "admin_ok t3" "admin_room t3 64"
      "admin_stream t3 = admin_layout f @ replicate 282 False"
    using admin_sink.put_zeros [OF t2(2), of 4 64] t2(3,4) by (auto simp flip: replicate_add)
  have "pad32 (length (admin_stream t3)) = 0"
    by (simp add: t3(4) length_admin_layout [OF wf] pad32_def)
  then obtain t4 where t4: "write_admin_buf t3 0 0 = Inr t4" "admin_ok t4" "admin_flushed t4"
      "admin_stream t4 = bytes_bits (admin_body f)"
    using admin_sink.put_close [OF t3(2), of 64 0] t3(3,4) bytes_bits_admin_body [OF wf] by auto
  have body: "admin_file t4 = admin_body f"
    using t4(4) by (auto intro: bytes_bits_inj simp: admin_flushed_file [OF t4(2,3)])
  obtain t where t: "append_auth_hash t4 = Inr t" "admin_ok t" "admin_flushed t"
      "admin_file t = admin_packet f"
    using append_auth_hash_ok [OF t4(2,3)] bytes_bits_admin_body(2) [OF wf]
    by (auto simp: body admin_packet_def)
  have "admin_idle t" using t(2,3) by (simp add: admin_ok_def admin_flushed_def admin_idle_def)
  moreover have "write_to_admin_pkt True st f = Inr t"
    using t1(1) t2(1) t3(1) t4(1) t(1) by (simp add: write_to_admin_pkt_def Let_def)
  ultimately show ?thesis using t(4) by blast
qed

section \<open>Without a file the writer dereferences the null pointer\<close>

definition admin_no_file :: "admin_io \<Rightarrow> bool" where
  "admin_no_file st \<longleftrightarrow> admin_pkt st = None \<and> admin_buf_data_ptr st = 0 \<and>
     length (admin_buf_data st) = 128 \<and> unat (admin_buf_bits_clean st) \<le> 64"

lemma write_admin_buf_no_file:
  assumes "admin_no_file st" "0 < unat b"
  shows "write_admin_buf st v b = Inl NullPointer \<or>
    (\<exists>t. write_admin_buf st v b = Inr t \<and> admin_no_file t \<and>
       unat (admin_buf_bits_clean st) = unat (admin_buf_bits_clean t) + unat b)"
proof (cases "b \<le> admin_buf_bits_clean st")
  case True
  with assms show ?thesis
    by (auto simp: write_admin_buf_def Let_def admin_no_file_def unat_sub word_le_nat_alt)
next
  case False
  with assms show ?thesis
    by (auto simp: write_admin_buf_def write_admin_buf_item_and_hash_def Let_def admin_no_file_def cblit_def)
qed

lemma write_calls_no_file:
  assumes "admin_no_file st" "list_all narrow_call cs"
    and "unat (admin_buf_bits_clean st) < length (calls_bits cs)"
  shows "write_calls st cs = Inl NullPointer"
  using assms
proof (induction cs arbitrary: st)
  case (Cons c cs)
  then have "0 < unat (snd c)" by (simp add: narrow_call_def)
  from write_admin_buf_no_file [OF Cons.prems(1) this, of "fst c"] Cons.prems Cons.IH
  show ?case by (auto simp: less_diff_conv)
qed simp

lemma write_to_admin_pkt_no_file:
  assumes "wf_filter f" "admin_idle st"
  shows "write_to_admin_pkt False st f = Inl NullPointer"
  using assms length_admin_layout [OF assms(1)]
  by (simp add: write_to_admin_pkt_def Let_def write_calls_no_file admin_no_file_def admin_idle_def
      narrow_admin_calls calls_bits_admin_calls)

end
