(* ===== verification/Bit_Extract.thy ===== *)
theory Bit_Extract
  imports Admin_Packet
begin

text \<open>
  \<open>extract_bits_from_arr\<close> of \<^verbatim>\<open>sw/admin-cli/fpga-prober.hh\<close>: the bit range \<open>s .. e\<close> of a byte
  array, and the proof that it is that slice of the array's bit stream.
\<close>

section \<open>Bit ranges of a byte array, as the source extracts them\<close>

definition extract_single :: "u8 \<Rightarrow> nat \<Rightarrow> nat \<Rightarrow> u64" where
  "extract_single p so eo =
     ucast (drop_bit so (ucast p AND
       (0xff - (push_bit so 1 - 1) - push_bit eo (push_bit (8 - eo) 1 - 1)) :: u32))"

definition extract_first :: "u8 \<Rightarrow> nat \<Rightarrow> u64" where
  "extract_first p so = drop_bit so (ucast p AND (0xff - (push_bit so 1 - 1)))"

definition extract_step :: "u8 list \<Rightarrow> nat \<Rightarrow> nat \<Rightarrow> nat \<Rightarrow> nat \<Rightarrow> u64 \<Rightarrow> nat \<Rightarrow> u64 cres" where
  "extract_step pkt sb so eb eo buf i = cbind (cread pkt i) (\<lambda>p.
     Inr (if i = sb then extract_first p so
          else if i = eb then
            buf OR shl64 (ucast p AND (0xff - push_bit eo (push_bit (8 - eo) 1 - 1))) ((i - sb) * 8 - so)
          else buf OR shl64 (ucast p) ((i - sb) * 8 - so)))"

definition extract_bits_from_arr :: "u8 list \<Rightarrow> nat \<Rightarrow> nat \<Rightarrow> u64 cres" where
  "extract_bits_from_arr pkt s e =
     (let sb = s div 8; so = s mod 8; eb = e div 8; eo = e mod 8 + 1 in
      if sb = eb then cbind (cread pkt sb) (\<lambda>p. Inr (extract_single p so eo))
      else cfold (extract_step pkt sb so eb eo) 0 [sb..<Suc eb])"

section \<open>The extraction reads a slice of the bit stream\<close>

lemma minus_submask:
  fixes a b :: "'a::len word"
  assumes "\<And>k. bit b k \<Longrightarrow> bit a k" shows "a - b = a AND NOT b"
proof -
  have "NOT a AND b = 0" using assms by (intro bit_word_eqI) (auto simp: bit_simps)
  then show ?thesis by (rule disjunctive_diff_eq_and_not)
qed

lemma byte_mask: "(0xff :: 'a::len word) = mask 8"
  by (simp add: mask_eq_exp_minus_1)

lemma low_mask: "(push_bit n 1 - 1 :: 'a::len word) = mask n"
  by (simp add: mask_eq_exp_minus_1 push_bit_eq_mult)

lemma bit_low_cut:
  assumes "so < 8"
  shows "bit (0xff - (push_bit so 1 - 1) :: 'a::len word) k \<longleftrightarrow> so \<le> k \<and> k < 8 \<and> k < LENGTH('a)"
proof -
  have "mask 8 - mask so = mask 8 AND NOT (mask so :: 'a word)"
    using assms by (intro minus_submask) (auto simp: bit_mask_iff)
  then show ?thesis unfolding byte_mask low_mask by (auto simp: bit_simps)
qed

lemma bit_high_cut:
  assumes "eo \<le> 8"
  shows "bit (0xff - push_bit eo (push_bit (8 - eo) 1 - 1) :: 'a::len word) k \<longleftrightarrow>
    k < eo \<and> k < LENGTH('a)"
proof -
  have "mask 8 - push_bit eo (mask (8 - eo)) = mask 8 AND NOT (push_bit eo (mask (8 - eo)) :: 'a word)"
    using assms by (intro minus_submask) (auto simp: bit_simps)
  then show ?thesis unfolding byte_mask low_mask using assms by (auto simp: bit_simps)
qed

lemma bit_both_cut:
  assumes "so < eo" "eo \<le> 8"
  shows "bit (0xff - (push_bit so 1 - 1) - push_bit eo (push_bit (8 - eo) 1 - 1) :: u32) k \<longleftrightarrow>
    so \<le> k \<and> k < eo"
proof -
  define a where "a = (0xff - (push_bit so 1 - 1) :: u32)"
  have a: "bit a k \<longleftrightarrow> so \<le> k \<and> k < 8" for k
    using bit_low_cut [of so k, where 'a = 32] assms unfolding a_def by auto
  have "a - push_bit eo (mask (8 - eo)) = a AND NOT (push_bit eo (mask (8 - eo)))"
    using assms by (intro minus_submask) (auto simp: a bit_simps)
  then show ?thesis unfolding low_mask [of "8 - eo"] a_def [symmetric] using assms by (auto simp: a bit_simps)
qed

text \<open>Bit \<open>k\<close> of the range that starts at bit \<open>s\<close> of the array.\<close>

definition range_bit :: "u8 list \<Rightarrow> nat \<Rightarrow> nat \<Rightarrow> bool" where
  "range_bit pkt s k \<longleftrightarrow> bit (pkt ! ((s + k) div 8)) ((s + k) mod 8)"

lemma bit_byte: "bit (p :: u8) n \<Longrightarrow> n < 8"
  using bit_imp_le_length by fastforce

lemma shifted_byte:
  fixes p :: u8
  assumes "s \<le> 8 * i" "8 * i - s < 64"
  shows "bit (shl64 (ucast p AND m) (8 * i - s)) k \<longleftrightarrow>
    k < 64 \<and> 8 * i \<le> s + k \<and> s + k < 8 * Suc i \<and> bit p ((s + k) mod 8) \<and> bit m ((s + k) mod 8)"
proof (cases "8 * i \<le> s + k")
  case True
  then obtain j where j: "s + k = 8 * i + j" by (metis le_Suc_ex)
  with assms have "k - (8 * i - s) = j" "8 * i - s \<le> k" by linarith+
  moreover from j have "j < 8 \<Longrightarrow> (s + k) mod 8 = j" by simp
  moreover from j have "s + k < 8 * Suc i \<longleftrightarrow> j < 8" by simp
  ultimately show ?thesis using True assms bit_byte [of p j]
    by (auto simp: shl64_def bit_simps)
qed (use assms in \<open>auto simp: shl64_def bit_simps\<close>)

lemma bit_extract_first:
  assumes "so < 8" shows "bit (extract_first p so) k \<longleftrightarrow> bit p (so + k)"
  using assms unfolding extract_first_def
  by (auto simp only: bit_drop_bit_eq comp_def bit_and_iff bit_low_cut) (auto simp: bit_simps dest: bit_byte)

lemma byte_split:
  obtains q r :: nat where "s = 8 * q + r" "r < 8" "s div 8 = q" "s mod 8 = r"
  by (metis mult_div_mod_eq mod_less_divisor zero_less_numeral)

lemma same_byte:
  assumes "s mod 8 + k < (8 :: nat)"
  shows "(s + k) div 8 = s div 8" "(s + k) mod 8 = s mod 8 + k"
proof -
  obtain q r where s: "s = 8 * q + r" "r < 8" "s div 8 = q" "s mod 8 = r" by (rule byte_split)
  with assms have "s + k = 8 * q + (r + k)" "r + k < 8" by simp_all
  then show "(s + k) div 8 = s div 8" "(s + k) mod 8 = s mod 8 + k"
    unfolding s(3,4) by (simp_all only: div_mult_self4 mod_mult_self4) simp_all
qed

lemma in_first_byte: "s + k < 8 * Suc (s div 8) \<longleftrightarrow> s mod 8 + k < (8 :: nat)"
  by (rule byte_split [of s]) simp

lemma range_bit_first:
  "s mod 8 + k < 8 \<Longrightarrow> range_bit pkt s k = bit (pkt ! (s div 8)) (s mod 8 + k)"
  by (simp add: range_bit_def same_byte)

lemma byte_shift: "s div 8 < i \<Longrightarrow> (i - s div 8) * 8 - s mod 8 = 8 * i - (s :: nat)"
  by (rule byte_split [of s]) simp

lemma shift_range:
  assumes "s div 8 + m < e div 8" "e - s < (64 :: nat)"
  shows "s \<le> 8 * Suc (s div 8 + m)" "8 * Suc (s div 8 + m) - s < 64" "8 * Suc (s div 8 + m) \<le> e"
proof -
  obtain q r where s: "s = 8 * q + r" "r < 8" "s div 8 = q" "s mod 8 = r" by (rule byte_split)
  obtain q' r' where e: "e = 8 * q' + r'" "r' < 8" "e div 8 = q'" "e mod 8 = r'" by (rule byte_split)
  show "s \<le> 8 * Suc (s div 8 + m)" "8 * Suc (s div 8 + m) - s < 64" "8 * Suc (s div 8 + m) \<le> e"
    using assms unfolding s(3) e(3) s(1) e(1) using s(2) by simp_all
qed

lemma extract_loop:
  assumes "s div 8 + m < e div 8" "e - s < 64" "e div 8 < length pkt"
  shows "\<exists>buf. cfold (extract_step pkt (s div 8) (s mod 8) (e div 8) eo) 0 [s div 8..<Suc (s div 8 + m)] = Inr buf \<and>
    (\<forall>k. bit buf k \<longleftrightarrow> s + k < 8 * Suc (s div 8 + m) \<and> range_bit pkt s k)"
  using assms(1)
proof (induction m)
  case 0
  have "bit (extract_first (pkt ! (s div 8)) (s mod 8)) k \<longleftrightarrow>
      s + k < 8 * Suc (s div 8) \<and> range_bit pkt s k" for k
    unfolding in_first_byte using bit_byte by (auto simp: bit_extract_first range_bit_first)
  with 0 assms show ?case by (simp add: extract_step_def cread_Inr)
next
  case (Suc m)
  let ?i = "Suc (s div 8 + m)"
  let ?step = "extract_step pkt (s div 8) (s mod 8) (e div 8) eo"
  obtain buf where buf: "cfold ?step 0 [s div 8..<?i] = Inr buf"
    "\<And>k. bit buf k \<longleftrightarrow> s + k < 8 * ?i \<and> range_bit pkt s k" using Suc by auto
  have lt: "s \<le> 8 * ?i" "8 * ?i - s < 64" using Suc.prems assms(2) by (auto intro!: shift_range)
  let ?new = "buf OR shl64 (ucast (pkt ! ?i)) (8 * ?i - s)"
  have step: "?step buf ?i = Inr ?new"
    using Suc.prems assms(3) byte_shift [of s ?i] by (simp add: extract_step_def cread_Inr)
  have idx: "(s + k) div 8 = ?i" if "8 * ?i \<le> s + k" "s + k < 8 * Suc ?i" for k
    using that by (intro div_nat_eqI) (auto simp: mult.commute)
  have k64: "k < 64" if "s + k < 8 * Suc ?i" for k
    using that shift_range(3) [of s "Suc m" e] Suc.prems assms(2) by simp
  have "bit ?new k \<longleftrightarrow> s + k < 8 * Suc ?i \<and> range_bit pkt s k" for k
    using shifted_byte [OF lt, of "pkt ! ?i" "- 1" k] buf(2) [of k] idx [of k] k64 [of k]
    by (auto simp: bit_or_iff range_bit_def not_less)
  with buf(1) step show ?case
    by (simp add: cfold_upt_Suc [of "s div 8" ?i] del: upt_Suc mult_Suc_right)
qed


lemma extract_last:
  assumes "s div 8 + m < e div 8" "Suc (s div 8 + m) = e div 8" "e - s < 64" "e div 8 < length pkt"
  shows "\<exists>buf. cfold (extract_step pkt (s div 8) (s mod 8) (e div 8) (e mod 8 + 1)) 0 [s div 8..<Suc (e div 8)] = Inr buf \<and>
    (\<forall>k. bit buf k \<longleftrightarrow> s + k \<le> e \<and> range_bit pkt s k)"
proof -
  let ?i = "Suc (s div 8 + m)" and ?eo = "e mod 8 + 1"
  let ?step = "extract_step pkt (s div 8) (s mod 8) (e div 8) ?eo"
  obtain buf where buf: "cfold ?step 0 [s div 8..<?i] = Inr buf"
    "\<And>k. bit buf k \<longleftrightarrow> s + k < 8 * ?i \<and> range_bit pkt s k" using extract_loop [OF assms(1,3,4)] by auto
  define cut where "cut = (0xff - push_bit ?eo (push_bit (8 - ?eo) 1 - 1) :: u64)"
  have cut: "bit cut k \<longleftrightarrow> k < ?eo" for k
    using bit_high_cut [of ?eo k, where 'a = 64] unfolding cut_def by auto
  have e: "8 * ?i + e mod 8 = e" using assms(2) by (simp del: mult_Suc_right)
  have lt: "s \<le> 8 * ?i" "8 * ?i - s < 64" using assms(1,3) by (auto intro!: shift_range)
  let ?new = "buf OR shl64 (ucast (pkt ! ?i) AND cut) (8 * ?i - s)"
  have step: "?step buf ?i = Inr ?new"
    using assms unfolding extract_step_def cut_def [symmetric]
    by (simp add: cread_Inr byte_shift [of s "e div 8"])
  have idx: "(s + k) div 8 = ?i \<and> (s + k \<le> e \<longleftrightarrow> (s + k) mod 8 < ?eo)" if "8 * ?i \<le> s + k" "s + k < 8 * Suc ?i" for k
  proof -
    have "(s + k) div 8 = ?i" using that by (intro div_nat_eqI) (auto simp: mult.commute)
    moreover have "s + k = 8 * ((s + k) div 8) + (s + k) mod 8" by simp
    ultimately obtain r where r: "s + k = 8 * ?i + r" "(s + k) mod 8 = r" by metis
    then have "s + k \<le> e \<longleftrightarrow> r < ?eo" by (subst e [symmetric]) (simp add: less_Suc_eq_le)
    with r \<open>(s + k) div 8 = ?i\<close> show ?thesis by simp
  qed
  have k64: "k < 64" "s + k < 8 * Suc ?i" if "s + k \<le> e" for k
  proof -
    obtain r where "e = 8 * ?i + r" "r < 8" using e by (metis mod_less_divisor zero_less_numeral)
    with that show "s + k < 8 * Suc ?i" by simp
  qed (use that assms(3) in linarith)
  have "bit ?new k \<longleftrightarrow> s + k \<le> e \<and> range_bit pkt s k" for k
    using shifted_byte [OF lt, of "pkt ! ?i" cut k] buf(2) [of k] idx [of k] k64 [of k] e
    by (auto simp: bit_or_iff range_bit_def not_less cut)
  with buf(1) step show ?thesis
    by (simp add: cfold_upt_Suc [of "s div 8" ?i] del: upt_Suc mult_Suc_right flip: assms(2))
qed

theorem extract_bits_ok:
  assumes "s \<le> e" "e - s < 64" "e div 8 < length pkt"
  shows "extract_bits_from_arr pkt s e = Inr (word_of_bits (take (Suc e - s) (drop s (bytes_bits pkt))))"
proof -
  have len: "e < 8 * length pkt" using assms(3) by (simp add: div_less_iff_less_mult mult.commute)
  let ?w = "word_of_bits (take (Suc e - s) (drop s (bytes_bits pkt))) :: u64"
  have w: "bit ?w k \<longleftrightarrow> s + k \<le> e \<and> range_bit pkt s k" for k
    using assms len by (auto simp: bit_word_of_bits nth_bytes_bits range_bit_def)
  show ?thesis
  proof (cases "s div 8 = e div 8")
    case True
    obtain q r where s: "s = 8 * q + r" "r < 8" "s div 8 = q" "s mod 8 = r" by (rule byte_split)
    obtain q' r' where e: "e = 8 * q' + r'" "r' < 8" "e div 8 = q'" "e mod 8 = r'" by (rule byte_split)
    have r: "r \<le> r'" using True assms(1) s e by simp
    have "bit (extract_single (pkt ! q) r (r' + 1)) k \<longleftrightarrow> s + k \<le> e \<and> range_bit pkt s k" for k
    proof -
      have "bit (extract_single (pkt ! q) r (r' + 1)) k \<longleftrightarrow> k < 64 \<and> r + k < r' + 1 \<and> bit (pkt ! q) (r + k)"
        using r e(2) bit_both_cut [of r "r' + 1" "r + k"] unfolding extract_single_def
        by (auto simp only: bit_drop_bit_eq comp_def bit_and_iff bit_unsigned_iff) (auto simp: bit_simps dest: bit_byte)
      also have "\<dots> \<longleftrightarrow> s + k \<le> e \<and> range_bit pkt s k"
        using True s e range_bit_first [of s k pkt] by auto
      finally show ?thesis .
    qed
    then have "extract_single (pkt ! q) r (r' + 1) = ?w" by (intro bit_eqI) (simp add: w)
    with True s e assms show ?thesis by (simp add: extract_bits_from_arr_def cread_Inr Let_def)
  next
    case False
    then have "s div 8 < e div 8" using assms(1) div_le_mono [of s e 8] by simp
    then obtain m where m: "Suc (s div 8 + m) = e div 8" by (metis less_imp_Suc_add)
    obtain buf where "extract_bits_from_arr pkt s e = Inr buf" "\<And>k. bit buf k \<longleftrightarrow> s + k \<le> e \<and> range_bit pkt s k"
      using extract_last [of s m e pkt] m assms False by (auto simp: extract_bits_from_arr_def Let_def)
    moreover from this have "buf = ?w" by (intro bit_eqI) (simp only: w)
    ultimately show ?thesis by simp
  qed
qed

end
