(* ===== verification/Fpga_Prober.thy ===== *)
theory Fpga_Prober
  imports Bit_Extract
begin

text \<open>
  The parsing half of the protocol, \<^verbatim>\<open>sw/admin-cli/fpga-prober.hh\<close>: decoding a
  configuration (\<open>parse_admin_bin\<close>) and the probe reply of the board (\<open>parse_probe_pkt\<close>). A
  pointer into a buffer is the list of the bytes from it to the end of the buffer object, so that
  a read behind the object is the fault \<open>OutOfBounds\<close>, while \<open>length\<close> is what the caller claims.
\<close>

section \<open>Decoding, as the source does it\<close>

record probe_response_t =
  pr_f :: filter_t
  pr_s :: stats_t

definition probe_response_zero :: probe_response_t where
  "probe_response_zero = \<lparr>pr_f = filter_zero, pr_s = stats_zero\<rparr>"

text \<open>The assignments \<open>f.field = extract_bits_from_arr(payload, s, e)\<close> truncate to the field.\<close>

definition get_field :: "u8 list \<Rightarrow> nat \<Rightarrow> nat \<Rightarrow> 'a::len word cres" where
  "get_field payload s e = cbind (extract_bits_from_arr payload s e) (\<lambda>w. Inr (ucast w))"

definition get_bytes :: "u8 list \<Rightarrow> nat \<Rightarrow> nat \<Rightarrow> u8 list cres" where
  "get_bytes payload base n = cmap (\<lambda>j. get_field payload (base + j * 8) (base + 7 + j * 8)) [0..<n]"

definition get_macs :: "u8 list \<Rightarrow> nat \<Rightarrow> mac_addr_t list cres" where
  "get_macs payload base =
     cmap (\<lambda>i. cbind (get_bytes payload (base + i * 48) 6) (\<lambda>bs. Inr \<lparr>byte = bs\<rparr>)) [0..<2]"

definition get_ips :: "u8 list \<Rightarrow> nat \<Rightarrow> ip_addr_t list cres" where
  "get_ips payload base =
     cmap (\<lambda>i. cbind (get_bytes payload (base + i * 32) 4) (\<lambda>bs. Inr \<lparr>num = bs\<rparr>)) [0..<2]"

definition get_ports :: "u8 list \<Rightarrow> nat \<Rightarrow> udp_port_t list cres" where
  "get_ports payload base =
     cmap (\<lambda>i. cbind (get_field payload (base + i * 16) (base + 15 + i * 16))
                 (\<lambda>p. Inr \<lparr>port = ntohs p\<rparr>)) [0..<2]"

definition get_dns :: "u8 list \<Rightarrow> nat \<Rightarrow> dns_filter_item_t list cres" where
  "get_dns payload base =
     cmap (\<lambda>i. cbind (get_bytes payload (base + i * 128) 16) (\<lambda>bs. Inr \<lparr>dns_c = bs\<rparr>)) [0..<2]"

text \<open>The address block, which the source executes twice.\<close>

definition get_ip_block :: "u8 list \<Rightarrow> filter_t \<Rightarrow> filter_t cres" where
  "get_ip_block payload f =
     cbind (get_field payload 198 198) (\<lambda>sbw. cbind (get_field payload 199 200) (\<lambda>sl.
     cbind (get_field payload 265 265) (\<lambda>dbw. cbind (get_field payload 266 267) (\<lambda>dl.
     cbind (get_ips payload 201) (\<lambda>src. cbind (get_ips payload 268) (\<lambda>dst.
     Inr (f\<lparr>srcIPBW := sbw, srcIPLength := sl, srcIPList := src,
            dstIPBW := dbw, dstIPLength := dl, dstIPList := dst\<rparr>)))))))"

definition parse_admin_bin :: "filter_t \<Rightarrow> u8 list \<Rightarrow> nat \<Rightarrow> filter_t cres" where
  "parse_admin_bin f_curr payload len =
     (if len < 85 then Inr f_curr else
      cbind (get_field payload 0 0) (\<lambda>sbw. cbind (get_field payload 1 2) (\<lambda>sl.
      cbind (get_field payload 99 99) (\<lambda>dbw. cbind (get_field payload 100 101) (\<lambda>dl.
      cbind (get_macs payload 3) (\<lambda>src. cbind (get_macs payload 102) (\<lambda>dst.
      let f = filter_zero\<lparr>srcMACBW := sbw, srcMACLength := sl, srcMACList := src,
                          dstMACBW := dbw, dstMACLength := dl, dstMACList := dst\<rparr> in
      cbind (get_ip_block payload f) (\<lambda>f. cbind (get_ip_block payload f) (\<lambda>f.
      cbind (get_field payload 332 332) (\<lambda>sbw. cbind (get_field payload 333 334) (\<lambda>sl.
      cbind (get_field payload 367 367) (\<lambda>dbw. cbind (get_field payload 368 369) (\<lambda>dl.
      cbind (get_ports payload 335) (\<lambda>src. cbind (get_ports payload 370) (\<lambda>dst.
      let f = f\<lparr>srcPortBW := sbw, srcPortLength := sl, srcPortList := src,
                dstPortBW := dbw, dstPortLength := dl, dstPortList := dst\<rparr> in
      cbind (get_field payload 402 402) (\<lambda>bw. cbind (get_field payload 403 404) (\<lambda>l.
      cbind (get_bytes payload 405 2) (\<lambda>ends. cbind (get_dns payload 421) (\<lambda>items.
      cbind (get_field payload 677 677) (\<lambda>rt.
      Inr (f\<lparr>dnsBW := bw, dnsLength := l, dnsItemEndPtr := ends, dnsList := items,
             replyType := rt\<rparr>)))))))))))))))))))))"

definition parse_stats :: "u8 list \<Rightarrow> stats_t cres" where
  "parse_stats payload =
     cbind (get_field payload 678 741) (\<lambda>a. cbind (get_field payload 742 805) (\<lambda>b.
     cbind (get_field payload 806 869) (\<lambda>c. cbind (get_field payload 870 933) (\<lambda>d.
     cbind (get_field payload 934 997) (\<lambda>e.
     Inr \<lparr>stc = a, sfc = b, smc = c, sic = d, spc = e\<rparr>)))))"

text \<open>
  The payload starts behind the Ethernet (14 bytes), IP (20) and UDP (8) headers, but the length
  is reduced by three times the size of a pointer, in \<open>size_t\<close> arithmetic.
\<close>

definition HEADERS_SIZE :: nat where "HEADERS_SIZE = 14 + 20 + 8"

definition parse_probe_pkt :: "filter_t \<Rightarrow> u8 list \<Rightarrow> u64 \<Rightarrow> probe_response_t cres" where
  "parse_probe_pkt f_curr pkt len =
     (let len = len - (8 + 8 + 8); payload = drop HEADERS_SIZE pkt in
      if len < 128 then Inr probe_response_zero
      else cbind (parse_admin_bin f_curr payload (unat len)) (\<lambda>f.
           cbind (parse_stats payload) (\<lambda>s. Inr \<lparr>pr_f = f, pr_s = s\<rparr>)))"

section \<open>Cursors into the payload\<close>

text \<open>The bits \<open>xs\<close> stand at bit position \<open>p\<close> of the payload.\<close>

definition stands_at :: "u8 list \<Rightarrow> nat \<Rightarrow> bool list \<Rightarrow> bool" where
  "stands_at pkt p xs \<longleftrightarrow> take (length xs) (drop p (bytes_bits pkt)) = xs \<and> p + length xs \<le> 8 * length pkt"

lemma stands_at_append:
  "stands_at pkt p (xs @ ys) \<longleftrightarrow> stands_at pkt p xs \<and> stands_at pkt (p + length xs) ys"
  by (auto simp: stands_at_def take_add ac_simps)

lemma stands_at_concat:
  assumes "stands_at pkt p (concat xss)" "\<forall>xs \<in> set xss. length xs = k" "i < length xss"
  shows "stands_at pkt (p + i * k) (xss ! i)"
  using assms
proof (induction xss arbitrary: p i)
  case (Cons xs xss)
  from Cons.prems have "stands_at pkt p xs" "stands_at pkt (p + k) (concat xss)"
    by (simp_all add: stands_at_append)
  with Cons.prems Cons.IH [of "p + k"] show ?case by (cases i) (simp_all add: add.assoc)
qed simp

lemma get_field_stands_at:
  assumes "stands_at pkt s (word_bits LENGTH('a) (w :: 'a::len word))"
    and "Suc e = s + LENGTH('a)" "LENGTH('a) \<le> 64"
  shows "get_field pkt s e = Inr w"
proof -
  have "e < 8 * length pkt" using assms by (simp add: stands_at_def)
  then have "e div 8 < length pkt" by (simp add: div_less_iff_less_mult mult.commute)
  then have "extract_bits_from_arr pkt s e = Inr (word_of_bits (take (Suc e - s) (drop s (bytes_bits pkt))))"
    using assms len_gt_0 [where 'a = 'a] by (intro extract_bits_ok) linarith+
  also have "take (Suc e - s) (drop s (bytes_bits pkt)) = word_bits LENGTH('a) w"
    using assms by (simp add: stands_at_def)
  finally show ?thesis using assms(3)
    by (auto simp: get_field_def bit_word_of_bits bit_simps intro!: bit_word_eqI)
qed

lemma get_bytes_stands_at:
  assumes "stands_at pkt p (bytes_bits bs)" "length bs = n"
  shows "get_bytes pkt p n = Inr bs"
proof -
  have "get_field pkt (p + j * 8) (p + 7 + j * 8) = Inr (bs ! j)" if "j < n" for j
    using stands_at_concat [of pkt p "map (word_bits 8) bs" 8 j] assms that
    by (intro get_field_stands_at) (auto simp: bytes_bits_def)
  then have "get_bytes pkt p n = Inr (map (\<lambda>j. bs ! j) [0..<n])"
    unfolding get_bytes_def by (intro cmap_Inr) simp
  with assms(2) show ?thesis using map_nth [of bs] by simp
qed

lemma bytes_bits_concat: "bytes_bits (concat xss) = concat (map bytes_bits xss)"
  by (induction xss) simp_all

lemma get_structs_stands_at:
  assumes "stands_at pkt p (bytes_bits (concat (map g xs)))" "length xs = 2"
    and "\<And>x. x \<in> set xs \<Longrightarrow> length (g x) = n \<and> mk (g x) = x" and "k = 8 * n"
  shows "cmap (\<lambda>i. cbind (get_bytes pkt (p + i * k) n) (\<lambda>bs. Inr (mk bs))) [0..<2] = Inr xs"
proof -
  have "cbind (get_bytes pkt (p + i * k) n) (\<lambda>bs. Inr (mk bs)) = Inr (xs ! i)" if "i < 2" for i
  proof -
    have "stands_at pkt (p + i * k) (map (bytes_bits \<circ> g) xs ! i)"
      using assms that by (intro stands_at_concat) (auto simp: bytes_bits_concat comp_def)
    with that assms have "get_bytes pkt (p + i * k) n = Inr (g (xs ! i))"
      by (intro get_bytes_stands_at) auto
    with assms that show ?thesis by simp
  qed
  then have "cmap (\<lambda>i. cbind (get_bytes pkt (p + i * k) n) (\<lambda>bs. Inr (mk bs))) [0..<2] =
      Inr (map (\<lambda>i. xs ! i) [0..<2])" by (intro cmap_Inr) simp
  also have "map (\<lambda>i. xs ! i) [0..<2] = xs" using map_nth [of xs] assms(2) by simp
  finally show ?thesis .
qed

lemma get_macs_stands_at:
  "stands_at pkt p (bytes_bits (concat (map byte xs))) \<Longrightarrow> wf_array wf_mac xs \<Longrightarrow> get_macs pkt p = Inr xs"
  unfolding get_macs_def
  by (rule get_structs_stands_at [where g = byte])
    (auto simp: wf_array_def FILTER_DEPTH_def list_all_iff wf_mac_def)

lemma get_ips_stands_at:
  "stands_at pkt p (bytes_bits (concat (map num xs))) \<Longrightarrow> wf_array wf_ip xs \<Longrightarrow> get_ips pkt p = Inr xs"
  unfolding get_ips_def
  by (rule get_structs_stands_at [where g = num])
    (auto simp: wf_array_def FILTER_DEPTH_def list_all_iff wf_ip_def)

lemma get_dns_stands_at:
  "stands_at pkt p (bytes_bits (concat (map dns_c xs))) \<Longrightarrow> wf_array wf_dns_item xs \<Longrightarrow> get_dns pkt p = Inr xs"
  unfolding get_dns_def
  by (rule get_structs_stands_at [where g = dns_c])
    (auto simp: wf_array_def FILTER_DEPTH_def list_all_iff wf_dns_item_def)

lemma get_ports_stands_at:
  assumes "stands_at pkt p (concat (map (\<lambda>q. word_bits 16 (htons (port q))) xs))" "length xs = FILTER_DEPTH"
  shows "get_ports pkt p = Inr xs"
proof -
  have "cbind (get_field pkt (p + i * 16) (p + 15 + i * 16)) (\<lambda>q. Inr \<lparr>port = ntohs q\<rparr>) = Inr (xs ! i)"
    if "i < 2" for i
  proof -
    have "stands_at pkt (p + i * 16) (map (\<lambda>q. word_bits 16 (htons (port q))) xs ! i)"
      using assms that by (intro stands_at_concat) (auto simp: FILTER_DEPTH_def)
    with that assms have "get_field pkt (p + i * 16) (p + 15 + i * 16) = Inr (htons (port (xs ! i)))"
      by (intro get_field_stands_at) (auto simp: FILTER_DEPTH_def)
    then show ?thesis by simp
  qed
  then have "get_ports pkt p = Inr (map (\<lambda>i. xs ! i) [0..<2])"
    unfolding get_ports_def by (intro cmap_Inr) simp
  with assms(2) show ?thesis using map_nth [of xs] by (simp add: FILTER_DEPTH_def)
qed

lemmas get_stands_at = get_macs_stands_at get_ips_stands_at get_ports_stands_at get_dns_stands_at
  get_bytes_stands_at

section \<open>Decoding inverts encoding\<close>

lemma parse_admin_bin_layout:
  assumes wf: "wf_filter f" and at: "stands_at pkt 0 (admin_layout f)" and len: "85 \<le> n"
  shows "parse_admin_bin fc pkt n = Inr f"
proof -
  note parts = at [unfolded admin_layout_def stands_at_append length_append length_word_bits
      length_bytes_bits wf_filter_lengths [OF wf], simplified, folded numeral_3_eq_3]
  note wfs = wf [unfolded wf_filter_def]
  have fld: "stands_at pkt s (word_bits (Suc 0) b) \<Longrightarrow> get_field pkt s s = Inr b" for s and b :: "1 word"
    by (rule get_field_stands_at) simp_all
  have fld2: "stands_at pkt s (word_bits 2 b) \<Longrightarrow> e = Suc s \<Longrightarrow> get_field pkt s e = Inr b" for s e and b :: "2 word"
    by (rule get_field_stands_at) simp_all
  have "get_field pkt 0 0 = Inr (srcMACBW f)" "get_field pkt 99 99 = Inr (dstMACBW f)"
    "get_field pkt 198 198 = Inr (srcIPBW f)" "get_field pkt 265 265 = Inr (dstIPBW f)"
    "get_field pkt 332 332 = Inr (srcPortBW f)" "get_field pkt 367 367 = Inr (dstPortBW f)"
    "get_field pkt 402 402 = Inr (dnsBW f)" "get_field pkt 677 677 = Inr (replyType f)"
    using parts by (blast intro: fld)+
  moreover have "get_field pkt (Suc 0) 2 = Inr (srcMACLength f)" "get_field pkt 100 101 = Inr (dstMACLength f)"
    "get_field pkt 199 200 = Inr (srcIPLength f)" "get_field pkt 266 267 = Inr (dstIPLength f)"
    "get_field pkt 333 334 = Inr (srcPortLength f)" "get_field pkt 368 369 = Inr (dstPortLength f)"
    "get_field pkt 403 404 = Inr (dnsLength f)"
    using parts by (auto intro!: fld2)
  moreover have "get_macs pkt 3 = Inr (srcMACList f)" "get_macs pkt 102 = Inr (dstMACList f)"
    "get_ips pkt 201 = Inr (srcIPList f)" "get_ips pkt 268 = Inr (dstIPList f)"
    "get_ports pkt 335 = Inr (srcPortList f)" "get_ports pkt 370 = Inr (dstPortList f)"
    "get_dns pkt 421 = Inr (dnsList f)"
    using parts wfs by (blast intro: get_stands_at)+
  moreover have "get_bytes pkt 405 2 = Inr (dnsItemEndPtr f)"
    using parts wf_filter_lengths [OF wf] by (blast intro: get_stands_at)
  ultimately show ?thesis using len
    by (simp add: parse_admin_bin_def get_ip_block_def filter_zero_def)
qed

section \<open>Encoding inverts decoding\<close>

lemma word_bits_word_of_bits:
  "length xs = n \<Longrightarrow> n \<le> LENGTH('a) \<Longrightarrow> word_bits n (word_of_bits xs :: 'a::len word) = xs"
  by (auto intro!: nth_equalityI simp: bit_word_of_bits)

definition seg :: "bool list \<Rightarrow> nat \<Rightarrow> nat \<Rightarrow> bool list" where
  "seg xs s n = take n (drop s xs)"

lemma length_seg: "s + n \<le> length xs \<Longrightarrow> length (seg xs s n) = n"
  by (simp add: seg_def)

lemma seg_merge: "t = s + m \<Longrightarrow> seg xs s m @ seg xs t n = seg xs s (m + n)"
  by (simp add: seg_def take_add ac_simps)

text \<open>Cutting the bytes of a segment into the two items of a list.\<close>

definition seg_items :: "(u8 list \<Rightarrow> 'a) \<Rightarrow> nat \<Rightarrow> bool list \<Rightarrow> 'a list" where
  "seg_items mk n xs = (let bs = pack_bits xs in [mk (take n bs), mk (drop n bs)])"

lemma seg_items_bits:
  assumes "\<And>bs. g (mk bs) = bs" "8 dvd length xs"
  shows "bytes_bits (concat (map g (seg_items mk n xs))) = xs"
  using assms by (simp add: seg_items_def Let_def bytes_bits_pack_bits flip: bytes_bits_append)

lemma seg_items_wf:
  assumes "\<And>bs. P (mk bs) \<longleftrightarrow> length bs = n" "length xs = 16 * n"
  shows "wf_array P (seg_items mk n xs)"
  using assms by (simp add: seg_items_def Let_def wf_array_def FILTER_DEPTH_def length_pack_bits)

definition seg_ports :: "bool list \<Rightarrow> nat \<Rightarrow> udp_port_t list" where
  "seg_ports xs s = [\<lparr>port = ntohs (word_of_bits (seg xs s 16))\<rparr>,
                     \<lparr>port = ntohs (word_of_bits (seg xs (s + 16) 16))\<rparr>]"

lemma seg_ports_bits:
  assumes "s + 32 \<le> length xs"
  shows "concat (map (\<lambda>q. word_bits 16 (htons (port q))) (seg_ports xs s)) = seg xs s 32"
  using assms by (simp add: seg_ports_def word_bits_word_of_bits length_seg seg_merge)

definition layout_filter :: "bool list \<Rightarrow> filter_t" where
  "layout_filter xs = \<lparr>
     srcMACBW = word_of_bits (seg xs 0 1), srcMACLength = word_of_bits (seg xs 1 2),
     srcMACList = seg_items (\<lambda>bs. \<lparr>byte = bs\<rparr>) 6 (seg xs 3 96),
     dstMACBW = word_of_bits (seg xs 99 1), dstMACLength = word_of_bits (seg xs 100 2),
     dstMACList = seg_items (\<lambda>bs. \<lparr>byte = bs\<rparr>) 6 (seg xs 102 96),
     srcIPBW = word_of_bits (seg xs 198 1), srcIPLength = word_of_bits (seg xs 199 2),
     srcIPList = seg_items (\<lambda>bs. \<lparr>num = bs\<rparr>) 4 (seg xs 201 64),
     dstIPBW = word_of_bits (seg xs 265 1), dstIPLength = word_of_bits (seg xs 266 2),
     dstIPList = seg_items (\<lambda>bs. \<lparr>num = bs\<rparr>) 4 (seg xs 268 64),
     srcPortBW = word_of_bits (seg xs 332 1), srcPortLength = word_of_bits (seg xs 333 2),
     srcPortList = seg_ports xs 335,
     dstPortBW = word_of_bits (seg xs 367 1), dstPortLength = word_of_bits (seg xs 368 2),
     dstPortList = seg_ports xs 370,
     dnsBW = word_of_bits (seg xs 402 1), dnsLength = word_of_bits (seg xs 403 2),
     dnsItemEndPtr = pack_bits (seg xs 405 16),
     dnsList = seg_items (\<lambda>bs. \<lparr>dns_c = bs\<rparr>) 16 (seg xs 421 256),
     replyType = word_of_bits (seg xs 677 1)\<rparr>"

lemma wf_layout_filter: "length xs = 678 \<Longrightarrow> wf_filter (layout_filter xs)"
  by (simp add: layout_filter_def wf_filter_def seg_items_wf wf_mac_def wf_ip_def wf_dns_item_def
      length_seg length_pack_bits FILTER_DEPTH_def seg_ports_def)

lemma admin_layout_layout_filter:
  assumes "length xs = 678" shows "admin_layout (layout_filter xs) = xs"
proof -
  have "admin_layout (layout_filter xs) =
      seg xs 0 1 @ seg xs 1 2 @ seg xs 3 96 @ seg xs 99 1 @ seg xs 100 2 @ seg xs 102 96 @
      seg xs 198 1 @ seg xs 199 2 @ seg xs 201 64 @ seg xs 265 1 @ seg xs 266 2 @ seg xs 268 64 @
      seg xs 332 1 @ seg xs 333 2 @ seg xs 335 32 @ seg xs 367 1 @ seg xs 368 2 @ seg xs 370 32 @
      seg xs 402 1 @ seg xs 403 2 @ seg xs 405 16 @ seg xs 421 256 @ seg xs 677 1"
    unfolding admin_layout_def layout_filter_def filter_t.simps
    using assms
    by (simp add: word_bits_word_of_bits length_seg seg_items_bits [where g = byte]
        seg_items_bits [where g = num] seg_items_bits [where g = dns_c] seg_ports_bits
        bytes_bits_pack_bits)
  also have "\<dots> = seg xs 0 678" by (simp add: seg_merge)
  finally show ?thesis using assms by (simp add: seg_def)
qed

lemma parse_admin_bin_total:
  assumes "85 \<le> length payload" "85 \<le> n"
  shows "\<exists>f. parse_admin_bin fc payload n = Inr f \<and> wf_filter f \<and>
    admin_layout f = take 678 (bytes_bits payload)"
proof -
  let ?xs = "take 678 (bytes_bits payload)"
  have xs: "length ?xs = 678" using assms(1) by simp
  have "stands_at payload 0 (admin_layout (layout_filter ?xs))"
    using assms(1) xs by (simp add: admin_layout_layout_filter stands_at_def)
  then have "parse_admin_bin fc payload n = Inr (layout_filter ?xs)"
    using wf_layout_filter [OF xs] assms(2) by (intro parse_admin_bin_layout)
  then show ?thesis using wf_layout_filter [OF xs] admin_layout_layout_filter [OF xs] by blast
qed

lemma stands_at_admin_packet:
  assumes "wf_filter f"
  shows "stands_at (admin_packet f) 0 (admin_layout f)" "length (admin_packet f) = 128"
proof -
  show len: "length (admin_packet f) = 128"
    using bytes_bits_admin_body(2) [OF assms] auth_digest_siphash(2) [of "admin_body f"]
    by (simp add: admin_packet_def)
  show "stands_at (admin_packet f) 0 (admin_layout f)"
    using bytes_bits_admin_body [OF assms] length_admin_layout [OF assms] len
    by (simp add: stands_at_def admin_packet_def)
qed

section \<open>Probe replies\<close>

definition stats_bits :: "stats_t \<Rightarrow> bool list" where
  "stats_bits s = word_bits 64 (stc s) @ word_bits 64 (sfc s) @ word_bits 64 (smc s) @
     word_bits 64 (sic s) @ word_bits 64 (spc s)"

lemma parse_stats_stands_at:
  assumes "stands_at payload 678 (stats_bits s)"
  shows "parse_stats payload = Inr s"
proof -
  have "get_field payload a (a + 63) = Inr w" if "stands_at payload a (word_bits 64 w)" for a and w :: u64
    using that by (intro get_field_stands_at) simp_all
  with assms have "get_field payload 678 741 = Inr (stc s)" "get_field payload 742 805 = Inr (sfc s)"
    "get_field payload 806 869 = Inr (smc s)" "get_field payload 870 933 = Inr (sic s)"
    "get_field payload 934 997 = Inr (spc s)"
    by (force simp: stats_bits_def stands_at_append)+
  then show ?thesis by (simp add: parse_stats_def)
qed

end
