(* ===== verification/Net_Ops.thy ===== *)
theory Net_Ops
  imports Fpga
begin

text \<open>
  Random addresses, \<^verbatim>\<open>sw/admin-cli/net-ops.hh\<close>. The results of the successive calls of \<open>rand()\<close> are a
  list that the functions consume; \<open>Unfinished\<close> is the outcome that the list was too short, so that a
  loop that draws again until a condition holds is bounded by what it is given.
\<close>

section \<open>The functions of the source\<close>

definition rand_byte :: "nat \<Rightarrow> u8" where
  "rand_byte r = word_of_nat (r mod 256)"

fun random_mac :: "nat list \<Rightarrow> (mac_addr_t \<times> nat list) cres" where
  "random_mac rs =
     (if length rs < 6 then Inl Unfinished
      else let mac = \<lparr>byte = map rand_byte (take 6 rs)\<rparr>; rs = drop 6 rs
           in if mac = admin_dst_mac \<or> mac = probe_dst_mac then random_mac rs else Inr (mac, rs))"

declare random_mac.simps [simp del]

definition random_ip :: "nat list \<Rightarrow> (ip_addr_t \<times> nat list) cres" where
  "random_ip rs =
     (if length rs < 4 then Inl Unfinished else Inr (\<lparr>num = map rand_byte (take 4 rs)\<rparr>, drop 4 rs))"

definition random_local_ip :: "nat list \<Rightarrow> (ip_addr_t \<times> nat list) cres" where
  "random_local_ip rs =
     (if length rs < 3 then Inl Unfinished else Inr (\<lparr>num = 10 # map rand_byte (take 3 rs)\<rparr>, drop 3 rs))"

definition random_unused_port :: "nat list \<Rightarrow> (udp_port_t \<times> nat list) cres" where
  "random_unused_port rs =
     (case rs of [] \<Rightarrow> Inl Unfinished | r # rs \<Rightarrow> Inr (\<lparr>port = word_of_nat (r mod 55536 + 10000)\<rparr>, rs))"

section \<open>What they return\<close>

text \<open>The address in the \<open>k\<close>th group of six random numbers.\<close>

definition mac_group :: "nat list \<Rightarrow> nat \<Rightarrow> mac_addr_t" where
  "mac_group rs k = \<lparr>byte = map rand_byte (take 6 (drop (6 * k) rs))\<rparr>"

lemma mac_group_drop: "mac_group (drop 6 rs) k = mac_group rs (Suc k)"
  by (simp add: mac_group_def add.commute)

lemma random_mac_unfold:
  "random_mac rs = (if length rs < 6 then Inl Unfinished
     else if mac_group rs 0 \<in> {admin_dst_mac, probe_dst_mac} then random_mac (drop 6 rs) else Inr (mac_group rs 0, drop 6 rs))"
  by (subst random_mac.simps) (simp add: Let_def mac_group_def)

text \<open>The draw returns the first group that is neither of the two destination addresses.\<close>

lemma random_mac_first:
  "random_mac rs = Inr (m, rs') \<longleftrightarrow>
     (\<exists>k. 6 * k + 6 \<le> length rs \<and> m = mac_group rs k \<and> rs' = drop (6 * k + 6) rs \<and>
        m \<notin> {admin_dst_mac, probe_dst_mac} \<and> (\<forall>i<k. mac_group rs i \<in> {admin_dst_mac, probe_dst_mac}))"
    (is "_ \<longleftrightarrow> (\<exists>k. ?first rs k)")
proof (induction rs rule: random_mac.induct)
  case (1 rs)
  have split: "(\<exists>k. P k) \<longleftrightarrow> P 0 \<or> (\<exists>k. P (Suc k))" for P :: "nat \<Rightarrow> bool" by (metis not0_implies_Suc)
  have shift: "?first rs (Suc k) \<longleftrightarrow> 6 \<le> length rs \<and> mac_group rs 0 \<in> {admin_dst_mac, probe_dst_mac} \<and> ?first (drop 6 rs) k" for k
    unfolding mac_group_drop All_less_Suc2 by (auto simp: add.commute)
  show ?case
  proof (cases "length rs < 6")
    case False
    with "1.IH" show ?thesis
      by (subst random_mac_unfold, subst split, unfold shift) (auto simp: mac_group_def)
  qed (simp add: random_mac_unfold)
qed

lemma rand_byte_unat: "rand_byte (unat b) = b"
  using unsigned_less [of b, where ?'a = nat] by (simp add: rand_byte_def)

text \<open>Every other address can be drawn.\<close>

lemma random_mac_draws:
  assumes "wf_mac m" "m \<notin> {admin_dst_mac, probe_dst_mac}"
  shows "random_mac (map unat (byte m) @ rs) = Inr (m, rs)"
  using assms by (subst random_mac_unfold) (cases m; simp add: mac_group_def wf_mac_def rand_byte_unat comp_def)

lemma random_unused_port_draws:
  assumes "10000 \<le> unat (port q)"
  shows "random_unused_port ((unat (port q) - 10000) # rs) = Inr (q, rs)"
proof -
  have "unat (port q) < 65536" using unsigned_less [of "port q", where ?'a = nat] by simp
  then have "(unat (port q) - 10000) mod 55536 + 10000 = unat (port q)" using assms by simp
  then have "word_of_nat ((unat (port q) - 10000) mod 55536 + 10000) = port q" by (simp only: of_nat_unat ucast_id)
  then show ?thesis by (cases q) (simp only: random_unused_port_def list.case, simp del: of_nat_add)
qed

lemma random_local_ip_ok:
  "random_local_ip rs = Inr (a, rs') \<Longrightarrow> wf_ip a \<and> num a ! 0 = 10"
  by (auto simp: random_local_ip_def wf_ip_def split: if_splits)

lemma random_ip_ok: "random_ip rs = Inr (a, rs') \<Longrightarrow> wf_ip a"
  by (auto simp: random_ip_def wf_ip_def split: if_splits)

lemma random_unused_port_ok:
  assumes "random_unused_port rs = Inr (p, rs')"
  shows "10000 \<le> unat (port p) \<and> unat (port p) < 65536"
proof -
  obtain r where p: "p = \<lparr>port = word_of_nat (r mod 55536 + 10000)\<rparr>"
    using assms by (cases rs) (auto simp: random_unused_port_def)
  have "r mod 55536 < 55536" by simp
  then have "r mod 55536 + 10000 < 2 ^ 16" by simp
  then have "unat (word_of_nat (r mod 55536 + 10000) :: u16) = r mod 55536 + 10000"
    by (simp add: unsigned_of_nat take_bit_nat_eq_self_iff del: of_nat_add)
  then show ?thesis using \<open>r mod 55536 < 55536\<close> by (simp add: p del: of_nat_add)
qed

end
