(* ===== verification/Receiver.thy ===== *)
theory Receiver
  imports Fpga
begin

text \<open>
  Receiving packets, \<^verbatim>\<open>sw/admin-cli/receiver.hh\<close>: the daemon thread that copies probe replies aside,
  the polling loop that waits for one, and the check for an expected packet. What the socket
  delivers is a schedule: for each sleep of the waiting thread, the results of the \<open>recvfrom\<close>
  calls of the daemon during it, \<open>None\<close> for a failed one. The daemon's handling of one packet is
  one step.
\<close>

section \<open>The daemon\<close>

record receiver =
  recv_pkt_buf :: "u8 list"
  recv_pkt_length :: int
  probe_pkt_buf :: "u8 list"
  probe_pkt_length :: int
  probe_reply_received :: bool

definition receiver_init :: receiver where
  "receiver_init = \<lparr>recv_pkt_buf = replicate BUFFER_SIZE 0, recv_pkt_length = 0,
     probe_pkt_buf = replicate BUFFER_SIZE 0, probe_pkt_length = 0, probe_reply_received = False\<rparr>"

text \<open>\<open>recvfrom\<close> stores at most \<open>BUFFER_SIZE\<close> bytes and leaves the rest of the buffer.\<close>

definition overlay :: "u8 list \<Rightarrow> u8 list \<Rightarrow> u8 list" where
  "overlay bs buf = bs @ drop (length bs) buf"

definition trigger_recv :: "receiver \<Rightarrow> u8 list option \<Rightarrow> receiver \<times> int" where
  "trigger_recv r ev =
     (case ev of
        None \<Rightarrow> (r\<lparr>recv_pkt_length := - 1\<rparr>, - 1)
      | Some pkt \<Rightarrow>
          let bs = take BUFFER_SIZE pkt
          in (r\<lparr>recv_pkt_buf := overlay bs (recv_pkt_buf r), recv_pkt_length := int (length bs)\<rparr>, 0))"

text \<open>One round of \<open>probe_receiver_daemon\<close>.\<close>

definition probe_receiver_step :: "receiver \<Rightarrow> u8 list option \<Rightarrow> receiver" where
  "probe_receiver_step r ev =
     (let (r, ret) = trigger_recv r ev in
      if ret = 0 \<and> take 6 (drop 6 (recv_pkt_buf r)) = byte probe_dst_mac
      then r\<lparr>probe_pkt_buf := overlay (take (nat (recv_pkt_length r)) (recv_pkt_buf r)) (probe_pkt_buf r),
             probe_pkt_length := recv_pkt_length r, probe_reply_received := True\<rparr>
      else r)"

type_synonym schedule = "nat \<Rightarrow> u8 list option list"

definition daemon_rounds :: "receiver \<Rightarrow> u8 list option list \<Rightarrow> receiver" where
  "daemon_rounds r evs = foldl probe_receiver_step r evs"

section \<open>Waiting\<close>

text \<open>
  \<open>while (!probe_reply_received && t <= us_timeout) { usleep(10); t += 10; }\<close> with 64-bit \<open>t\<close>: the
  loop does not end for a timeout that \<open>t\<close> cannot exceed. The result carries the position in the
  schedule.
\<close>

partial_function (option) probe_wait ::
  "schedule \<Rightarrow> u64 \<Rightarrow> nat \<Rightarrow> u64 \<Rightarrow> receiver \<Rightarrow> (receiver \<times> nat) option" where
  "probe_wait env us_timeout k t r =
     (if \<not> probe_reply_received r \<and> t \<le> us_timeout
      then probe_wait env us_timeout (Suc k) (t + 10) (daemon_rounds r (env k))
      else Some (r, k))"

definition probe_reply_recv :: "schedule \<Rightarrow> u64 \<Rightarrow> nat \<Rightarrow> receiver \<Rightarrow> (receiver \<times> nat) option" where
  "probe_reply_recv env us_timeout k r = probe_wait env us_timeout k 0 r"

text \<open>
  The condition of \<open>expect_receive\<close> on the packet buffer: source address, UDP length (the 32-bit
  difference \<open>htons(len) - 8U\<close>) and payload.
\<close>

definition packet_matches :: "u8 list \<Rightarrow> nat \<Rightarrow> u8 list \<Rightarrow> bool" where
  "packet_matches payload n buf \<longleftrightarrow>
     take 6 (drop 6 buf) = byte fpga_src_mac \<and>
     unat (ucast (htons (le_word (take 2 (drop 38 buf)))) - (8 :: u32)) = n \<and>
     take n payload = take n (drop 42 buf)"

fun expect_receive :: "schedule \<Rightarrow> nat \<Rightarrow> receiver \<Rightarrow> u8 list \<Rightarrow> nat \<Rightarrow> nat \<Rightarrow> bool \<times> receiver \<times> nat" where
  "expect_receive env k r payload n 0 = (False, r, k)"
| "expect_receive env k r payload n (Suc c) =
     (if packet_matches payload n (recv_pkt_buf r) then (True, r, k)
      else expect_receive env (Suc k) (daemon_rounds r (env k)) payload n c)"

definition expect_block :: "schedule \<Rightarrow> nat \<Rightarrow> receiver \<Rightarrow> u8 list \<Rightarrow> nat \<Rightarrow> nat \<Rightarrow> bool \<times> receiver \<times> nat" where
  "expect_block env k r payload n timeout =
     (case expect_receive env k r payload n timeout of (b, r, k) \<Rightarrow> (\<not> b, r, k))"

section \<open>What the daemon keeps\<close>

definition wf_receiver :: "receiver \<Rightarrow> bool" where
  "wf_receiver r \<longleftrightarrow> length (recv_pkt_buf r) = BUFFER_SIZE \<and> length (probe_pkt_buf r) = BUFFER_SIZE"

text \<open>A captured reply: the probe buffer starts with the packet, and its length is recorded.\<close>

definition captured :: "receiver \<Rightarrow> u8 list \<Rightarrow> bool" where
  "captured r pkt \<longleftrightarrow> probe_pkt_length r = int (length pkt) \<and> take (length pkt) (probe_pkt_buf r) = pkt"

definition from_board :: "u8 list \<Rightarrow> bool" where
  "from_board pkt \<longleftrightarrow> take 6 (drop 6 pkt) = byte probe_dst_mac"

text \<open>A frame as the network delivers it: at least an Ethernet header, and it fits the buffer.\<close>

definition is_frame :: "u8 list \<Rightarrow> bool" where
  "is_frame pkt \<longleftrightarrow> 14 \<le> length pkt \<and> length pkt \<le> BUFFER_SIZE"

lemma length_overlay: "length bs \<le> length buf \<Longrightarrow> length (overlay bs buf) = length buf"
  by (simp add: overlay_def)

lemma step_wf: "wf_receiver r \<Longrightarrow> wf_receiver (probe_receiver_step r ev)"
  by (auto simp: wf_receiver_def probe_receiver_step_def trigger_recv_def Let_def length_overlay
      split: option.splits)

lemma step_frame:
  assumes "wf_receiver r" "is_frame pkt"
  shows "probe_reply_received (probe_receiver_step r (Some pkt)) \<longleftrightarrow> probe_reply_received r \<or> from_board pkt"
    "from_board pkt \<Longrightarrow> captured (probe_receiver_step r (Some pkt)) pkt"
    "\<not> from_board pkt \<Longrightarrow> probe_pkt_buf (probe_receiver_step r (Some pkt)) = probe_pkt_buf r \<and>
       probe_pkt_length (probe_receiver_step r (Some pkt)) = probe_pkt_length r"
proof -
  have "take 6 (drop 6 (overlay pkt (recv_pkt_buf r))) = take 6 (drop 6 pkt)"
    using assms(2) by (simp add: overlay_def is_frame_def)
  then show "probe_reply_received (probe_receiver_step r (Some pkt)) \<longleftrightarrow> probe_reply_received r \<or> from_board pkt"
    "from_board pkt \<Longrightarrow> captured (probe_receiver_step r (Some pkt)) pkt"
    "\<not> from_board pkt \<Longrightarrow> probe_pkt_buf (probe_receiver_step r (Some pkt)) = probe_pkt_buf r \<and>
       probe_pkt_length (probe_receiver_step r (Some pkt)) = probe_pkt_length r"
    using assms by (auto simp: probe_receiver_step_def trigger_recv_def Let_def from_board_def is_frame_def
        captured_def overlay_def wf_receiver_def)
qed

lemma step_error: "probe_reply_received (probe_receiver_step r None) = probe_reply_received r"
  "captured (probe_receiver_step r None) = captured r"
  by (auto simp: probe_receiver_step_def trigger_recv_def captured_def)

definition frames :: "u8 list option list \<Rightarrow> u8 list list" where
  "frames evs = map the (filter (\<lambda>e. e \<noteq> None) evs)"

lemma frames_simps [simp]: "frames [] = []" "frames (None # evs) = frames evs" "frames (Some p # evs) = p # frames evs"
  by (simp_all add: frames_def)

lemma step_event:
  assumes "wf_receiver r" "list_all is_frame (frames [ev])"
    and "probe_reply_received r \<longrightarrow> (\<exists>pkt. P pkt \<and> captured r pkt)"
  defines "r' \<equiv> probe_receiver_step r ev"
  shows "probe_reply_received r' \<longleftrightarrow> probe_reply_received r \<or> list_ex from_board (frames [ev])"
    "probe_reply_received r' \<longrightarrow> (\<exists>pkt. (P pkt \<or> pkt \<in> set (frames [ev]) \<and> from_board pkt) \<and> captured r' pkt)"
proof (atomize (full), cases ev)
  case None
  then show "(probe_reply_received r' \<longleftrightarrow> probe_reply_received r \<or> list_ex from_board (frames [ev])) \<and>
    (probe_reply_received r' \<longrightarrow> (\<exists>pkt. (P pkt \<or> pkt \<in> set (frames [ev]) \<and> from_board pkt) \<and> captured r' pkt))"
    using assms(3) step_error by (simp add: r'_def)
next
  case (Some pkt)
  with assms(2) have f: "is_frame pkt" by simp
  note s = step_frame [OF assms(1) f]
  show "(probe_reply_received r' \<longleftrightarrow> probe_reply_received r \<or> list_ex from_board (frames [ev])) \<and>
    (probe_reply_received r' \<longrightarrow> (\<exists>pkt. (P pkt \<or> pkt \<in> set (frames [ev]) \<and> from_board pkt) \<and> captured r' pkt))"
  proof (cases "from_board pkt")
    case True
    with s Some show ?thesis by (auto simp: r'_def)
  next
    case False
    then have "captured r' = captured r" using s(3) Some by (simp add: r'_def captured_def fun_eq_iff)
    with False s(1) Some assms(3) show ?thesis by (auto simp: r'_def)
  qed
qed

lemma rounds_wf: "wf_receiver r \<Longrightarrow> wf_receiver (daemon_rounds r evs)"
  by (induction evs arbitrary: r) (simp_all add: daemon_rounds_def step_wf)

lemma rounds_ok:
  assumes "wf_receiver r" "list_all is_frame (frames evs)"
    and "probe_reply_received r \<longrightarrow> (\<exists>pkt. P pkt \<and> captured r pkt)"
  shows "probe_reply_received (daemon_rounds r evs) \<longleftrightarrow> probe_reply_received r \<or> list_ex from_board (frames evs)"
    "probe_reply_received (daemon_rounds r evs) \<longrightarrow>
       (\<exists>pkt. (P pkt \<or> pkt \<in> set (frames evs) \<and> from_board pkt) \<and> captured (daemon_rounds r evs) pkt)"
  using assms
proof (induction evs arbitrary: r P)
  case Nil
  { case 1 then show ?case by (simp add: daemon_rounds_def) }
  { case 2 then show ?case by (simp add: daemon_rounds_def) }
next
  case (Cons ev evs)
  have unf: "daemon_rounds r (ev # evs) = daemon_rounds (probe_receiver_step r ev) evs" for r
    by (simp add: daemon_rounds_def)
  have fr: "frames (ev # evs) = frames [ev] @ frames evs" by (cases ev) simp_all
  { case 1
    then have ev: "list_all is_frame (frames [ev])" "list_all is_frame (frames evs)" by (simp_all add: fr)
    note step = step_event [OF "1"(1) ev(1) "1"(3)]
    show ?case using Cons.IH(1) [OF step_wf [OF "1"(1)] ev(2) step(2)] step(1) by (simp add: unf fr del: frames_simps) }
  { case 2
    then have ev: "list_all is_frame (frames [ev])" "list_all is_frame (frames evs)" by (simp_all add: fr)
    note step = step_event [OF "2"(1) ev(1) "2"(3)]
    show ?case using Cons.IH(2) [OF step_wf [OF "2"(1)] ev(2) step(2)]
      unfolding unf fr set_append by blast }
qed

section \<open>The waiting loop\<close>

text \<open>
  For a timeout that the counter can pass, the loop ends within \<open>timeout / 10 + 1\<close> rounds. The flag is
  then set exactly if a frame of the board arrived during them, and the probe buffer holds one.
\<close>

lemma probe_wait_ok:
  assumes "unat us_timeout + 10 < 2 ^ 64" "\<forall>j. list_all is_frame (frames (env j))" "wf_receiver r"
    and "probe_reply_received r \<longrightarrow> (\<exists>pkt. P pkt \<and> captured r pkt)"
  shows "\<exists>r' k'. probe_wait env us_timeout k t r = Some (r', k') \<and> k \<le> k' \<and>
    (k' = k \<or> unat t + 10 * (k' - k) \<le> unat us_timeout + 10) \<and> wf_receiver r' \<and>
    (probe_reply_received r' \<longleftrightarrow> probe_reply_received r \<or> (\<exists>j \<in> {k..<k'}. list_ex from_board (frames (env j)))) \<and>
    (probe_reply_received r' \<longrightarrow>
      (\<exists>pkt. (P pkt \<or> (\<exists>j \<in> {k..<k'}. pkt \<in> set (frames (env j)) \<and> from_board pkt)) \<and> captured r' pkt)) \<and>
    (\<not> probe_reply_received r' \<longrightarrow> unat us_timeout < unat t + 10 * (k' - k))"
  using assms(3,4)
proof (induction "unat us_timeout + 1 - unat t" arbitrary: k t r P rule: less_induct)
  case less
  show ?case
  proof (cases "\<not> probe_reply_received r \<and> t \<le> us_timeout")
    case False
    then show ?thesis using less.prems
      by (subst probe_wait.simps) (auto simp: word_le_nat_alt)
  next
    case True
    let ?r = "daemon_rounds r (env k)"
    let ?Q = "\<lambda>pkt. P pkt \<or> pkt \<in> set (frames (env k)) \<and> from_board pkt"
    have t: "unat t \<le> unat us_timeout" using True by (simp add: word_le_nat_alt)
    then have t10: "unat (t + 10) = unat t + 10" using assms(1) by (simp add: unat_word_ariths)
    have fr: "list_all is_frame (frames (env k))" using assms(2) by blast
    have dec: "unat us_timeout + 1 - unat (t + 10) < unat us_timeout + 1 - unat t" using t t10 by simp
    note rounds = rounds_ok [OF less.prems(1) fr less.prems(2)]
    obtain r' k' where w: "probe_wait env us_timeout (Suc k) (t + 10) ?r = Some (r', k')" "Suc k \<le> k'"
      "k' = Suc k \<or> unat (t + 10) + 10 * (k' - Suc k) \<le> unat us_timeout + 10" "wf_receiver r'"
      "probe_reply_received r' \<longleftrightarrow> probe_reply_received ?r \<or> (\<exists>j \<in> {Suc k..<k'}. list_ex from_board (frames (env j)))"
      "probe_reply_received r' \<longrightarrow>
        (\<exists>pkt. (?Q pkt \<or> (\<exists>j \<in> {Suc k..<k'}. pkt \<in> set (frames (env j)) \<and> from_board pkt)) \<and> captured r' pkt)"
      "\<not> probe_reply_received r' \<longrightarrow> unat us_timeout < unat (t + 10) + 10 * (k' - Suc k)"
      using less.hyps [OF dec rounds_wf [OF less.prems(1)] rounds(2), of "Suc k"] by (elim exE conjE) (rule that)
    have split: "(\<exists>j \<in> {k..<k'}. R j) \<longleftrightarrow> R k \<or> (\<exists>j \<in> {Suc k..<k'}. R j)" for R
      using w(2) by (auto simp: atLeastLessThanSuc_atLeastAtMost) (metis Suc_leI atLeastLessThan_iff le_neq_implies_less)
    have 1: "probe_wait env us_timeout k t r = Some (r', k')" using True w(1) by (subst probe_wait.simps) simp
    have 2: "k \<le> k'" using w(2) by simp
    have 3: "k' = k \<or> unat t + 10 * (k' - k) \<le> unat us_timeout + 10" using w(2,3) t t10 by auto
    have 4: "probe_reply_received r' \<longleftrightarrow> probe_reply_received r \<or> (\<exists>j \<in> {k..<k'}. list_ex from_board (frames (env j)))"
      unfolding split w(5) rounds(1) by blast
    have 5: "probe_reply_received r' \<longrightarrow>
      (\<exists>pkt. (P pkt \<or> (\<exists>j \<in> {k..<k'}. pkt \<in> set (frames (env j)) \<and> from_board pkt)) \<and> captured r' pkt)"
      using w(6) unfolding split by blast
    have 6: "\<not> probe_reply_received r' \<longrightarrow> unat us_timeout < unat t + 10 * (k' - k)" using w(2,7) t10 by auto
    show ?thesis by (intro exI conjI) (fact 1 2 3 w(4) 4 5 6)+
  qed
qed

end
