(* ===== verification/C_String.thy ===== *)
theory C_String
  imports Adtm_Prelude
begin

text \<open>
  C strings, and the string helpers of \<^verbatim>\<open>sw/admin-cli/string-ops.hh\<close>. A \<open>char*\<close> is the list of the
  characters from the pointer to the end of the object it points into, or, where the code writes
  through it, the whole object and an offset. Reading behind the object is the fault
  \<open>OutOfBounds\<close>. \<open>cstr_of\<close> is the text such a pointer denotes.
\<close>

section \<open>The C library's string functions\<close>

abbreviation NUL :: char where "NUL \<equiv> CHR 0x00"

definition isspace :: "char \<Rightarrow> bool" where
  "isspace c \<longleftrightarrow> c \<in> set [CHR '' '', CHR 0x09, CHR 0x0A, CHR 0x0B, CHR 0x0C, CHR 0x0D]"

fun strlen :: "string \<Rightarrow> nat cres" where
  "strlen [] = Inl OutOfBounds"
| "strlen (c # cs) = (if c = NUL then Inr 0 else cbind (strlen cs) (\<lambda>n. Inr (Suc n)))"

fun strnlen :: "string \<Rightarrow> nat \<Rightarrow> nat cres" where
  "strnlen s 0 = Inr 0"
| "strnlen [] (Suc n) = Inl OutOfBounds"
| "strnlen (c # cs) (Suc n) = (if c = NUL then Inr 0 else cbind (strnlen cs n) (\<lambda>k. Inr (Suc k)))"

text \<open>\<open>strcmp(a, b) == 0\<close> and \<open>strncmp(a, b, n) == 0\<close>.\<close>

fun strcmp_eq :: "string \<Rightarrow> string \<Rightarrow> bool cres" where
  "strcmp_eq (x # xs) (y # ys) =
     (if x \<noteq> y then Inr False else if x = NUL then Inr True else strcmp_eq xs ys)"
| "strcmp_eq _ _ = Inl OutOfBounds"

fun strncmp_eq :: "string \<Rightarrow> string \<Rightarrow> nat \<Rightarrow> bool cres" where
  "strncmp_eq _ _ 0 = Inr True"
| "strncmp_eq (x # xs) (y # ys) (Suc n) =
     (if x \<noteq> y then Inr False else if x = NUL then Inr True else strncmp_eq xs ys n)"
| "strncmp_eq _ _ (Suc n) = Inl OutOfBounds"

text \<open>\<open>strncpy(dst, src, n)\<close>: always \<open>n\<close> characters are stored, zeros after the end of the text.\<close>

fun strncpy_chars :: "string \<Rightarrow> nat \<Rightarrow> string cres" where
  "strncpy_chars s 0 = Inr []"
| "strncpy_chars [] (Suc n) = Inl OutOfBounds"
| "strncpy_chars (c # cs) (Suc n) =
     (if c = NUL then Inr (replicate (Suc n) NUL) else cbind (strncpy_chars cs n) (\<lambda>r. Inr (c # r)))"

definition strncpy :: "string \<Rightarrow> string \<Rightarrow> nat \<Rightarrow> string cres" where
  "strncpy dst src n = cbind (strncpy_chars src n) (\<lambda>cs. cblit dst 0 cs)"

text \<open>The object of a string literal, and the text at a pointer.\<close>

definition cstr :: "string \<Rightarrow> string" where "cstr s = s @ [NUL]"

definition cstr_of :: "string \<Rightarrow> string" where "cstr_of buf = takeWhile (\<lambda>c. c \<noteq> NUL) buf"

definition terminated :: "string \<Rightarrow> bool" where "terminated buf \<longleftrightarrow> NUL \<in> set buf"

text \<open>Console output, and the text \<open>%s\<close> prints.\<close>

datatype console = Stdout string | Stderr string

abbreviation NL :: char where "NL \<equiv> CHR 0x0A"
abbreviation TAB :: char where "TAB \<equiv> CHR 0x09"

definition percent_s :: "string \<Rightarrow> string cres" where
  "percent_s s = cbind (strlen s) (\<lambda>n. Inr (take n s))"

section \<open>The helpers of the client\<close>

text \<open>\<open>for (s = string; isspace(*s); s++)\<close>: the number of characters skipped.\<close>

fun skip_space :: "string \<Rightarrow> nat cres" where
  "skip_space [] = Inl OutOfBounds"
| "skip_space (c # cs) = (if isspace c then cbind (skip_space cs) (\<lambda>n. Inr (Suc n)) else Inr 0)"

text \<open>\<open>while (s[i] && !isspace(s[i])) i++\<close>.\<close>

fun scan_word :: "string \<Rightarrow> nat cres" where
  "scan_word [] = Inl OutOfBounds"
| "scan_word (c # cs) =
     (if c \<noteq> NUL \<and> \<not> isspace c then cbind (scan_word cs) (\<lambda>n. Inr (Suc n)) else Inr 0)"

text \<open>\<open>while (t > s && isspace (*t)) t--\<close>.\<close>

fun strip_back :: "string \<Rightarrow> nat \<Rightarrow> nat \<Rightarrow> nat" where
  "strip_back buf s 0 = 0"
| "strip_back buf s (Suc t) = (if Suc t > s \<and> isspace (buf ! Suc t) then strip_back buf s t else Suc t)"

text \<open>The result is the object afterwards and the offset of the returned pointer.\<close>

definition stripwhite :: "string \<Rightarrow> (string \<times> nat) cres" where
  "stripwhite buf =
     cbind (skip_space buf) (\<lambda>s.
     cbind (cread buf s) (\<lambda>c.
     if c = NUL then Inr (buf, s)
     else cbind (strlen (drop s buf)) (\<lambda>n.
       let t = strip_back buf s (s + n - 1)
       in cbind (cwrite buf (Suc t) NUL) (\<lambda>buf. Inr (buf, s)))))"

definition dupstr :: "string \<Rightarrow> string cres" where
  "dupstr s = cbind (strlen s) (\<lambda>n. Inr (take (n + 1) s))"

text \<open>
  \<open>splitstr\<close> on the string at offset \<open>p\<close>: the object afterwards and the offset of the second
  part, \<open>None\<close> for the null pointer.
\<close>

definition splitstr :: "string \<Rightarrow> nat \<Rightarrow> (string \<times> nat option) cres" where
  "splitstr buf p =
     cbind (scan_word (drop p buf)) (\<lambda>i.
     cbind (cread buf (p + i)) (\<lambda>c.
     if isspace c then cbind (cwrite buf (p + i) NUL) (\<lambda>buf. Inr (buf, Some (p + i + 1)))
     else Inr (buf, None)))"

section \<open>Strings and their text\<close>

lemma isspace_NUL [simp]: "\<not> isspace NUL"
  by (simp add: isspace_def)

lemma terminated_simps [simp]:
  "\<not> terminated []" "terminated (c # cs) \<longleftrightarrow> c = NUL \<or> terminated cs" "terminated (cstr s)"
  "terminated (xs @ ys) \<longleftrightarrow> terminated xs \<or> terminated ys"
  by (auto simp: terminated_def cstr_def)

lemma cstr_of_simps [simp]:
  "cstr_of [] = []" "cstr_of (c # cs) = (if c = NUL then [] else c # cstr_of cs)"
  by (auto simp: cstr_of_def)

lemma cstr_of_cstr: "NUL \<notin> set s \<Longrightarrow> cstr_of (cstr s) = s"
  by (induction s) (auto simp: cstr_def)

lemma cstr_of_prefix: "NUL \<notin> set s \<Longrightarrow> cstr_of (s @ NUL # rest) = s"
  by (induction s) auto

lemma NUL_cstr_of: "NUL \<notin> set (cstr_of buf)"
  by (auto simp: cstr_of_def dest: set_takeWhileD)

lemma terminated_split:
  assumes "terminated buf"
  obtains rest where "buf = cstr_of buf @ NUL # rest"
proof -
  from assms obtain xs rest where "buf = xs @ NUL # rest" "NUL \<notin> set xs"
    by (auto simp: terminated_def dest: split_list_first)
  moreover from this have "cstr_of buf = xs" by (simp add: cstr_of_prefix)
  ultimately show thesis using that [of rest] by simp
qed

lemma strlen_ok: "terminated buf \<Longrightarrow> strlen buf = Inr (length (cstr_of buf))"
  by (induction buf) auto

lemma percent_s_ok: "terminated buf \<Longrightarrow> percent_s buf = Inr (cstr_of buf)"
  by (simp add: percent_s_def strlen_ok cstr_of_def takeWhile_eq_take [symmetric])

lemma strnlen_ok: "terminated buf \<Longrightarrow> strnlen buf n = Inr (min n (length (cstr_of buf)))"
proof (induction buf arbitrary: n)
  case (Cons c cs)
  then show ?case by (cases n) auto
qed simp

lemma strncpy_chars_ok:
  "terminated s \<Longrightarrow> strncpy_chars s n = Inr (take n (cstr_of s) @ replicate (n - length (cstr_of s)) NUL)"
  by (induction s n rule: strncpy_chars.induct) auto

lemma strcmp_eq_ok:
  "terminated a \<Longrightarrow> terminated b \<Longrightarrow> strcmp_eq a b = Inr (cstr_of a = cstr_of b)"
  by (induction a b rule: strcmp_eq.induct) auto

lemma strncmp_eq_ok:
  "terminated a \<Longrightarrow> terminated b \<Longrightarrow>
     strncmp_eq a b n = Inr (take n (cstr_of a) = take n (cstr_of b))"
  by (induction a b n rule: strncmp_eq.induct) auto

text \<open>Comparing with a literal, its terminator included, is comparing the text.\<close>

lemma strncmp_eq_literal:
  assumes "terminated a" "NUL \<notin> set s" "n = Suc (length s)"
  shows "strncmp_eq a (cstr s) n = Inr (cstr_of a = s)"
proof -
  have "take n (cstr_of a) = s \<longleftrightarrow> cstr_of a = s"
    using assms(3) by (metis Suc_n_not_le_n length_take min_def order_refl take_all_iff le_SucI)
  with assms show ?thesis by (simp add: strncmp_eq_ok cstr_of_cstr)
qed

section \<open>What the helpers compute\<close>

definition trim :: "string \<Rightarrow> string" where
  "trim s = rev (dropWhile isspace (rev (dropWhile isspace s)))"

lemma skip_space_ok:
  "terminated buf \<Longrightarrow> skip_space buf = Inr (length (takeWhile isspace (cstr_of buf)))"
  by (induction buf) auto

lemma scan_word_ok:
  "terminated buf \<Longrightarrow> scan_word buf = Inr (length (takeWhile (\<lambda>c. \<not> isspace c) (cstr_of buf)))"
  by (induction buf) auto

lemma drop_takeWhile: "drop (length (takeWhile P xs)) xs = dropWhile P xs"
  by (induction xs) auto

lemma strip_back_ok:
  assumes "\<not> isspace (buf ! s)" "s + k < length buf"
  shows "Suc (strip_back buf s (s + k)) = s + length (dropWhile isspace (rev (take (Suc k) (drop s buf))))"
  using assms(2)
proof (induction k)
  case 0
  with assms(1) show ?case by (cases s) (auto simp: take_Suc_conv_app_nth)
next
  case (Suc k)
  then have "take (Suc (Suc k)) (drop s buf) = take (Suc k) (drop s buf) @ [buf ! Suc (s + k)]"
    by (subst take_Suc_conv_app_nth) auto
  with Suc show ?case by simp
qed

lemma rev_dropWhile_rev: "rev (dropWhile P (rev xs)) = take (length (dropWhile P (rev xs))) xs"
proof -
  have "rev (dropWhile P (rev xs)) @ rev (takeWhile P (rev xs)) = xs"
    by (metis rev_append rev_rev_ident takeWhile_dropWhile_id)
  then show ?thesis by (metis append_eq_conv_conj length_rev)
qed

lemma drop_poke:
  assumes "drop p buf = xs" "k < length xs"
  shows "drop p (buf[p + k := x]) = take k xs @ x # drop (Suc k) xs"
proof -
  have "drop p (buf[p + k := x]) = xs[k := x]" using assms(1) by (simp add: drop_update_swap)
  then show ?thesis using assms(2) by (simp add: upd_conv_take_nth_drop)
qed

theorem stripwhite_ok:
  assumes "terminated buf"
  shows "\<exists>buf' s. stripwhite buf = Inr (buf', s) \<and> length buf' = length buf \<and>
    terminated (drop s buf') \<and> cstr_of (drop s buf') = trim (cstr_of buf)"
proof -
  obtain rest where buf: "buf = cstr_of buf @ NUL # rest" using assms by (rule terminated_split)
  define cs where "cs = cstr_of buf"
  define s where "s = length (takeWhile isspace cs)"
  define ds where "ds = dropWhile isspace cs"
  have skip: "skip_space buf = Inr s" using skip_space_ok [OF assms] by (simp add: s_def cs_def)
  have "s \<le> length cs" by (simp add: s_def length_takeWhile_le)
  then have drop: "drop s buf = ds @ NUL # rest"
    by (subst buf) (simp add: cs_def [symmetric] s_def ds_def drop_takeWhile)
  have nul: "NUL \<notin> set ds" using NUL_cstr_of [of buf] by (auto simp: ds_def cs_def dest: set_dropWhileD)
  have len: "s < length buf" using \<open>s \<le> length cs\<close> by (subst buf) (simp add: cs_def)
  have nth: "buf ! s = (ds @ NUL # rest) ! 0" using drop len by (metis add_0_right nth_drop less_imp_le_nat)
  show ?thesis
  proof (cases ds)
    case Nil
    then have "stripwhite buf = Inr (buf, s)" using skip len nth by (simp add: stripwhite_def cread_Inr)
    moreover have "trim cs = []" using Nil by (simp add: trim_def flip: ds_def)
    ultimately show ?thesis using drop Nil by (simp flip: cs_def)
  next
    case (Cons d ds')
    then have "\<not> isspace d" unfolding ds_def by (metis dropWhile_eq_Cons_conv)
    define n where "n = length ds"
    define m where "m = length (dropWhile isspace (rev ds))"
    have n: "0 < n" "s + n < length buf" using Cons drop by (auto simp: n_def dest: arg_cong [where f = length])
    have sl: "strlen (drop s buf) = Inr n" using drop nul by (simp add: strlen_ok cstr_of_prefix n_def)
    have "Suc (strip_back buf s (s + n - 1)) = s + m"
      using strip_back_ok [of buf s "n - 1"] n nth Cons \<open>\<not> isspace d\<close> drop by (simp add: n_def m_def)
    moreover have m: "m \<le> n" by (simp add: m_def n_def) (metis length_dropWhile_le length_rev)
    ultimately have res: "stripwhite buf = Inr (buf[s + m := NUL], s)"
      using skip len nth nul Cons n sl by (auto simp: stripwhite_def cread_Inr cwrite_Inr)
    have "drop s (buf[s + m := NUL]) = take m (ds @ NUL # rest) @ NUL # drop (Suc m) (ds @ NUL # rest)"
      using drop m by (intro drop_poke) (simp_all add: n_def)
    moreover have "take m (ds @ NUL # rest) = trim cs"
      using m rev_dropWhile_rev [of isspace ds] by (simp add: trim_def n_def m_def flip: ds_def)
    moreover have "NUL \<notin> set (trim cs)" using nul by (auto simp: trim_def ds_def dest: set_dropWhileD)
    ultimately show ?thesis using res by (simp add: cstr_of_prefix del: take_append drop_append flip: cs_def)
  qed
qed

theorem splitstr_ok:
  assumes "terminated (drop p buf)"
  defines "cs \<equiv> cstr_of (drop p buf)"
  defines "w \<equiv> takeWhile (\<lambda>c. \<not> isspace c) cs"
  shows "w = cs \<Longrightarrow> splitstr buf p = Inr (buf, None)"
    and "w \<noteq> cs \<Longrightarrow> \<exists>buf'. splitstr buf p = Inr (buf', Some (p + length w + 1)) \<and>
      length buf' = length buf \<and> take p buf' = take p buf \<and> terminated (drop p buf') \<and> cstr_of (drop p buf') = w \<and>
      terminated (drop (p + length w + 1) buf') \<and>
      cstr_of (drop (p + length w + 1) buf') = drop (length w + 1) cs"
proof -
  obtain rest where buf: "drop p buf = cs @ NUL # rest"
    using terminated_split [OF assms(1)] by (auto simp: cs_def)
  then have len: "p + length cs < length buf" by (auto dest: arg_cong [where f = length])
  have scan: "scan_word (drop p buf) = Inr (length w)" using scan_word_ok [OF assms(1)] by (simp add: w_def cs_def)
  have wl: "length w \<le> length cs" by (simp add: w_def length_takeWhile_le)
  have nth: "buf ! (p + length w) = (cs @ NUL # rest) ! length w" using buf len wl by (metis add_leD1 less_imp_le_nat nth_drop)
  show "splitstr buf p = Inr (buf, None)" if "w = cs"
    using that scan nth len by (simp add: splitstr_def cread_Inr)
  assume "w \<noteq> cs"
  then have lt: "length w < length cs" using wl unfolding w_def by (metis le_neq_implies_less takeWhile_eq_take take_all order_refl)
  then have sp: "isspace (cs ! length w)" using nth_length_takeWhile [of "\<lambda>c. \<not> isspace c" cs] by (simp add: w_def)
  let ?b = "buf[p + length w := NUL]"
  have "splitstr buf p = Inr (?b, Some (p + length w + 1))"
    using scan nth len sp lt by (simp add: splitstr_def cread_Inr cwrite_Inr nth_append)
  moreover have d: "drop p ?b = w @ NUL # drop (Suc (length w)) cs @ NUL # rest"
    using drop_poke [OF buf, of "length w" NUL] lt takeWhile_eq_take [of "\<lambda>c. \<not> isspace c" cs]
    by (simp flip: w_def)
  moreover have "drop (p + length w + 1) ?b = drop (Suc (length w)) (drop p ?b)" by (simp add: add.commute)
  then have "drop (p + length w + 1) ?b = drop (Suc (length w)) cs @ NUL # rest" by (simp only: d) simp
  moreover have "NUL \<notin> set cs" by (simp add: cs_def NUL_cstr_of)
  then have "NUL \<notin> set w" "NUL \<notin> set (drop (Suc (length w)) cs)"
    by (auto simp: w_def dest: set_takeWhileD in_set_dropD)
  ultimately show "\<exists>buf'. splitstr buf p = Inr (buf', Some (p + length w + 1)) \<and>
      length buf' = length buf \<and> take p buf' = take p buf \<and> terminated (drop p buf') \<and> cstr_of (drop p buf') = w \<and>
      terminated (drop (p + length w + 1) buf') \<and>
      cstr_of (drop (p + length w + 1) buf') = drop (length w + 1) cs"
    by (intro exI [of _ ?b]) (simp add: cstr_of_prefix)
qed

end
