(* ===== verification/Addr_Text.thy ===== *)
theory Addr_Text
  imports Fpga C_String
begin

text \<open>
  Addresses as text: the parsers of \<^verbatim>\<open>sw/admin-cli/commands/admin-edit.hh\<close> and the formats
  \<open>print_MAC\<close> and \<open>print_IP\<close> of \<^verbatim>\<open>sw/admin-cli/fpga-filter.hh\<close>. The parsers store a byte at each
  separator, without counting the separators.
\<close>

section \<open>The parsers\<close>

definition in_range :: "char \<Rightarrow> char \<Rightarrow> char \<Rightarrow> bool" where
  "in_range a b c \<longleftrightarrow> (of_char a :: nat) \<le> of_char c \<and> (of_char c :: nat) \<le> of_char b"

abbreviation is_digit :: "char \<Rightarrow> bool" where "is_digit \<equiv> in_range CHR ''0'' CHR ''9''"

definition is_hex :: "char \<Rightarrow> bool" where
  "is_hex c \<longleftrightarrow> is_digit c \<or> in_range CHR ''a'' CHR ''f'' c \<or> in_range CHR ''A'' CHR ''F'' c"

definition parse_hex :: "char \<Rightarrow> u8" where
  "parse_hex c =
     (if is_digit c then of_char c - 48
      else if in_range CHR ''a'' CHR ''f'' c then of_char c - 87
      else if in_range CHR ''A'' CHR ''F'' c then of_char c - 55
      else 0)"

fun parse_mac_loop :: "string \<Rightarrow> u8 list \<Rightarrow> u8 \<Rightarrow> nat \<Rightarrow> u8 list cres" where
  "parse_mac_loop [] bs cur j = cwrite bs j cur"
| "parse_mac_loop (c # cs) bs cur j =
     (if is_hex c then parse_mac_loop cs bs (push_bit 4 cur + parse_hex c) j
      else if c = CHR '':'' then cbind (cwrite bs j cur) (\<lambda>bs. parse_mac_loop cs bs 0 (j + 1))
      else Inr bs)"

definition parse_mac :: "string \<Rightarrow> mac_addr_t cres" where
  "parse_mac s =
     cbind (strnlen s 18) (\<lambda>len.
     if len < 17 then Inr mac_zero
     else cbind (parse_mac_loop (take len s) (byte mac_zero) 0 0) (\<lambda>bs. Inr \<lparr>byte = bs\<rparr>))"

fun parse_ip_loop :: "string \<Rightarrow> u8 list \<Rightarrow> u8 \<Rightarrow> nat \<Rightarrow> u8 list cres" where
  "parse_ip_loop [] bs cur j = cwrite bs j cur"
| "parse_ip_loop (c # cs) bs cur j =
     (if is_digit c then parse_ip_loop cs bs (cur * 10 + (of_char c - 48)) j
      else if c = CHR ''.'' then cbind (cwrite bs j cur) (\<lambda>bs. parse_ip_loop cs bs 0 (j + 1))
      else Inr bs)"

definition parse_ip :: "string \<Rightarrow> ip_addr_t cres" where
  "parse_ip s =
     cbind (strnlen s 16) (\<lambda>len.
     if len < 7 then Inr ip_zero
     else cbind (parse_ip_loop (take len s) (num ip_zero) 0 0) (\<lambda>bs. Inr \<lparr>num = bs\<rparr>))"

fun parse_port_loop :: "string \<Rightarrow> u16 \<Rightarrow> u16 option" where
  "parse_port_loop [] cur = Some cur"
| "parse_port_loop (c # cs) cur =
     (if is_digit c then parse_port_loop cs (cur * 10 + (of_char c - 48)) else None)"

definition parse_port :: "string \<Rightarrow> udp_port_t cres" where
  "parse_port s =
     cbind (strnlen s 6) (\<lambda>len.
     Inr (case parse_port_loop (take len s) 0 of
            None \<Rightarrow> port_zero
          | Some n \<Rightarrow> \<lparr>port = bswap_16 n\<rparr>))"

section \<open>The printed forms\<close>

definition hex_digit :: "nat \<Rightarrow> char" where
  "hex_digit n = (if n < 10 then char_of (48 + n) else char_of (55 + n))"

definition hex2 :: "u8 \<Rightarrow> string" where
  "hex2 b = [hex_digit (unat (drop_bit 4 b)), hex_digit (unat (b AND 0x0f))]"

fun dec :: "nat \<Rightarrow> string" where
  "dec n = (if n < 10 then [char_of (48 + n)] else dec (n div 10) @ [char_of (48 + n mod 10)])"

declare dec.simps [simp del]

fun join :: "char \<Rightarrow> string list \<Rightarrow> string" where
  "join sep [] = []"
| "join sep [s] = s"
| "join sep (s # t # ss) = s @ sep # join sep (t # ss)"

text \<open>\<open>%02X:%02X:%02X:%02X:%02X:%02X\<close> and \<open>%d.%d.%d.%d\<close>.\<close>

definition print_MAC :: "mac_addr_t \<Rightarrow> string" where
  "print_MAC m = CHR 0x09 # join CHR '':'' (map hex2 (byte m))"

definition print_IP :: "ip_addr_t \<Rightarrow> string" where
  "print_IP a = CHR 0x09 # join CHR ''.'' (map (\<lambda>n. dec (unat n)) (num a))"

section \<open>Parsing is total up to the number of separators\<close>

lemma strnlen_prefix:
  assumes "strnlen s n = Inr len"
  shows "take len s = take n (cstr_of s)" "len \<le> length s" "len \<le> n"
  using assms
  by (induction s n arbitrary: len rule: strnlen.induct) (auto simp: cbind_eq_Inr split: if_splits)

lemma not_hex_colon [simp]: "\<not> is_hex CHR '':''" and not_digit_dot [simp]: "\<not> is_digit CHR ''.''"
  by (simp_all add: is_hex_def in_range_def)

text \<open>
  How many bytes a parser stores: one at each separator up to the first other character, and one more at the
  end of the text if it gets there.
\<close>

definition field_stores :: "(char \<Rightarrow> bool) \<Rightarrow> char \<Rightarrow> string \<Rightarrow> nat" where
  "field_stores digit sep cs =
     count_list (takeWhile (\<lambda>c. digit c \<or> c = sep) cs) sep + (if list_all (\<lambda>c. digit c \<or> c = sep) cs then 1 else 0)"

locale field_parser =
  fixes digit :: "char \<Rightarrow> bool"
    and acc :: "u8 \<Rightarrow> char \<Rightarrow> u8"
    and sep :: char
    and loop :: "string \<Rightarrow> u8 list \<Rightarrow> u8 \<Rightarrow> nat \<Rightarrow> u8 list cres"
  assumes loop_Nil: "loop [] bs cur j = cwrite bs j cur"
    and loop_digit: "digit c \<Longrightarrow> loop (c # cs) bs cur j = loop cs bs (acc cur c) j"
    and loop_sep: "loop (sep # cs) bs cur j = cbind (cwrite bs j cur) (\<lambda>bs. loop cs bs 0 (Suc j))"
    and loop_other: "\<not> digit c \<Longrightarrow> c \<noteq> sep \<Longrightarrow> loop (c # cs) bs cur j = Inr bs"
    and sep_not_digit: "\<not> digit sep"
begin

lemma loop_length: "loop cs bs cur j = Inr bs' \<Longrightarrow> length bs' = length bs"
proof (induction cs arbitrary: bs cur j)
  case (Cons c cs)
  consider "digit c" | "c = sep" | "\<not> digit c" "c \<noteq> sep" by blast
  then show ?case
    using Cons by cases (auto simp: loop_digit loop_sep loop_other cbind_eq_Inr cwrite_def split: if_splits)
qed (auto simp: loop_Nil cwrite_def split: if_splits)

lemma loop_faults:
  "j \<le> length bs \<Longrightarrow> faults_iff (length bs < j + field_stores digit sep cs) (loop cs bs cur j)"
proof (induction cs arbitrary: bs cur j)
  case (Cons c cs)
  consider "digit c" "c \<noteq> sep" | "c = sep" | "\<not> digit c" "c \<noteq> sep" using sep_not_digit by blast
  then show ?case
  proof cases
    case 2
    show ?thesis
    proof (cases "j < length bs")
      case True
      with 2 Cons.IH [of "Suc j" "bs[j := cur]" 0] show ?thesis by (simp add: loop_sep cwrite_Inr field_stores_def)
    next
      case False
      with 2 Cons.prems show ?thesis by (simp add: loop_sep cwrite_def faults_iff_def field_stores_def)
    qed
  qed (use Cons in \<open>simp_all add: loop_digit loop_other field_stores_def faults_iff_Inr\<close>)
qed (simp add: loop_Nil cwrite_def faults_iff_def field_stores_def)

lemma loop_word:
  "list_all digit w \<Longrightarrow> loop (w @ cs) bs cur j = loop cs bs (foldl acc cur w) j"
  by (induction w arbitrary: cur) (simp_all add: loop_digit)

lemma loop_join:
  assumes "ws \<noteq> []" "list_all (list_all digit) ws" "j + length ws = length bs"
  shows "loop (join sep ws) bs 0 j = Inr (take j bs @ map (foldl acc 0) ws)"
  using assms
proof (induction ws arbitrary: bs j rule: induct_list012)
  case (2 s)
  then show ?case
    using loop_word [of s "[]" bs 0 j] by (simp add: loop_Nil cwrite_Inr upd_conv_take_nth_drop)
next
  case (3 s t ss)
  let ?bs = "bs[j := foldl acc 0 s]"
  have "loop (join sep (s # t # ss)) bs 0 j = loop (join sep (t # ss)) ?bs 0 (Suc j)"
    using "3.prems" by (simp add: loop_word loop_sep cwrite_Inr)
  also have "\<dots> = Inr (take (Suc j) ?bs @ map (foldl acc 0) (t # ss))"
    using "3.prems" by (intro "3.IH"(2)) simp_all
  also have "take (Suc j) ?bs = take j bs @ [foldl acc 0 s]"
    using "3.prems" by (simp add: take_Suc_conv_app_nth)
  finally show ?case by simp
qed simp

end

abbreviation mac_acc :: "u8 \<Rightarrow> char \<Rightarrow> u8" where "mac_acc cur c \<equiv> push_bit 4 cur + parse_hex c"
abbreviation ip_acc :: "u8 \<Rightarrow> char \<Rightarrow> u8" where "ip_acc cur c \<equiv> cur * 10 + (of_char c - 48)"

interpretation mac_fields: field_parser is_hex mac_acc "CHR '':''" parse_mac_loop
  by unfold_locales auto

interpretation ip_fields: field_parser is_digit ip_acc "CHR ''.''" parse_ip_loop
  by unfold_locales auto

section \<open>Parsing inverts printing\<close>

lemma of_char_code:
  assumes "n < 256"
  shows "(of_char (char_of n :: char) :: nat) = n" "(of_char (char_of n :: char) :: 'a::len word) = word_of_nat n"
proof -
  show n: "(of_char (char_of n :: char) :: nat) = n" using assms by simp
  have "(of_char c :: 'a word) = of_nat (of_char c)" for c :: char by (simp add: of_nat_of_char)
  with n show "(of_char (char_of n :: char) :: 'a word) = word_of_nat n" by simp
qed

lemma hex_digit_ok:
  assumes "n < 16"
  shows "is_hex (hex_digit n)" "parse_hex (hex_digit n) = word_of_nat n"
  using assms
  by (auto simp: is_hex_def hex_digit_def parse_hex_def in_range_def of_char_code simp del: char_of_nat of_char_of)

lemma low_nibble: "(b :: u8) AND 0x0f = take_bit 4 b"
  by (simp add: take_bit_eq_mask mask_eq_exp_minus_1)

lemma nibbles: "unat (drop_bit 4 (b :: u8)) < 16" "unat (b AND 0x0f) < 16"
  "push_bit 4 (drop_bit 4 b) + (b AND 0x0f) = b"
proof -
  have "unat b < 256" using unsigned_less [of b] by simp
  then show "unat (drop_bit 4 b) < 16"
    by (simp only: unsigned_drop_bit_eq take_bit_nat_eq_self unsigned_less) (simp add: drop_bit_eq_div)
  show "unat (b AND 0x0f) < 16"
    by (simp only: low_nibble unsigned_take_bit_eq) (simp add: take_bit_eq_mod)
  show "push_bit 4 (drop_bit 4 b) + (b AND 0x0f) = b"
    unfolding low_nibble using bits_ident [of 4 b] by (simp add: add.commute)
qed

lemma hex2_ok: "list_all is_hex (hex2 b)" "foldl mac_acc 0 (hex2 b) = b" "length (hex2 b) = 2"
  using nibbles [of b] by (simp_all add: hex2_def hex_digit_ok)

lemma digit_ok:
  assumes "d < 10"
  shows "is_digit (char_of (48 + d))" "(of_char (char_of (48 + d)) :: 'a::len word) - 48 = word_of_nat d"
  using assms by (simp_all add: in_range_def of_char_code del: of_char_of)

lemma dec_digits: "list_all is_digit (dec n)"
  by (induction n rule: dec.induct) (subst dec.simps, simp add: digit_ok)

lemma dec_value:
  "foldl (\<lambda>cur c. cur * 10 + (of_char c - 48)) (0 :: 'a::len word) (dec n) = word_of_nat n"
proof (induction n rule: dec.induct)
  case (1 n)
  show ?case
  proof (cases "n < 10")
    case True
    then show ?thesis by (subst dec.simps) (simp add: digit_ok)
  next
    case False
    have "(word_of_nat n :: 'a word) = word_of_nat (n div 10 * 10 + n mod 10)" by (simp only: div_mult_mod_eq)
    also have "\<dots> = word_of_nat (n div 10) * 10 + word_of_nat (n mod 10)"
      by (simp only: of_nat_add of_nat_mult of_nat_numeral)
    finally show ?thesis using False 1 by (subst dec.simps) (simp add: digit_ok)
  qed
qed

lemma length_dec: "n < 10 ^ k \<Longrightarrow> 0 < k \<Longrightarrow> length (dec n) \<le> k" "1 \<le> length (dec n)"
proof -
  show "1 \<le> length (dec n)" by (subst dec.simps) simp
  show "n < 10 ^ k \<Longrightarrow> 0 < k \<Longrightarrow> length (dec n) \<le> k"
  proof (induction k arbitrary: n)
    case (Suc k)
    then show ?case
      by (cases "k = 0"; subst dec.simps) (auto simp: div_less_iff_less_mult mult.commute)
  qed simp
qed

lemma join_chars: "set (join sep ws) \<subseteq> insert sep (\<Union>(set ` set ws))"
  by (induction sep ws rule: join.induct) auto

lemma length_join: "ws \<noteq> [] \<Longrightarrow> Suc (length (join sep ws)) = sum_list (map length ws) + length ws"
  by (induction sep ws rule: join.induct) auto

lemma join_no_NUL:
  assumes "sep \<noteq> NUL" "\<And>w. w \<in> set ws \<Longrightarrow> NUL \<notin> set w"
  shows "NUL \<notin> set (join sep ws)"
proof
  assume "NUL \<in> set (join sep ws)"
  with join_chars have "NUL \<in> insert sep (\<Union>(set ` set ws))" by blast
  with assms show False by auto
qed

lemma join_bounds:
  assumes "ws \<noteq> []" "\<And>w. w \<in> set ws \<Longrightarrow> lo \<le> length w \<and> length w \<le> hi"
  shows "(lo + 1) * length ws \<le> Suc (length (join sep ws))" "Suc (length (join sep ws)) \<le> (hi + 1) * length ws"
proof -
  have "lo * length ws \<le> sum_list (map length ws) \<and> sum_list (map length ws) \<le> hi * length ws"
    using assms(2) by (induction ws) (auto intro: add_mono)
  then show "(lo + 1) * length ws \<le> Suc (length (join sep ws))" "Suc (length (join sep ws)) \<le> (hi + 1) * length ws"
    using length_join [OF assms(1), of sep] by simp_all
qed

lemma in_range_NUL: "is_hex c \<Longrightarrow> c \<noteq> NUL" "is_digit c \<Longrightarrow> c \<noteq> NUL"
  by (auto simp: is_hex_def in_range_def)

lemma text_no_NUL: "NUL \<notin> set (hex2 b)" "NUL \<notin> set (dec n)"
  using hex2_ok(1) [of b] dec_digits [of n] in_range_NUL by (auto simp: list_all_iff)

lemma strnlen_text:
  "NUL \<notin> set s \<Longrightarrow> length s \<le> n \<Longrightarrow> strnlen (s @ NUL # rest) n = Inr (length s)"
  by (simp add: strnlen_ok cstr_of_prefix)

theorem parse_print_MAC:
  assumes "wf_mac m"
  shows "parse_mac (tl (print_MAC m) @ NUL # rest) = Inr m"
proof -
  let ?ws = "map hex2 (byte m)" and ?s = "join CHR '':'' (map hex2 (byte m))"
  have b: "length (byte m) = 6" using assms by (simp add: wf_mac_def)
  have "?ws \<noteq> []" using b by auto
  then have "(2 + 1) * length ?ws \<le> Suc (length ?s)" "Suc (length ?s) \<le> (2 + 1) * length ?ws"
    by (intro join_bounds; auto simp: hex2_ok(3))+
  then have len: "length ?s = 17" using b by simp
  have "NUL \<notin> set ?s" by (rule join_no_NUL) (auto simp: text_no_NUL)
  then have sl: "strnlen (?s @ NUL # rest) 18 = Inr 17" using strnlen_text [of ?s 18] len by simp
  have "parse_mac_loop ?s (replicate 6 0) 0 0 = Inr (byte m)"
    using b by (subst mac_fields.loop_join) (auto simp: list_all_iff hex2_ok(2) hex2_ok(1) [unfolded list_all_iff] comp_def)
  then show ?thesis using sl len by (simp add: parse_mac_def print_MAC_def mac_zero_def)
qed

theorem parse_print_IP:
  assumes "wf_ip a"
  shows "parse_ip (tl (print_IP a) @ NUL # rest) = Inr a"
proof -
  let ?ws = "map (\<lambda>n. dec (unat n)) (num a)"
  let ?s = "join CHR ''.'' ?ws"
  have n: "length (num a) = 4" using assms by (simp add: wf_ip_def)
  have "unat (x :: u8) < 10 ^ 3" for x
  proof -
    have "unat x < 256" using unsigned_less [of x] by simp
    then show ?thesis by simp
  qed
  then have l: "length (dec (unat (x :: u8))) \<le> 3" for x by (intro length_dec) simp_all
  have "?ws \<noteq> []" using n by auto
  then have "(1 + 1) * length ?ws \<le> Suc (length ?s)" "Suc (length ?s) \<le> (3 + 1) * length ?ws"
    using l length_dec(2) by (intro join_bounds; auto)+
  then have len: "7 \<le> length ?s" "length ?s \<le> 16" using n by simp_all
  have "NUL \<notin> set ?s" by (rule join_no_NUL) (auto simp: text_no_NUL)
  then have sl: "strnlen (?s @ NUL # rest) 16 = Inr (length ?s)" using strnlen_text [of ?s 16] len by simp
  have "parse_ip_loop ?s (replicate 4 0) 0 0 = Inr (num a)"
    using n by (subst ip_fields.loop_join) (auto simp: list_all_iff dec_digits [unfolded list_all_iff] comp_def dec_value)
  then show ?thesis using sl len by (simp add: parse_ip_def print_IP_def ip_zero_def)
qed

lemma parse_port_loop_digits:
  "list_all is_digit s \<Longrightarrow> parse_port_loop s cur = Some (foldl (\<lambda>cur c. cur * 10 + (of_char c - 48)) cur s)"
  by (induction s arbitrary: cur) simp_all

theorem parse_port_decimal:
  assumes "n < 65536"
  shows "parse_port (dec n @ NUL # rest) = Inr \<lparr>port = bswap_16 (word_of_nat n)\<rparr>"
proof -
  have "NUL \<notin> set (dec n)" by (rule text_no_NUL)
  moreover have "length (dec n) \<le> 5" using assms by (intro length_dec) simp_all
  ultimately have "strnlen (dec n @ NUL # rest) 6 = Inr (length (dec n))" by (intro strnlen_text) simp_all
  then show ?thesis by (simp add: parse_port_def parse_port_loop_digits dec_digits dec_value)
qed

section \<open>When the address parsers fault\<close>

lemma parse_mac_faults:
  assumes "terminated s"
  shows "faults_iff (17 \<le> length (cstr_of s) \<and> 6 < field_stores is_hex CHR '':'' (take 18 (cstr_of s))) (parse_mac s)"
  using mac_fields.loop_faults [of 0 "replicate 6 0" "take 18 (cstr_of s)" 0] strnlen_prefix(1) [OF strnlen_ok [OF assms, of 18]]
  by (auto simp: parse_mac_def strnlen_ok [OF assms] mac_zero_def faults_iff_def split: if_splits)

lemma parse_ip_faults:
  assumes "terminated s"
  shows "faults_iff (7 \<le> length (cstr_of s) \<and> 4 < field_stores is_digit CHR ''.'' (take 16 (cstr_of s))) (parse_ip s)"
  using ip_fields.loop_faults [of 0 "replicate 4 0" "take 16 (cstr_of s)" 0] strnlen_prefix(1) [OF strnlen_ok [OF assms, of 16]]
  by (auto simp: parse_ip_def strnlen_ok [OF assms] ip_zero_def faults_iff_def split: if_splits)

lemma parse_port_total: "terminated s \<Longrightarrow> \<exists>p. parse_port s = Inr p"
  by (simp add: parse_port_def strnlen_ok)

section \<open>The parsers see only the text\<close>

lemma take_strnlen:
  assumes "terminated s"
  shows "strnlen s n = Inr (min n (length (cstr_of s)))"
    "take (min n (length (cstr_of s))) s = take n (cstr_of s)"
  using strnlen_ok [OF assms, of n] strnlen_prefix(1) by blast+

lemma parse_text:
  assumes "terminated s" "terminated s'" "cstr_of s = cstr_of s'"
  shows "parse_mac s = parse_mac s'" "parse_ip s = parse_ip s'" "parse_port s = parse_port s'"
  by (simp_all only: parse_mac_def parse_ip_def parse_port_def cbind_Inr
      take_strnlen [OF assms(1), unfolded assms(3)] take_strnlen [OF assms(2)])

lemma parse_mac_results: "parse_mac s = Inr m \<Longrightarrow> wf_mac m"
  by (auto simp: parse_mac_def cbind_eq_Inr wf_mac_def mac_zero_def dest: mac_fields.loop_length split: if_splits)

lemma parse_ip_results: "parse_ip s = Inr a \<Longrightarrow> wf_ip a"
  by (auto simp: parse_ip_def cbind_eq_Inr wf_ip_def ip_zero_def dest: ip_fields.loop_length split: if_splits)

end
