(* ===== verification/Admin_Edit.thy ===== *)
theory Admin_Edit
  imports Addr_Text
begin

text \<open>
  The editing commands of the client, \<^verbatim>\<open>sw/admin-cli/commands/admin-edit-add.hh\<close>,
  \<^verbatim>\<open>admin-edit-remove.hh\<close> and \<^verbatim>\<open>admin-edit-set.hh\<close>: each works on the current user configuration
  \<open>f_curr\<close> and on the argument string, in which \<open>splitstr\<close> writes a terminator. The outcome is the
  configuration, the argument object, what was printed and the returned code.
\<close>

type_synonym edit_outcome = "filter_t \<times> string \<times> console list \<times> int"

section \<open>Choosing the section\<close>

datatype filter_section_t = SrcMac | DstMac | SrcIp | DstIp | SrcPort | DstPort | Dns | Reply

text \<open>The \<open>if (strncmp(arg, ...) == 0) ... else if ...\<close> chains.\<close>

fun strncmp_chain :: "string \<Rightarrow> (string \<times> nat \<times> 'a) list \<Rightarrow> 'a option cres" where
  "strncmp_chain arg [] = Inr None"
| "strncmp_chain arg ((name, n, x) # rest) =
     cbind (strncmp_eq arg (cstr name) n) (\<lambda>eq. if eq then Inr (Some x) else strncmp_chain arg rest)"

definition edit_sections :: "(string \<times> nat \<times> filter_section_t) list" where
  "edit_sections =
     [(''srcmac'', 7, SrcMac), (''dstmac'', 7, DstMac), (''srcip'', 6, SrcIp), (''dstip'', 6, DstIp),
      (''srcport'', 8, SrcPort), (''dstport'', 8, DstPort), (''dns'', 4, Dns)]"

definition set_sections :: "(string \<times> nat \<times> filter_section_t) list" where
  "set_sections = edit_sections @ [(''reply'', 6, Reply)]"

section \<open>Messages\<close>

definition com_admin_edit_print_filter_types :: "console list" where
  "com_admin_edit_print_filter_types =
     [Stdout (''filter-type := [srcmac/dstmac/srcip/dstip/srcport/dstport/dns]'' @ [NL]),
      Stdout (''or specify '' @ [CHR 0x22] @ ''reply'' @ [CHR 0x22] @ '' to alter reply type'' @ [NL])]"

definition com_admin_edit_add_print_error_msg :: "string \<Rightarrow> console list cres" where
  "com_admin_edit_add_print_error_msg arg = cbind (percent_s arg) (\<lambda>a.
     Inr (com_admin_edit_print_filter_types @ [Stderr (a @ '': specify [filter-type] [filter-content]'' @ [NL])]))"

definition com_admin_edit_add_print_full_msg :: "string \<Rightarrow> console list cres" where
  "com_admin_edit_add_print_full_msg arg = cbind (percent_s arg) (\<lambda>a.
     Inr [Stderr (a @ '': exceeding limit of items'' @ [NL])])"

definition com_admin_edit_add_print_dns_too_long_msg :: "string \<Rightarrow> console list cres" where
  "com_admin_edit_add_print_dns_too_long_msg arg = cbind (percent_s arg) (\<lambda>a.
     Inr [Stderr (a @ '': exceeding limit of dns item length'' @ [NL])])"

definition com_admin_edit_remove_print_error_msg :: "string \<Rightarrow> console list cres" where
  "com_admin_edit_remove_print_error_msg arg = cbind (percent_s arg) (\<lambda>a.
     Inr (com_admin_edit_print_filter_types @ [Stderr (a @ '': specify [filter-type] [filter-index]'' @ [NL])]))"

definition com_admin_edit_remove_print_index_msg :: "string \<Rightarrow> console list cres" where
  "com_admin_edit_remove_print_index_msg arg = cbind (percent_s arg) (\<lambda>a.
     Inr (com_admin_edit_print_filter_types @
       [Stderr (a @ '': filter-index shall be in range 0 to '' @ dec (FILTER_DEPTH - 1) @ [NL])]))"

definition com_admin_edit_remove_print_empty_msg :: "string \<Rightarrow> console list cres" where
  "com_admin_edit_remove_print_empty_msg arg = cbind (percent_s arg) (\<lambda>a.
     Inr [Stderr (a @ '': filter removal index invalid'' @ [NL])])"

definition com_admin_edit_set_print_error_msg :: "string \<Rightarrow> console list cres" where
  "com_admin_edit_set_print_error_msg arg = cbind (percent_s arg) (\<lambda>a.
     Inr (com_admin_edit_print_filter_types @
       [Stderr (a @ '': specify [filter-type/reply] [(black/white)/(payload/dns)]'' @ [NL])]))"

text \<open>\<open>print...; return -1;\<close>\<close>

definition edit_error :: "filter_t \<Rightarrow> string \<Rightarrow> console list cres \<Rightarrow> edit_outcome cres" where
  "edit_error f buf msg = cbind msg (\<lambda>out. Inr (f, buf, out, -1))"

section \<open>The sections of a configuration\<close>

definition put_srcMAC :: "filter_t \<Rightarrow> 2 word \<Rightarrow> mac_addr_t list \<Rightarrow> filter_t" where
  "put_srcMAC f n xs = f\<lparr>srcMACLength := n, srcMACList := xs\<rparr>"
definition put_dstMAC :: "filter_t \<Rightarrow> 2 word \<Rightarrow> mac_addr_t list \<Rightarrow> filter_t" where
  "put_dstMAC f n xs = f\<lparr>dstMACLength := n, dstMACList := xs\<rparr>"
definition put_srcIP :: "filter_t \<Rightarrow> 2 word \<Rightarrow> ip_addr_t list \<Rightarrow> filter_t" where
  "put_srcIP f n xs = f\<lparr>srcIPLength := n, srcIPList := xs\<rparr>"
definition put_dstIP :: "filter_t \<Rightarrow> 2 word \<Rightarrow> ip_addr_t list \<Rightarrow> filter_t" where
  "put_dstIP f n xs = f\<lparr>dstIPLength := n, dstIPList := xs\<rparr>"
definition put_srcPort :: "filter_t \<Rightarrow> 2 word \<Rightarrow> udp_port_t list \<Rightarrow> filter_t" where
  "put_srcPort f n xs = f\<lparr>srcPortLength := n, srcPortList := xs\<rparr>"
definition put_dstPort :: "filter_t \<Rightarrow> 2 word \<Rightarrow> udp_port_t list \<Rightarrow> filter_t" where
  "put_dstPort f n xs = f\<lparr>dstPortLength := n, dstPortList := xs\<rparr>"

section \<open>Adding an item\<close>

text \<open>
  One branch of \<open>com_admin_edit_add\<close>: the check that the section is full, parsing the content, and
  \<open>List[Length++] = item\<close> on the 2-bit length.
\<close>

definition add_branch ::
  "(filter_t \<Rightarrow> 2 word) \<Rightarrow> (filter_t \<Rightarrow> 'a list) \<Rightarrow> (filter_t \<Rightarrow> 2 word \<Rightarrow> 'a list \<Rightarrow> filter_t) \<Rightarrow>
   (string \<Rightarrow> 'a cres) \<Rightarrow> filter_t \<Rightarrow> string \<Rightarrow> nat \<Rightarrow> nat \<Rightarrow> edit_outcome cres" where
  "add_branch len items put parse f buf p q =
     (if unat (len f) = FILTER_DEPTH then edit_error f buf (com_admin_edit_add_print_full_msg (drop p buf))
      else cbind (parse (drop q buf)) (\<lambda>x.
           cbind (cwrite (items f) (unat (len f)) x) (\<lambda>xs.
           Inr (put f (len f + 1) xs, buf, [], 0))))"

definition add_dns_branch :: "filter_t \<Rightarrow> string \<Rightarrow> nat \<Rightarrow> nat \<Rightarrow> edit_outcome cres" where
  "add_dns_branch f buf p q =
     (let i = unat (dnsLength f) in
      if i = FILTER_DEPTH then edit_error f buf (com_admin_edit_add_print_full_msg (drop p buf))
      else cbind (strnlen (drop q buf) 17) (\<lambda>n.
        if n > 16 then edit_error f buf (com_admin_edit_add_print_dns_too_long_msg (drop q buf))
        else cbind (cread (dnsList f) i) (\<lambda>slot.
             cbind (cblit (dns_c slot) 0 (map of_char (take n (drop q buf)))) (\<lambda>c.
             cbind (cwrite (dnsList f) i \<lparr>dns_c = c\<rparr>) (\<lambda>items.
             cbind (cwrite (dnsItemEndPtr f) i (word_of_nat (n * 8))) (\<lambda>ends.
             Inr (f\<lparr>dnsList := items, dnsItemEndPtr := ends, dnsLength := dnsLength f + 1\<rparr>, buf, [], 0)))))))"

text \<open>The branches of \<open>com_admin_edit_add\<close>, behind the \<open>strncmp\<close> chain.\<close>

definition add_section :: "filter_section_t option \<Rightarrow> filter_t \<Rightarrow> string \<Rightarrow> nat \<Rightarrow> nat \<Rightarrow> edit_outcome cres" where
  "add_section sec f buf p q =
     (case sec of
        Some SrcMac \<Rightarrow> add_branch srcMACLength srcMACList put_srcMAC parse_mac f buf p q
      | Some DstMac \<Rightarrow> add_branch dstMACLength dstMACList put_dstMAC parse_mac f buf p q
      | Some SrcIp \<Rightarrow> add_branch srcIPLength srcIPList put_srcIP parse_ip f buf p q
      | Some DstIp \<Rightarrow> add_branch dstIPLength dstIPList put_dstIP parse_ip f buf p q
      | Some SrcPort \<Rightarrow> add_branch srcPortLength srcPortList put_srcPort parse_port f buf p q
      | Some DstPort \<Rightarrow> add_branch dstPortLength dstPortList put_dstPort parse_port f buf p q
      | Some Dns \<Rightarrow> add_dns_branch f buf p q
      | _ \<Rightarrow> edit_error f buf (com_admin_edit_add_print_error_msg (drop p buf)))"

definition com_admin_edit_add :: "filter_t \<Rightarrow> string \<Rightarrow> nat \<Rightarrow> edit_outcome cres" where
  "com_admin_edit_add f buf p =
     cbind (cread buf p) (\<lambda>c.
     if c = NUL then edit_error f buf (com_admin_edit_add_print_error_msg (drop p buf))
     else cbind (splitstr buf p) (\<lambda>(buf, sarg).
       case sarg of
         None \<Rightarrow> edit_error f buf (com_admin_edit_add_print_error_msg (drop p buf))
       | Some q \<Rightarrow> cbind (strncmp_chain (drop p buf) edit_sections) (\<lambda>sec. add_section sec f buf p q)))"

section \<open>Removing an item\<close>

text \<open>\<open>Length--; List[index] = List[Length]; List[Length] = {};\<close>\<close>

definition swap_out :: "'a \<Rightarrow> 'a list \<Rightarrow> nat \<Rightarrow> nat \<Rightarrow> 'a list cres" where
  "swap_out zero xs index len =
     cbind (cread xs len) (\<lambda>x. cbind (cwrite xs index x) (\<lambda>xs. cwrite xs len zero))"

definition remove_branch ::
  "'a \<Rightarrow> (filter_t \<Rightarrow> 2 word) \<Rightarrow> (filter_t \<Rightarrow> 'a list) \<Rightarrow> (filter_t \<Rightarrow> 2 word \<Rightarrow> 'a list \<Rightarrow> filter_t) \<Rightarrow>
   filter_t \<Rightarrow> string \<Rightarrow> nat \<Rightarrow> nat \<Rightarrow> edit_outcome cres" where
  "remove_branch zero len items put f buf q index =
     (if index \<ge> unat (len f) then edit_error f buf (com_admin_edit_remove_print_empty_msg (drop q buf))
      else let n = len f - 1 in
           cbind (swap_out zero (items f) index (unat n)) (\<lambda>xs. Inr (put f n xs, buf, [], 0)))"

definition remove_dns_branch :: "filter_t \<Rightarrow> string \<Rightarrow> nat \<Rightarrow> nat \<Rightarrow> edit_outcome cres" where
  "remove_dns_branch f buf q index =
     (if index \<ge> unat (dnsLength f) then edit_error f buf (com_admin_edit_remove_print_empty_msg (drop q buf))
      else let n = dnsLength f - 1; k = unat n in
           cbind (cread (dnsList f) k) (\<lambda>item. cbind (cwrite (dnsList f) index item) (\<lambda>items.
           cbind (cread (dnsItemEndPtr f) k) (\<lambda>e. cbind (cwrite (dnsItemEndPtr f) index e) (\<lambda>ends.
           cbind (cwrite items k dns_item_zero) (\<lambda>items. cbind (cwrite ends k 0) (\<lambda>ends.
           Inr (f\<lparr>dnsLength := n, dnsList := items, dnsItemEndPtr := ends\<rparr>, buf, [], 0))))))))"

definition remove_section :: "filter_section_t option \<Rightarrow> filter_t \<Rightarrow> string \<Rightarrow> nat \<Rightarrow> nat \<Rightarrow> nat \<Rightarrow> edit_outcome cres" where
  "remove_section sec f buf p q index =
     (case sec of
        Some SrcMac \<Rightarrow> remove_branch mac_zero srcMACLength srcMACList put_srcMAC f buf q index
      | Some DstMac \<Rightarrow> remove_branch mac_zero dstMACLength dstMACList put_dstMAC f buf q index
      | Some SrcIp \<Rightarrow> remove_branch ip_zero srcIPLength srcIPList put_srcIP f buf q index
      | Some DstIp \<Rightarrow> remove_branch ip_zero dstIPLength dstIPList put_dstIP f buf q index
      | Some SrcPort \<Rightarrow> remove_branch port_zero srcPortLength srcPortList put_srcPort f buf q index
      | Some DstPort \<Rightarrow> remove_branch port_zero dstPortLength dstPortList put_dstPort f buf q index
      | Some Dns \<Rightarrow> remove_dns_branch f buf q index
      | _ \<Rightarrow> edit_error f buf (com_admin_edit_remove_print_error_msg (drop p buf)))"

definition com_admin_edit_remove :: "filter_t \<Rightarrow> string \<Rightarrow> nat \<Rightarrow> edit_outcome cres" where
  "com_admin_edit_remove f buf p =
     cbind (cread buf p) (\<lambda>c.
     if c = NUL then edit_error f buf (com_admin_edit_remove_print_error_msg (drop p buf))
     else cbind (splitstr buf p) (\<lambda>(buf, sarg).
       case sarg of
         None \<Rightarrow> edit_error f buf (com_admin_edit_remove_print_error_msg (drop p buf))
       | Some q \<Rightarrow>
         cbind (strnlen (drop q buf) 2) (\<lambda>n.
         cbind (cread buf q) (\<lambda>d.
         let index = of_char d - (48 :: u8) in
         if n \<noteq> 1 \<or> \<not> is_digit d then edit_error f buf (com_admin_edit_remove_print_index_msg (drop q buf))
         else if unat index \<ge> FILTER_DEPTH then edit_error f buf (com_admin_edit_remove_print_index_msg (drop q buf))
         else cbind (strncmp_chain (drop p buf) edit_sections) (\<lambda>sec.
              remove_section sec f buf p q (unat index))))))"

section \<open>Setting a list black or white\<close>

definition set_BW :: "filter_section_t \<Rightarrow> 1 word \<Rightarrow> filter_t \<Rightarrow> filter_t" where
  "set_BW sec bw f =
     (case sec of
        SrcMac \<Rightarrow> f\<lparr>srcMACBW := bw\<rparr> | DstMac \<Rightarrow> f\<lparr>dstMACBW := bw\<rparr>
      | SrcIp \<Rightarrow> f\<lparr>srcIPBW := bw\<rparr> | DstIp \<Rightarrow> f\<lparr>dstIPBW := bw\<rparr>
      | SrcPort \<Rightarrow> f\<lparr>srcPortBW := bw\<rparr> | DstPort \<Rightarrow> f\<lparr>dstPortBW := bw\<rparr>
      | Dns \<Rightarrow> f\<lparr>dnsBW := bw\<rparr> | Reply \<Rightarrow> f\<lparr>replyType := bw\<rparr>)"

definition set_values :: "(string \<times> nat \<times> u8) list" where
  "set_values = [(''black'', 6, 0), (''payload'', 8, 0), (''white'', 6, 1), (''dns'', 4, 1)]"

definition com_admin_edit_set :: "filter_t \<Rightarrow> string \<Rightarrow> nat \<Rightarrow> edit_outcome cres" where
  "com_admin_edit_set f buf p =
     cbind (cread buf p) (\<lambda>c.
     if c = NUL then edit_error f buf (com_admin_edit_set_print_error_msg (drop p buf))
     else cbind (splitstr buf p) (\<lambda>(buf, sarg).
       case sarg of
         None \<Rightarrow> edit_error f buf (com_admin_edit_set_print_error_msg (drop p buf))
       | Some q \<Rightarrow>
         cbind (strncmp_chain (drop q buf) set_values) (\<lambda>bw.
         case bw of
           None \<Rightarrow> edit_error f buf (com_admin_edit_set_print_error_msg (drop p buf))
         | Some b \<Rightarrow>
           cbind (strncmp_chain (drop p buf) set_sections) (\<lambda>sec.
           case sec of
             None \<Rightarrow> edit_error f buf (com_admin_edit_set_print_error_msg (drop p buf))
           | Some s \<Rightarrow> Inr (set_BW s (ucast b) f, buf, [], 0)))))"

end
