(* ===== verification/Edit_Refinement.thy ===== *)
theory Edit_Refinement
  imports Admin_Edit
begin

text \<open>
  What the editing commands promise: a configuration is, section by section, a black/white flag
  and a list of at most \<open>FILTER_DEPTH\<close> entries; adding appends an entry, removing moves the last entry
  into the hole, and the unused slots of the arrays stay zero, which is what the board is sent.
\<close>

section \<open>The abstract configuration\<close>

datatype entry = MacE mac_addr_t | IpE ip_addr_t | PortE udp_port_t | DnsE u8 dns_filter_item_t

type_synonym config = "filter_section_t \<Rightarrow> entry list"

definition dns_items :: "filter_t \<Rightarrow> (u8 \<times> dns_filter_item_t) list" where
  "dns_items f = zip (dnsItemEndPtr f) (dnsList f)"

definition put_dns :: "filter_t \<Rightarrow> 2 word \<Rightarrow> (u8 \<times> dns_filter_item_t) list \<Rightarrow> filter_t" where
  "put_dns f n xs = f\<lparr>dnsLength := n, dnsItemEndPtr := map fst xs, dnsList := map snd xs\<rparr>"

definition abs_filter :: "filter_t \<Rightarrow> config" where
  "abs_filter f sec =
     (case sec of
        SrcMac \<Rightarrow> map MacE (take (unat (srcMACLength f)) (srcMACList f))
      | DstMac \<Rightarrow> map MacE (take (unat (dstMACLength f)) (dstMACList f))
      | SrcIp \<Rightarrow> map IpE (take (unat (srcIPLength f)) (srcIPList f))
      | DstIp \<Rightarrow> map IpE (take (unat (dstIPLength f)) (dstIPList f))
      | SrcPort \<Rightarrow> map PortE (take (unat (srcPortLength f)) (srcPortList f))
      | DstPort \<Rightarrow> map PortE (take (unat (dstPortLength f)) (dstPortList f))
      | Dns \<Rightarrow> map (\<lambda>(e, d). DnsE e d) (take (unat (dnsLength f)) (dns_items f))
      | Reply \<Rightarrow> [])"

definition abs_BW :: "filter_t \<Rightarrow> filter_section_t \<Rightarrow> 1 word" where
  "abs_BW f sec =
     (case sec of SrcMac \<Rightarrow> srcMACBW f | DstMac \<Rightarrow> dstMACBW f | SrcIp \<Rightarrow> srcIPBW f | DstIp \<Rightarrow> dstIPBW f
      | SrcPort \<Rightarrow> srcPortBW f | DstPort \<Rightarrow> dstPortBW f | Dns \<Rightarrow> dnsBW f | Reply \<Rightarrow> replyType f)"

definition spec_add :: "config \<Rightarrow> filter_section_t \<Rightarrow> entry \<Rightarrow> config" where
  "spec_add c sec e = c(sec := c sec @ [e])"

definition spec_remove :: "config \<Rightarrow> filter_section_t \<Rightarrow> nat \<Rightarrow> config" where
  "spec_remove c sec i = c(sec := butlast ((c sec)[i := last (c sec)]))"

section \<open>The representation invariant\<close>

definition section_ok :: "'a \<Rightarrow> ('a \<Rightarrow> bool) \<Rightarrow> 2 word \<Rightarrow> 'a list \<Rightarrow> bool" where
  "section_ok zero P n xs \<longleftrightarrow> length xs = FILTER_DEPTH \<and> unat n \<le> FILTER_DEPTH \<and> list_all P xs \<and>
     drop (unat n) xs = replicate (FILTER_DEPTH - unat n) zero"

definition wf_dns_pair :: "u8 \<times> dns_filter_item_t \<Rightarrow> bool" where
  "wf_dns_pair x \<longleftrightarrow> unat (fst x) \<le> 128 \<and> wf_dns_item (snd x)"

definition filter_ok :: "filter_t \<Rightarrow> bool" where
  "filter_ok f \<longleftrightarrow>
     section_ok mac_zero wf_mac (srcMACLength f) (srcMACList f) \<and>
     section_ok mac_zero wf_mac (dstMACLength f) (dstMACList f) \<and>
     section_ok ip_zero wf_ip (srcIPLength f) (srcIPList f) \<and>
     section_ok ip_zero wf_ip (dstIPLength f) (dstIPList f) \<and>
     section_ok port_zero (\<lambda>_. True) (srcPortLength f) (srcPortList f) \<and>
     section_ok port_zero (\<lambda>_. True) (dstPortLength f) (dstPortList f) \<and>
     length (dnsItemEndPtr f) = length (dnsList f) \<and>
     section_ok (0, dns_item_zero) wf_dns_pair (dnsLength f) (dns_items f)"

lemma wf_zeros: "wf_mac mac_zero" "wf_ip ip_zero" "wf_dns_pair (0, dns_item_zero)"
  by (simp_all add: wf_mac_def wf_ip_def wf_dns_pair_def wf_dns_item_def mac_zero_def ip_zero_def dns_item_zero_def)

lemma filter_ok_wf:
  assumes "filter_ok f" shows "wf_filter f"
proof -
  have "list_all wf_dns_item (map snd (dns_items f))" "length (dns_items f) = FILTER_DEPTH"
    using assms by (auto simp: filter_ok_def section_ok_def wf_dns_pair_def list_all_iff)
  moreover have "map snd (dns_items f) = dnsList f" using assms by (simp add: filter_ok_def dns_items_def)
  ultimately show ?thesis using assms
    by (simp add: filter_ok_def wf_filter_def section_ok_def wf_array_def dns_items_def)
qed

lemma filter_ok_initial: "filter_ok filter_zero"
  by (simp add: filter_ok_def section_ok_def filter_zero_def FILTER_DEPTH_def dns_items_def wf_zeros numeral_2_eq_2)

section \<open>Operations on one section\<close>

lemma section_add:
  assumes "section_ok zero P n xs" "unat n \<noteq> FILTER_DEPTH" "P x"
  shows "unat n < length xs" "section_ok zero P (n + 1) (xs[unat n := x])"
    "take (unat (n + 1)) (xs[unat n := x]) = take (unat n) xs @ [x]"
proof -
  have lt: "unat n < FILTER_DEPTH" using assms(1,2) by (simp add: section_ok_def)
  then have u: "unat (n + 1) = Suc (unat n)" by (simp add: unat_word_ariths FILTER_DEPTH_def)
  show len: "unat n < length xs" using lt assms(1) by (simp add: section_ok_def)
  then show "take (unat (n + 1)) (xs[unat n := x]) = take (unat n) xs @ [x]"
    by (simp add: u take_Suc_conv_app_nth)
  have "drop (Suc (unat n)) xs = tl (drop (unat n) xs)" by (simp add: drop_Suc tl_drop)
  moreover have "FILTER_DEPTH - unat n = Suc (FILTER_DEPTH - Suc (unat n))" using lt by simp
  ultimately have "drop (Suc (unat n)) xs = replicate (FILTER_DEPTH - Suc (unat n)) zero"
    using assms(1) by (simp add: section_ok_def)
  moreover have "list_all P (xs[unat n := x])" "length xs = FILTER_DEPTH"
    using assms(1,3) by (auto simp: section_ok_def list_all_iff dest: subsetD [OF set_update_subset_insert])
  ultimately show "section_ok zero P (n + 1) (xs[unat n := x])"
    using lt by (simp add: section_ok_def u)
qed

lemma unat_minus_one: "0 < unat (n :: 'a::len word) \<Longrightarrow> unat (n - 1) = unat n - 1"
proof -
  assume "0 < unat n"
  then have "1 \<le> n" by (simp add: word_le_nat_alt)
  then show ?thesis using unat_sub [of 1 n] by simp
qed

lemma section_remove:
  assumes "section_ok zero P n xs" "i < unat n" "P zero"
  defines "ys \<equiv> (xs[i := xs ! (unat n - 1)])[unat n - 1 := zero]"
  shows "swap_out zero xs i (unat (n - 1)) = Inr ys" "section_ok zero P (n - 1) ys"
    "take (unat (n - 1)) ys = (let l = take (unat n) xs in butlast (l[i := last l]))"
proof -
  have u: "unat (n - 1) = unat n - 1" using assms(2) by (intro unat_minus_one) simp
  have xs: "length xs = FILTER_DEPTH" "unat n \<le> length xs" "list_all P xs"
    "drop (unat n) xs = replicate (FILTER_DEPTH - unat n) zero"
    using assms(1) by (simp_all add: section_ok_def)
  show "swap_out zero xs i (unat (n - 1)) = Inr ys"
    using assms(2) xs(2) by (simp add: swap_out_def cread_Inr cwrite_Inr u ys_def)
  have "drop (unat n - 1) ys = zero # drop (unat n) xs"
    using assms(2) xs(2) by (intro nth_equalityI) (auto simp: ys_def nth_list_update nth_Cons split: nat.splits)
  moreover have "list_all P ys"
    using assms(2,3) xs by (auto simp: ys_def list_all_length nth_list_update)
  moreover have "FILTER_DEPTH - (unat n - 1) = Suc (FILTER_DEPTH - unat n)" using assms(2) xs by simp
  ultimately show "section_ok zero P (n - 1) ys"
    using assms(2) xs by (simp add: section_ok_def u ys_def)
  have "last (take (unat n) xs) = xs ! (unat n - 1)"
    using assms(2) xs(2) by (subst last_conv_nth) auto
  then show "take (unat (n - 1)) ys = (let l = take (unat n) xs in butlast (l[i := last l]))"
    using assms(2) xs(2) by (intro nth_equalityI) (auto simp: ys_def u Let_def nth_butlast nth_list_update)
qed


section \<open>The contract of a section\<close>

locale filter_section =
  fixes sec :: filter_section_t
    and inj :: "'a \<Rightarrow> entry"
    and zero :: 'a
    and P :: "'a \<Rightarrow> bool"
    and len :: "filter_t \<Rightarrow> 2 word"
    and items :: "filter_t \<Rightarrow> 'a list"
    and put :: "filter_t \<Rightarrow> 2 word \<Rightarrow> 'a list \<Rightarrow> filter_t"
  assumes ok_items: "filter_ok f \<Longrightarrow> section_ok zero P (len f) (items f)"
    and ok_put: "filter_ok f \<Longrightarrow> section_ok zero P n xs \<Longrightarrow> filter_ok (put f n xs)"
    and abs_get: "abs_filter f sec = map inj (take (unat (len f)) (items f))"
    and abs_put: "abs_filter (put f n xs) = (abs_filter f)(sec := map inj (take (unat n) xs))"
    and BW_put: "abs_BW (put f n xs) = abs_BW f"
    and P_zero: "P zero"
begin

lemma entries_bound: "filter_ok f \<Longrightarrow> length (abs_filter f sec) = unat (len f) \<and> unat (len f) \<le> FILTER_DEPTH"
  using ok_items [of f] by (simp add: abs_get section_ok_def)

lemma put_added:
  assumes "filter_ok f" "length (abs_filter f sec) < FILTER_DEPTH" "P x"
  defines "g \<equiv> put f (len f + 1) ((items f)[unat (len f) := x])"
  shows "filter_ok g \<and> abs_filter g = spec_add (abs_filter f) sec (inj x) \<and> abs_BW g = abs_BW f"
proof -
  have "unat (len f) \<noteq> FILTER_DEPTH" using assms(2) entries_bound [OF assms(1)] by simp
  with section_add [OF ok_items [OF assms(1)] this assms(3)] show ?thesis
    by (simp add: g_def ok_put [OF assms(1)] abs_put BW_put spec_add_def abs_get)
qed

lemma add_refines:
  assumes "filter_ok f" "parse (drop q buf) = Inr x" "P x" "length (abs_filter f sec) < FILTER_DEPTH"
  shows "\<exists>g. add_branch len items put parse f buf p q = Inr (g, buf, [], 0) \<and> filter_ok g \<and>
    abs_filter g = spec_add (abs_filter f) sec (inj x) \<and> abs_BW g = abs_BW f"
proof -
  have n: "unat (len f) \<noteq> FILTER_DEPTH" using assms(4) entries_bound [OF assms(1)] by simp
  then have "unat (len f) < length (items f)" using section_add(1) [OF ok_items [OF assms(1)] n assms(3)] by simp
  then show ?thesis using n assms put_added [OF assms(1,4,3)] by (simp add: add_branch_def cwrite_Inr)
qed

lemma add_outcome:
  assumes "filter_ok f" "\<forall>s x. parse s = Inr x \<longrightarrow> P x"
    and "add_branch len items put parse f buf p q = Inr (g, buf', out, r)"
  shows "filter_ok g \<and> (r = 0 \<or> r = - 1 \<and> g = f)"
proof (cases "unat (len f) = FILTER_DEPTH")
  case True
  with assms show ?thesis by (auto simp: add_branch_def edit_error_def cbind_eq_Inr)
next
  case False
  then have room: "length (abs_filter f sec) < FILTER_DEPTH" using entries_bound [OF assms(1)] by simp
  from False assms(3) obtain x where x: "parse (drop q buf) = Inr x" by (auto simp: add_branch_def cbind_eq_Inr)
  with assms(2) have "P x" by blast
  from add_refines [where parse = parse, OF assms(1) x this room, of p] assms(3) show ?thesis by auto
qed

lemma add_full:
  assumes "filter_ok f" "terminated (drop p buf)" "length (abs_filter f sec) = FILTER_DEPTH"
  shows "\<exists>out. add_branch len items put parse f buf p q = Inr (f, buf, out, - 1)"
  using assms entries_bound [OF assms(1)]
  by (simp add: add_branch_def edit_error_def com_admin_edit_add_print_full_msg_def percent_s_ok)

lemma put_removed:
  assumes "filter_ok f" "i < length (abs_filter f sec)"
  defines "g \<equiv> put f (len f - 1) ((items f)[i := items f ! (unat (len f) - 1), unat (len f) - 1 := zero])"
  shows "filter_ok g \<and> abs_filter g = spec_remove (abs_filter f) sec i \<and> abs_BW g = abs_BW f"
proof -
  have i: "i < unat (len f)" using assms(2) entries_bound [OF assms(1)] by simp
  have "take (unat (len f)) (items f) \<noteq> []" using i ok_items [OF assms(1)] by (auto simp: section_ok_def)
  with section_remove [OF ok_items [OF assms(1)] i P_zero] show ?thesis
    by (simp add: g_def ok_put [OF assms(1)] abs_put BW_put spec_remove_def abs_get Let_def
        map_butlast map_update last_map)
qed

lemma remove_refines:
  assumes "filter_ok f" "i < length (abs_filter f sec)"
  shows "\<exists>g. remove_branch zero len items put f buf q i = Inr (g, buf, [], 0) \<and> filter_ok g \<and>
    abs_filter g = spec_remove (abs_filter f) sec i \<and> abs_BW g = abs_BW f"
proof -
  have i: "i < unat (len f)" using assms(2) entries_bound [OF assms(1)] by simp
  with section_remove(1) [OF ok_items [OF assms(1)] i P_zero] put_removed [OF assms]
  show ?thesis by (simp add: remove_branch_def Let_def)
qed

lemma remove_outcome:
  assumes "filter_ok f" "remove_branch zero len items put f buf q i = Inr (g, buf', out, r)"
  shows "filter_ok g \<and> (r = 0 \<or> r = - 1 \<and> g = f)"
proof (cases "i < length (abs_filter f sec)")
  case True
  from remove_refines [OF assms(1) this, of buf q] assms(2) show ?thesis by auto
next
  case False
  with assms entries_bound [OF assms(1)] show ?thesis
    by (auto simp: remove_branch_def edit_error_def cbind_eq_Inr)
qed

lemma remove_missing:
  assumes "filter_ok f" "terminated (drop q buf)" "length (abs_filter f sec) \<le> i"
  shows "\<exists>out. remove_branch zero len items put f buf q i = Inr (f, buf, out, - 1)"
  using assms entries_bound [OF assms(1)]
  by (simp add: remove_branch_def edit_error_def com_admin_edit_remove_print_empty_msg_def percent_s_ok)

end

lemmas put_defs = put_srcMAC_def put_dstMAC_def put_srcIP_def put_dstIP_def put_srcPort_def put_dstPort_def put_dns_def

lemma dns_items_put: "dns_items (put_dns f n xs) = xs"
  by (simp add: dns_items_def put_dns_def zip_map_fst_snd)

interpretation src_mac: filter_section SrcMac MacE mac_zero wf_mac srcMACLength srcMACList put_srcMAC
  by unfold_locales (auto simp: filter_ok_def put_defs abs_filter_def abs_BW_def wf_zeros dns_items_def
      split: filter_section_t.splits)

interpretation dst_mac: filter_section DstMac MacE mac_zero wf_mac dstMACLength dstMACList put_dstMAC
  by unfold_locales (auto simp: filter_ok_def put_defs abs_filter_def abs_BW_def wf_zeros dns_items_def
      split: filter_section_t.splits)

interpretation src_ip: filter_section SrcIp IpE ip_zero wf_ip srcIPLength srcIPList put_srcIP
  by unfold_locales (auto simp: filter_ok_def put_defs abs_filter_def abs_BW_def wf_zeros dns_items_def
      split: filter_section_t.splits)

interpretation dst_ip: filter_section DstIp IpE ip_zero wf_ip dstIPLength dstIPList put_dstIP
  by unfold_locales (auto simp: filter_ok_def put_defs abs_filter_def abs_BW_def wf_zeros dns_items_def
      split: filter_section_t.splits)

interpretation src_port: filter_section SrcPort PortE port_zero "\<lambda>_. True" srcPortLength srcPortList put_srcPort
  by unfold_locales (auto simp: filter_ok_def put_defs abs_filter_def abs_BW_def dns_items_def
      split: filter_section_t.splits)

interpretation dst_port: filter_section DstPort PortE port_zero "\<lambda>_. True" dstPortLength dstPortList put_dstPort
  by unfold_locales (auto simp: filter_ok_def put_defs abs_filter_def abs_BW_def dns_items_def
      split: filter_section_t.splits)

interpretation dns_sec: filter_section Dns "\<lambda>(e, d). DnsE e d" "(0, dns_item_zero)" wf_dns_pair
    dnsLength dns_items put_dns
  by unfold_locales (auto simp: filter_ok_def dns_items_put abs_filter_def abs_BW_def wf_zeros
      put_dns_def section_ok_def dns_items_def zip_map_fst_snd split: filter_section_t.splits)

section \<open>The commands\<close>

definition section_name :: "filter_section_t \<Rightarrow> string" where
  "section_name sec =
     (case sec of SrcMac \<Rightarrow> ''srcmac'' | DstMac \<Rightarrow> ''dstmac'' | SrcIp \<Rightarrow> ''srcip'' | DstIp \<Rightarrow> ''dstip''
      | SrcPort \<Rightarrow> ''srcport'' | DstPort \<Rightarrow> ''dstport'' | Dns \<Rightarrow> ''dns'' | Reply \<Rightarrow> ''reply'')"

definition dns_entry :: "string \<Rightarrow> u8 \<times> dns_filter_item_t" where
  "dns_entry t = (word_of_nat (length t * 8), \<lparr>dns_c = map of_char t @ replicate (16 - length t) 0\<rparr>)"

text \<open>The entry a text denotes in a section: what the section's parser makes of it, if it returns.\<close>

definition returned :: "'a cres \<Rightarrow> 'a option" where
  "returned r = (case r of Inl _ \<Rightarrow> None | Inr x \<Rightarrow> Some x)"

definition content_entry :: "filter_section_t \<Rightarrow> string \<Rightarrow> entry option" where
  "content_entry sec t =
     (if sec \<in> {SrcMac, DstMac} then map_option MacE (returned (parse_mac (cstr t)))
      else if sec \<in> {SrcIp, DstIp} then map_option IpE (returned (parse_ip (cstr t)))
      else if sec \<in> {SrcPort, DstPort} then map_option PortE (returned (parse_port (cstr t)))
      else if sec = Dns \<and> length t \<le> 16 then Some (case dns_entry t of (e, d) \<Rightarrow> DnsE e d)
      else None)"

lemma strncmp_chain_ok:
  assumes "terminated arg" "list_all (\<lambda>(name, n, x). NUL \<notin> set name \<and> n = Suc (length name)) tbl"
  shows "strncmp_chain arg tbl = Inr (map_of (map (\<lambda>(name, n, x). (name, x)) tbl) (cstr_of arg))"
  using assms(2)
proof (induction tbl)
  case (Cons r tbl)
  obtain name n x where r: "r = (name, n, x)" by (cases r)
  with Cons assms(1) show ?case by (auto simp: strncmp_eq_literal)
qed simp

lemma edit_section_chain:
  assumes "terminated arg" "cstr_of arg = section_name sec"
  shows "strncmp_chain arg edit_sections = Inr (if sec = Reply then None else Some sec)"
    "strncmp_chain arg set_sections = Inr (Some sec)"
proof -
  have "strncmp_chain arg edit_sections =
      Inr (map_of (map (\<lambda>(name, n, x). (name, x)) edit_sections) (section_name sec))"
    using assms strncmp_chain_ok [OF assms(1), of edit_sections] by (simp add: edit_sections_def)
  then show "strncmp_chain arg edit_sections = Inr (if sec = Reply then None else Some sec)"
    by (cases sec) (simp_all add: edit_sections_def section_name_def)
  have "strncmp_chain arg set_sections =
      Inr (map_of (map (\<lambda>(name, n, x). (name, x)) set_sections) (section_name sec))"
    using assms strncmp_chain_ok [OF assms(1), of set_sections] by (simp add: set_sections_def edit_sections_def)
  then show "strncmp_chain arg set_sections = Inr (Some sec)"
    by (cases sec) (simp_all add: set_sections_def edit_sections_def section_name_def)
qed

lemma section_name_chars: "\<forall>c \<in> set (section_name sec). \<not> isspace c" "section_name sec \<noteq> []"
  by (cases sec; simp add: section_name_def isspace_def)+

text \<open>\<open>splitstr\<close> on \<open>"section content"\<close>.\<close>

lemma split_arg:
  assumes "terminated (drop p buf)" "cstr_of (drop p buf) = section_name sec @ sp # content" "isspace sp"
  obtains buf' q c where "cread buf p = Inr c" "c \<noteq> NUL" "splitstr buf p = Inr (buf', Some q)"
    "terminated (drop p buf')" "cstr_of (drop p buf') = section_name sec"
    "terminated (drop q buf')" "cstr_of (drop q buf') = content" "length buf' = length buf"
proof -
  let ?cs = "cstr_of (drop p buf)"
  have tw: "takeWhile (\<lambda>c. \<not> isspace c) ?cs = section_name sec"
    using assms(2,3) section_name_chars(1) by (simp add: takeWhile_append2)
  obtain rest where buf: "drop p buf = ?cs @ NUL # rest" using assms(1) by (rule terminated_split)
  obtain c cs where c: "section_name sec = c # cs" using section_name_chars(2) by (cases "section_name sec") auto
  then have "drop p buf \<noteq> []" "hd (drop p buf) = c" by (subst buf, simp add: assms(2))+
  then have "p < length buf" "buf ! p = c" by (simp_all add: hd_drop_conv_nth)
  moreover have "NUL \<notin> set ?cs" by (rule NUL_cstr_of)
  then have "c \<noteq> NUL" using assms(2) c by auto
  ultimately have "cread buf p = Inr c" "c \<noteq> NUL" by (simp_all add: cread_Inr)
  moreover have "takeWhile (\<lambda>c. \<not> isspace c) ?cs \<noteq> ?cs" unfolding tw using assms(2) by simp
  note splitstr_ok(2) [OF assms(1) this, unfolded tw]
  ultimately show thesis using assms(2) that by auto
qed


text \<open>The DNS branches are the generic ones on pairs of an end position and an item.\<close>

lemma dns_branch_facts:
  assumes "filter_ok f"
  shows "length (dnsList f) = FILTER_DEPTH" "length (dnsItemEndPtr f) = FILTER_DEPTH"
    "length (dns_items f) = FILTER_DEPTH"
  using assms by (auto simp: filter_ok_def section_ok_def dns_items_def)

lemma put_dns_update:
  assumes "length (dnsItemEndPtr f) = length (dnsList f)"
  shows "put_dns f n ((dns_items f)[i := (e, d)]) =
    f\<lparr>dnsList := (dnsList f)[i := d], dnsItemEndPtr := (dnsItemEndPtr f)[i := e], dnsLength := n\<rparr>"
  using assms by (simp add: put_dns_def dns_items_def map_update)

lemma unused_slot:
  assumes "section_ok zero P n xs" "unat n < FILTER_DEPTH"
  shows "xs ! unat n = zero"
proof -
  have "drop (unat n) xs = replicate (FILTER_DEPTH - unat n) zero" "unat n < length xs"
    using assms by (simp_all add: section_ok_def)
  then show ?thesis using assms(2) hd_drop_conv_nth [of "unat n" xs] by simp
qed

lemma wf_dns_entry: "length t \<le> 16 \<Longrightarrow> wf_dns_pair (dns_entry t)"
  by (simp add: wf_dns_pair_def dns_entry_def wf_dns_item_def unsigned_of_nat take_bit_eq_mod
      del: of_nat_mult of_nat_numeral)

lemma add_dns_stored:
  assumes ok: "filter_ok f" and n: "strnlen (drop q buf) 17 = Inr n" "n \<le> 16"
    and room: "length (abs_filter f Dns) < FILTER_DEPTH"
  shows "\<exists>g. add_dns_branch f buf p q = Inr (g, buf, [], 0) \<and> filter_ok g \<and>
    abs_filter g = spec_add (abs_filter f) Dns (case dns_entry (take n (drop q buf)) of (e, d) \<Rightarrow> DnsE e d) \<and>
    abs_BW g = abs_BW f"
proof -
  define t where "t = take n (drop q buf)"
  have lt: "length t = n" using strnlen_prefix(2) [OF n(1)] by (simp add: t_def)
  define c where "c = map (of_char :: char \<Rightarrow> u8) t @ replicate (16 - length t) 0"
  define e where "e = (word_of_nat (length t * 8) :: u8)"
  have ed: "dns_entry t = (e, \<lparr>dns_c = c\<rparr>)" by (simp add: dns_entry_def e_def c_def)
  let ?i = "unat (dnsLength f)"
  let ?g = "put_dns f (dnsLength f + 1) ((dns_items f)[?i := (e, \<lparr>dns_c = c\<rparr>)])"
  have i: "?i < FILTER_DEPTH" using room dns_sec.entries_bound [OF ok] by simp
  note len = dns_branch_facts [OF ok]
  have "dns_items f ! ?i = (0, dns_item_zero)" using dns_sec.ok_items [OF ok] i by (rule unused_slot)
  then have slot: "dnsList f ! ?i = dns_item_zero" using i len by (simp add: dns_items_def)
  have blit: "cblit (dns_c dns_item_zero) 0 (map of_char t) = Inr c"
    using n(2) lt by (simp add: cblit_def dns_item_zero_def c_def)
  have "add_dns_branch f buf p q = Inr (?g, buf, [], 0)"
    using i len n(2) unfolding add_dns_branch_def Let_def n(1) cbind_Inr t_def [symmetric]
    by (simp add: cread_Inr cwrite_Inr put_dns_update slot blit e_def lt)
  moreover have "wf_dns_pair (e, \<lparr>dns_c = c\<rparr>)" using wf_dns_entry [of t] lt n(2) ed by simp
  ultimately show ?thesis
    using dns_sec.put_added [OF ok room, of "(e, \<lparr>dns_c = c\<rparr>)"] ed by (simp add: t_def)
qed

lemma add_dns_refines:
  assumes "filter_ok f" "terminated (drop q buf)" "cstr_of (drop q buf) = t" "length t \<le> 16"
    and "length (abs_filter f Dns) < FILTER_DEPTH"
  shows "\<exists>g. add_dns_branch f buf p q = Inr (g, buf, [], 0) \<and> filter_ok g \<and>
    abs_filter g = spec_add (abs_filter f) Dns (case dns_entry t of (e, d) \<Rightarrow> DnsE e d) \<and> abs_BW g = abs_BW f"
proof -
  have "strnlen (drop q buf) 17 = Inr (length t)" "take (length t) (drop q buf) = t"
    using take_strnlen [OF assms(2), of 17] assms(3,4) by (simp_all add: min_absorb2)
  with add_dns_stored [OF assms(1) this(1) assms(4,5)] show ?thesis by simp
qed

lemma add_dns_outcome:
  assumes "filter_ok f" "add_dns_branch f buf p q = Inr (g, buf', out, r)"
  shows "filter_ok g \<and> (r = 0 \<or> r = - 1 \<and> g = f)"
proof (cases "unat (dnsLength f) = FILTER_DEPTH")
  case True
  with assms show ?thesis by (auto simp: add_dns_branch_def edit_error_def cbind_eq_Inr Let_def)
next
  case False
  then have room: "length (abs_filter f Dns) < FILTER_DEPTH" using dns_sec.entries_bound [OF assms(1)] by simp
  from False assms(2) obtain n where n: "strnlen (drop q buf) 17 = Inr n"
    by (auto simp: add_dns_branch_def cbind_eq_Inr Let_def)
  show ?thesis
  proof (cases "n \<le> 16")
    case True
    from add_dns_stored [OF assms(1) n this room, of p] assms(2) show ?thesis by auto
  next
    case far: False
    with False n assms show ?thesis by (auto simp: add_dns_branch_def edit_error_def cbind_eq_Inr Let_def)
  qed
qed

lemma remove_dns_refines:
  assumes ok: "filter_ok f" and i: "i < length (abs_filter f Dns)"
  shows "\<exists>g. remove_dns_branch f buf q i = Inr (g, buf, [], 0) \<and> filter_ok g \<and>
    abs_filter g = spec_remove (abs_filter f) Dns i \<and> abs_BW g = abs_BW f"
proof -
  let ?k = "unat (dnsLength f) - 1"
  let ?g = "put_dns f (dnsLength f - 1) ((dns_items f)[i := dns_items f ! ?k, ?k := (0, dns_item_zero)])"
  note len = dns_branch_facts [OF ok]
  have b: "i < unat (dnsLength f)" "unat (dnsLength f) \<le> FILTER_DEPTH" using i dns_sec.entries_bound [OF ok] by auto
  then have k: "?k < FILTER_DEPTH" "i < FILTER_DEPTH" "unat (dnsLength f - 1) = ?k" by (auto simp: unat_minus_one)
  have "?g = f\<lparr>dnsList := (dnsList f)[i := dnsList f ! ?k, ?k := dns_item_zero],
      dnsItemEndPtr := (dnsItemEndPtr f)[i := dnsItemEndPtr f ! ?k, ?k := 0], dnsLength := dnsLength f - 1\<rparr>"
    using k len by (simp add: put_dns_def dns_items_def map_update)
  then have "remove_dns_branch f buf q i = Inr (?g, buf, [], 0)"
    using b k len by (simp add: remove_dns_branch_def Let_def cread_Inr cwrite_Inr)
  then show ?thesis using dns_sec.put_removed [OF ok i] by simp
qed


lemma add_section_full:
  assumes "filter_ok f" "terminated (drop p buf)" "sec \<noteq> Reply" "length (abs_filter f sec) = FILTER_DEPTH"
  shows "\<exists>out. add_section (Some sec) f buf p q = Inr (f, buf, out, - 1)"
proof (cases "sec = Dns")
  case True
  with assms dns_sec.entries_bound [OF assms(1)] show ?thesis
    by (simp add: add_section_def add_dns_branch_def edit_error_def com_admin_edit_add_print_full_msg_def percent_s_ok)
next
  case False
  note full = src_mac.add_full dst_mac.add_full src_ip.add_full dst_ip.add_full src_port.add_full dst_port.add_full
  from False show ?thesis
    using assms full [OF assms(1,2)] by (cases sec) (simp_all add: add_section_def)
qed

lemma add_section_ok:
  assumes "filter_ok f" "terminated (drop q buf)" "cstr_of (drop q buf) = content"
    and "length (abs_filter f sec) < FILTER_DEPTH" "content_entry sec content = Some e"
  shows "\<exists>g. add_section (Some sec) f buf p q = Inr (g, buf, [], 0) \<and> filter_ok g \<and>
    abs_filter g = spec_add (abs_filter f) sec e \<and> abs_BW g = abs_BW f"
proof -
  have "NUL \<notin> set content" using NUL_cstr_of [of "drop q buf"] assms(3) by simp
  then have "cstr_of (drop q buf) = cstr_of (cstr content)" using assms(3) by (simp add: cstr_of_cstr)
  note parse = parse_text [OF assms(2) _ this, simplified]
  consider (mac) m where "sec \<in> {SrcMac, DstMac}" "parse_mac (drop q buf) = Inr m" "wf_mac m" "e = MacE m"
    | (ip) a where "sec \<in> {SrcIp, DstIp}" "parse_ip (drop q buf) = Inr a" "wf_ip a" "e = IpE a"
    | (port) n where "sec \<in> {SrcPort, DstPort}" "parse_port (drop q buf) = Inr n" "e = PortE n"
    | (dns) "sec = Dns" "length content \<le> 16" "e = (case dns_entry content of (e, d) \<Rightarrow> DnsE e d)"
    using assms(5) parse_mac_results [of "drop q buf"] parse_ip_results [of "drop q buf"]
    by (auto simp: content_entry_def returned_def parse split: if_splits sum.splits)
  then show ?thesis
  proof cases
    case mac
    then show ?thesis
      using src_mac.add_refines [of f parse_mac q buf m p] dst_mac.add_refines [of f parse_mac q buf m p] assms(1,4)
      by (auto simp: add_section_def)
  next
    case ip
    then show ?thesis
      using src_ip.add_refines [of f parse_ip q buf a p] dst_ip.add_refines [of f parse_ip q buf a p] assms(1,4)
      by (auto simp: add_section_def)
  next
    case port
    then show ?thesis
      using src_port.add_refines [of f parse_port q buf n p] dst_port.add_refines [of f parse_port q buf n p] assms(1,4)
      by (auto simp: add_section_def)
  next
    case dns
    then show ?thesis
      using add_dns_refines [OF assms(1-3) dns(2)] assms(4) by (auto simp: add_section_def)
  qed
qed

text \<open>Adding an address to a section with room runs outside the address exactly if the text makes the parser store too often.\<close>

definition overruns :: "filter_section_t \<Rightarrow> string \<Rightarrow> bool" where
  "overruns sec content \<longleftrightarrow>
     (case sec of
        SrcMac \<Rightarrow> 17 \<le> length content \<and> 6 < field_stores is_hex CHR '':'' (take 18 content)
      | DstMac \<Rightarrow> 17 \<le> length content \<and> 6 < field_stores is_hex CHR '':'' (take 18 content)
      | SrcIp \<Rightarrow> 7 \<le> length content \<and> 4 < field_stores is_digit CHR ''.'' (take 16 content)
      | DstIp \<Rightarrow> 7 \<le> length content \<and> 4 < field_stores is_digit CHR ''.'' (take 16 content)
      | _ \<Rightarrow> False)"

lemma add_branch_faults:
  assumes "faults_iff c (parse (drop q buf))" "unat (len f) < FILTER_DEPTH" "length (items f) = FILTER_DEPTH"
  shows "faults_iff c (add_branch len items put parse f buf p q)"
  using assms by (auto simp: add_branch_def faults_iff_def cwrite_Inr split: if_splits)

lemma add_section_faults:
  assumes "filter_ok f" "terminated (drop q buf)" "cstr_of (drop q buf) = content" "sec \<notin> {Dns, Reply}"
    and "length (abs_filter f sec) < FILTER_DEPTH"
  shows "faults_iff (overruns sec content) (add_section (Some sec) f buf p q)"
proof -
  note parse = parse_mac_faults [OF assms(2)] parse_ip_faults [OF assms(2)]
  have port: "faults_iff False (parse_port (drop q buf))" using parse_port_total [OF assms(2)] by (auto simp: faults_iff_def)
  have lens: "length (srcMACList f) = FILTER_DEPTH" "length (dstMACList f) = FILTER_DEPTH" "length (srcIPList f) = FILTER_DEPTH"
    "length (dstIPList f) = FILTER_DEPTH" "length (srcPortList f) = FILTER_DEPTH" "length (dstPortList f) = FILTER_DEPTH"
    using assms(1) by (simp_all add: filter_ok_def section_ok_def)
  show ?thesis
    using assms(4,5) parse port lens assms(3)
    by (cases sec) (auto simp: add_section_def overruns_def abs_filter_def intro!: add_branch_faults)
qed

lemma add_section_dns_long:
  assumes "filter_ok f" "terminated (drop q buf)" "16 < length (cstr_of (drop q buf))" "length (abs_filter f Dns) < FILTER_DEPTH"
  shows "\<exists>out. add_section (Some Dns) f buf p q = Inr (f, buf, out, - 1)"
  using assms dns_sec.entries_bound [OF assms(1)]
  by (simp add: add_section_def add_dns_branch_def strnlen_ok edit_error_def
      com_admin_edit_add_print_dns_too_long_msg_def percent_s_ok)

lemma com_admin_edit_add_section:
  assumes "terminated (drop p buf)" "cstr_of (drop p buf) = section_name sec @ sp # content" "isspace sp"
    and "sec \<noteq> Reply"
  obtains buf' q where "com_admin_edit_add f buf p = add_section (Some sec) f buf' p q"
    "terminated (drop p buf')" "terminated (drop q buf')" "cstr_of (drop q buf') = content"
proof -
  obtain buf' q c where s: "cread buf p = Inr c" "c \<noteq> NUL" "splitstr buf p = Inr (buf', Some q)"
    "terminated (drop p buf')" "cstr_of (drop p buf') = section_name sec"
    and q: "terminated (drop q buf')" "cstr_of (drop q buf') = content"
    using split_arg [OF assms(1-3)] .
  have "com_admin_edit_add f buf p = add_section (Some sec) f buf' p q"
    using edit_section_chain(1) [OF s(4,5)] s(1-3) assms(4) by (simp add: com_admin_edit_add_def)
  with s(4) q that show thesis by blast
qed

lemma remove_section_ok:
  assumes "filter_ok f" "terminated (drop q buf)" "sec \<noteq> Reply"
  shows "i < length (abs_filter f sec) \<Longrightarrow> \<exists>g. remove_section (Some sec) f buf p q i = Inr (g, buf, [], 0) \<and>
      filter_ok g \<and> abs_filter g = spec_remove (abs_filter f) sec i \<and> abs_BW g = abs_BW f"
    and "length (abs_filter f sec) \<le> i \<Longrightarrow> \<exists>out. remove_section (Some sec) f buf p q i = Inr (f, buf, out, - 1)"
proof -
  note ok = src_mac.remove_refines dst_mac.remove_refines src_ip.remove_refines dst_ip.remove_refines
    src_port.remove_refines dst_port.remove_refines remove_dns_refines
  show "\<exists>g. remove_section (Some sec) f buf p q i = Inr (g, buf, [], 0) \<and> filter_ok g \<and>
      abs_filter g = spec_remove (abs_filter f) sec i \<and> abs_BW g = abs_BW f" if "i < length (abs_filter f sec)"
    using that assms(3) ok [OF assms(1)] by (cases sec) (simp_all add: remove_section_def)
  note missing = src_mac.remove_missing dst_mac.remove_missing src_ip.remove_missing dst_ip.remove_missing
    src_port.remove_missing dst_port.remove_missing
  show "\<exists>out. remove_section (Some sec) f buf p q i = Inr (f, buf, out, - 1)" if "length (abs_filter f sec) \<le> i"
  proof (cases "sec = Dns")
    case True
    with that assms(2) dns_sec.entries_bound [OF assms(1)] show ?thesis
      by (simp add: remove_section_def remove_dns_branch_def edit_error_def
          com_admin_edit_remove_print_empty_msg_def percent_s_ok)
  next
    case False
    then show ?thesis
      using that assms(3) missing [OF assms(1,2)] by (cases sec) (simp_all add: remove_section_def)
  qed
qed

lemma com_admin_edit_remove_section:
  assumes "terminated (drop p buf)" "cstr_of (drop p buf) = section_name sec @ sp # [d]" "isspace sp"
    and "sec \<noteq> Reply" "d \<in> {CHR ''0'', CHR ''1''}"
  obtains buf' q where "terminated (drop q buf')"
    "com_admin_edit_remove f buf p = remove_section (Some sec) f buf' p q (if d = CHR ''0'' then 0 else 1)"
proof -
  obtain buf' q c where s: "cread buf p = Inr c" "c \<noteq> NUL" "splitstr buf p = Inr (buf', Some q)"
    "terminated (drop p buf')" "cstr_of (drop p buf') = section_name sec"
    and q: "terminated (drop q buf')" "cstr_of (drop q buf') = [d]"
    using split_arg [OF assms(1-3)] .
  have n: "strnlen (drop q buf') 2 = Inr 1" using strnlen_ok [OF q(1), of 2] q(2) by simp
  obtain rest where "drop q buf' = [d] @ NUL # rest" using terminated_split [OF q(1)] q(2) by metis
  then have "drop q buf' \<noteq> []" "hd (drop q buf') = d" by simp_all
  then have d: "cread buf' q = Inr d" by (simp add: cread_Inr hd_drop_conv_nth)
  have "com_admin_edit_remove f buf p = remove_section (Some sec) f buf' p q (if d = CHR ''0'' then 0 else 1)"
    using edit_section_chain(1) [OF s(4,5)] s(1-3) n d assms(4,5)
    by (auto simp: com_admin_edit_remove_def in_range_def FILTER_DEPTH_def)
  with q that show thesis by blast
qed

lemma set_BW_abs:
  "abs_BW (set_BW sec b f) = (abs_BW f)(sec := b)" "abs_filter (set_BW sec b f) = abs_filter f"
  "filter_ok (set_BW sec b f) = filter_ok f"
  by (cases sec; auto simp: set_BW_def abs_BW_def abs_filter_def filter_ok_def dns_items_def fun_eq_iff
      split: filter_section_t.splits)+

lemma set_values_chain:
  assumes "terminated s"
  shows "strncmp_chain s set_values = Inr (map_of [(''black'', 0), (''payload'', 0), (''white'', 1), (''dns'', 1)] (cstr_of s))"
  using strncmp_chain_ok [OF assms, of set_values] by (simp add: set_values_def)

lemma com_admin_edit_set_section:
  assumes "terminated (drop p buf)" "cstr_of (drop p buf) = section_name sec @ sp # value" "isspace sp"
    and "map_of [(''black'', 0), (''payload'', 0), (''white'', 1), (''dns'', 1)] value = Some b"
  shows "\<exists>buf'. com_admin_edit_set f buf p = Inr (set_BW sec (ucast (b :: u8)) f, buf', [], 0)"
proof -
  obtain buf' q c where s: "cread buf p = Inr c" "c \<noteq> NUL" "splitstr buf p = Inr (buf', Some q)"
    "terminated (drop p buf')" "cstr_of (drop p buf') = section_name sec"
    and q: "terminated (drop q buf')" "cstr_of (drop q buf') = value"
    using split_arg [OF assms(1-3)] .
  then show ?thesis
    using edit_section_chain(2) [OF s(4,5)] set_values_chain [OF q(1)] assms(4)
    by (simp add: com_admin_edit_set_def del: map_of.simps)
qed


section \<open>Every command keeps the invariant, whatever its argument\<close>

definition keeps :: "filter_t \<Rightarrow> edit_outcome cres \<Rightarrow> bool" where
  "keeps f res \<longleftrightarrow> (\<forall>g buf out r. res = Inr (g, buf, out, r) \<longrightarrow> filter_ok g \<and> (r = 0 \<or> r = - 1 \<and> g = f))"

lemma keeps_error: "filter_ok f \<Longrightarrow> keeps f (edit_error f buf msg)"
  by (auto simp: keeps_def edit_error_def cbind_eq_Inr)

lemma keeps_cbind: "(\<And>x. m = Inr x \<Longrightarrow> keeps f (k x)) \<Longrightarrow> keeps f (cbind m k)"
  by (auto simp: keeps_def cbind_eq_Inr)

lemma keeps_branches:
  assumes "filter_ok f"
  shows "keeps f (add_section sec f buf p q)" "keeps f (remove_section sec f buf p q i)"
proof -
  have parse: "\<forall>s x. parse_mac s = Inr x \<longrightarrow> wf_mac x" "\<forall>s x. parse_ip s = Inr x \<longrightarrow> wf_ip x"
    "\<forall>s x. parse_port s = Inr x \<longrightarrow> True" using parse_mac_results parse_ip_results by auto
  note add = src_mac.add_outcome [OF assms parse(1)] dst_mac.add_outcome [OF assms parse(1)]
    src_ip.add_outcome [OF assms parse(2)] dst_ip.add_outcome [OF assms parse(2)]
    src_port.add_outcome [OF assms parse(3)] dst_port.add_outcome [OF assms parse(3)] add_dns_outcome [OF assms]
  have err: "keeps f (edit_error f buf msg)" for buf msg by (rule keeps_error [OF assms])
  show "keeps f (add_section sec f buf p q)"
    unfolding add_section_def
    by (auto simp: err split: option.split filter_section_t.split) (auto simp: keeps_def dest: add)
  have dns: "filter_ok g \<and> (r = 0 \<or> r = - 1 \<and> g = f)"
    if "remove_dns_branch f buf q i = Inr (g, buf', out, r)" for g buf' out r
  proof (cases "i < length (abs_filter f Dns)")
    case True
    from remove_dns_refines [OF assms this, of buf q] that show ?thesis by auto
  next
    case False
    with that assms dns_sec.entries_bound [OF assms] show ?thesis
      by (auto simp: remove_dns_branch_def edit_error_def cbind_eq_Inr)
  qed
  note rem = src_mac.remove_outcome dst_mac.remove_outcome src_ip.remove_outcome dst_ip.remove_outcome
    src_port.remove_outcome dst_port.remove_outcome
  show "keeps f (remove_section sec f buf p q i)"
    unfolding remove_section_def
    by (auto simp: err split: option.split filter_section_t.split) (auto simp: keeps_def dest: rem [OF assms] dns)
qed

lemma keeps_commands:
  assumes "filter_ok f"
  shows "keeps f (com_admin_edit_add f buf p)" "keeps f (com_admin_edit_remove f buf p)" "keeps f (com_admin_edit_set f buf p)"
proof -
  note step = keeps_cbind keeps_error [OF assms] keeps_branches [OF assms]
  show "keeps f (com_admin_edit_add f buf p)" unfolding com_admin_edit_add_def
    by (auto intro!: step split: if_split option.split)
  show "keeps f (com_admin_edit_remove f buf p)" unfolding com_admin_edit_remove_def Let_def
    by (auto intro!: step split: if_split option.split)
  have "keeps f (Inr (set_BW s b f, buf', [], 0))" for s b buf'
    using assms by (simp add: keeps_def set_BW_abs(3))
  then show "keeps f (com_admin_edit_set f buf p)" unfolding com_admin_edit_set_def
    by (auto intro!: step split: if_split option.split)
qed

text \<open>The configurations an operator can reach by editing.\<close>

inductive edit_step :: "filter_t \<Rightarrow> filter_t \<Rightarrow> bool" where
  edit_add: "com_admin_edit_add f buf p = Inr (g, buf', out, r) \<Longrightarrow> edit_step f g"
| edit_remove: "com_admin_edit_remove f buf p = Inr (g, buf', out, r) \<Longrightarrow> edit_step f g"
| edit_set: "com_admin_edit_set f buf p = Inr (g, buf', out, r) \<Longrightarrow> edit_step f g"

inductive_cases edit_stepE: "edit_step f g"

lemma edit_step_ok: "edit_step f g \<Longrightarrow> filter_ok f \<Longrightarrow> filter_ok g"
  by (elim edit_stepE) (use keeps_commands [of f] in \<open>auto simp: keeps_def\<close>)

lemma edit_reachable_ok: "edit_step\<^sup>*\<^sup>* f g \<Longrightarrow> filter_ok f \<Longrightarrow> filter_ok g"
  by (induction rule: rtranclp_induct) (auto intro: edit_step_ok)

end
