(* ===== verification/Fpga_Print.thy ===== *)
theory Fpga_Print
  imports Edit_Refinement
begin

text \<open>
  Showing a configuration, \<open>print_filter_configuration\<close> of \<^verbatim>\<open>sw/admin-cli/fpga-filter.hh\<close>: the text
  written to the standard output, or the fault of reading behind one of the arrays.
\<close>

section \<open>The printed configuration\<close>

definition print_filter_BW :: "1 word \<Rightarrow> string" where
  "print_filter_BW bw = (if bw \<noteq> 0 then TAB # ''Whitelisted'' else TAB # ''Blacklisted'')"

definition print_filter_None_BW :: "1 word \<Rightarrow> string" where
  "print_filter_None_BW bw = (if bw \<noteq> 0 then TAB # ''Block ALL'' else TAB # ''Allow ALL'')"

text \<open>\<open>for (unsigned i = 0; i < n; i++)\<close> over the items of an array.\<close>

definition print_items :: "('a \<Rightarrow> string cres) \<Rightarrow> 'a list \<Rightarrow> nat \<Rightarrow> string cres" where
  "print_items show xs n =
     cbind (cmap (\<lambda>i. cbind (cread xs i) show) [0..<n]) (\<lambda>ss. Inr (concat ss))"

definition print_section ::
  "string \<Rightarrow> 2 word \<Rightarrow> 1 word \<Rightarrow> ('a \<Rightarrow> string cres) \<Rightarrow> 'a list \<Rightarrow> string \<Rightarrow> string cres" where
  "print_section title len bw show xs final =
     (if len > 0
      then cbind (print_items show xs (unat len)) (\<lambda>s.
           Inr (title @ NL # print_filter_BW bw @ NL # s @ final))
      else Inr (title @ NL # print_filter_None_BW bw @ [NL]))"

definition print_dns_item :: "u8 \<times> dns_filter_item_t \<Rightarrow> string cres" where
  "print_dns_item x =
     (let l = (unat (fst x) + 7) div 8
      in cbind (cmap (\<lambda>j. cread (dns_c (snd x)) j) [0..<l]) (\<lambda>cs.
         Inr (TAB # ''bits = '' @ dec (unat (fst x)) @ '' ['' @ map (\<lambda>c. char_of (unat c)) cs @ '']'' @ [NL])))"

definition print_filter_configuration :: "filter_t \<Rightarrow> string cres" where
  "print_filter_configuration f =
     (let mac = \<lambda>m. Inr (print_MAC m @ [NL]); ip = \<lambda>a. Inr (print_IP a @ [NL]);
          prt = \<lambda>q. Inr (TAB # dec (unat (port q)))
      in
      cbind (print_section ''src MAC'' (srcMACLength f) (srcMACBW f) mac (srcMACList f) []) (\<lambda>s1.
      cbind (print_section ''dst MAC'' (dstMACLength f) (dstMACBW f) mac (dstMACList f) []) (\<lambda>s2.
      cbind (print_section ''src IP'' (srcIPLength f) (srcIPBW f) ip (srcIPList f) []) (\<lambda>s3.
      cbind (print_section ''dst IP'' (dstIPLength f) (dstIPBW f) ip (dstIPList f) []) (\<lambda>s4.
      cbind (print_section ''src UDP port'' (srcPortLength f) (srcPortBW f) prt (srcPortList f) [NL]) (\<lambda>s5.
      cbind (print_section ''dst UDP port'' (dstPortLength f) (dstPortBW f) prt (dstPortList f) [NL]) (\<lambda>s6.
      cbind (print_section ''DNS string'' (dnsLength f) (dnsBW f) print_dns_item (dns_items f) []) (\<lambda>s7.
      Inr (''max filter item per section = '' @ dec FILTER_DEPTH @ NL # s1 @ s2 @ s3 @ s4 @ s5 @ s6 @ s7 @
           ''Reply Type'' @ NL #
           (if replyType f = 0 then TAB # ''Man-in-the-Middle Reply (Same Payload)'' @ [NL]
            else TAB # ''Man-on-the-Side Reply (DNS Name Error Response)'' @ [NL]))))))))))"

section \<open>When printing reads behind an array\<close>

lemma length_cases: "len = 0 \<or> len = 1 \<or> len = 2 \<or> len = (3 :: 2 word)"
proof -
  have "unat len < 4" using unsigned_less [of len, where 'a = nat] by simp
  then have "unat len = unat (0 :: 2 word) \<or> unat len = unat (1 :: 2 word) \<or> unat len = unat (2 :: 2 word) \<or> unat len = unat (3 :: 2 word)"
    by auto
  then show ?thesis unfolding word_unat_eq_iff .
qed

text \<open>A section reads behind its array exactly if its length is 3 or one of its items reads outside its own.\<close>

lemma print_section_faults:
  assumes "length xs = FILTER_DEPTH" "\<And>i. i < FILTER_DEPTH \<Longrightarrow> faults_iff (c i) (show (xs ! i))"
  shows "faults_iff (len = 3 \<or> (\<exists>i<unat len. c i)) (print_section title len bw show xs final)"
proof -
  let ?d = "\<lambda>i. length xs \<le> i \<or> c i"
  have "faults_iff (?d i) (cbind (cread xs i) show)" for i
    using assms by (auto simp: faults_iff_def cread_def split: if_splits)
  then have "faults_iff (\<exists>i\<in>set [0..<unat len]. ?d i) (cmap (\<lambda>i. cbind (cread xs i) show) [0..<unat len])"
    by (intro faults_iff_cmap)
  moreover have "(\<exists>i\<in>set [0..<unat len]. ?d i) \<longleftrightarrow> len = 3 \<or> (\<exists>i<unat len. c i)"
    using length_cases [of len] assms(1) by (auto simp: FILTER_DEPTH_def intro: bexI [of _ 2])
  ultimately have "faults_iff ((len = 3 \<or> (\<exists>i<unat len. c i)) \<or> False) (print_items show xs (unat len))"
    unfolding print_items_def by (intro faults_iff_cbind faults_iff_Inr) simp
  then show ?thesis
    by (cases "len = 0") (auto simp: print_section_def faults_iff_def word_gt_0 split: if_splits)
qed

lemma print_dns_item_faults:
  assumes "wf_dns_item (snd x)"
  shows "faults_iff (128 < unat (fst x)) (print_dns_item x)"
proof -
  let ?n = "(unat (fst x) + 7) div 8"
  have "faults_iff (\<exists>j\<in>set [0..<?n]. 16 \<le> j) (cmap (\<lambda>j. cread (dns_c (snd x)) j) [0..<?n])"
    using faults_iff_cread [of "dns_c (snd x)"] assms by (intro faults_iff_cmap) (simp add: wf_dns_item_def)
  moreover have "(\<exists>j\<in>set [0..<?n]. 16 \<le> j) \<longleftrightarrow> 128 < unat (fst x)"
  proof -
    have "(\<exists>j\<in>set [0..<?n]. 16 \<le> j) \<longleftrightarrow> 16 < ?n" by (auto intro: bexI [of _ 16])
    then show ?thesis by linarith
  qed
  ultimately have "faults_iff (128 < unat (fst x) \<or> False) (print_dns_item x)"
    unfolding print_dns_item_def Let_def by (intro faults_iff_cbind faults_iff_Inr) simp
  then show ?thesis by simp
qed

lemma print_filter_configuration_faults:
  assumes "wf_filter f"
  shows "faults_iff (3 \<in> {srcMACLength f, dstMACLength f, srcIPLength f, dstIPLength f, srcPortLength f, dstPortLength f, dnsLength f} \<or>
      (\<exists>i<unat (dnsLength f). 128 < unat (dnsItemEndPtr f ! i))) (print_filter_configuration f)"
proof -
  note wf = assms [unfolded wf_filter_def wf_array_def]
  have plain: "faults_iff (len = 3) (print_section title len bw (\<lambda>x. Inr (h x)) xs final)"
    if "length xs = FILTER_DEPTH" for title len bw h final and xs :: "'b list"
    using print_section_faults [OF that, of "\<lambda>_. False"] by (simp add: faults_iff_Inr)
  have "faults_iff (128 < unat (dnsItemEndPtr f ! i)) (print_dns_item (dns_items f ! i))" if "i < FILTER_DEPTH" for i
    using print_dns_item_faults [of "dns_items f ! i"] wf that by (simp add: dns_items_def list_all_length)
  then have dns: "faults_iff (dnsLength f = 3 \<or> (\<exists>i<unat (dnsLength f). 128 < unat (dnsItemEndPtr f ! i)))
      (print_section ''DNS string'' (dnsLength f) (dnsBW f) print_dns_item (dns_items f) [])"
    using wf by (intro print_section_faults) (simp_all add: dns_items_def)
  have "faults_iff (srcMACLength f = 3 \<or> dstMACLength f = 3 \<or> srcIPLength f = 3 \<or> dstIPLength f = 3 \<or> srcPortLength f = 3 \<or>
      dstPortLength f = 3 \<or> (dnsLength f = 3 \<or> (\<exists>i<unat (dnsLength f). 128 < unat (dnsItemEndPtr f ! i))) \<or> False)
      (print_filter_configuration f)"
    unfolding print_filter_configuration_def Let_def
    using wf by (intro faults_iff_cbind plain dns faults_iff_Inr) simp_all
  then show ?thesis by (simp add: eq_commute)
qed

text \<open>So a configuration that meets the invariant of the editor can be shown.\<close>

lemma print_filter_configuration_safe:
  assumes "filter_ok f" shows "\<exists>s. print_filter_configuration f = Inr s"
proof -
  have "3 \<notin> {srcMACLength f, dstMACLength f, srcIPLength f, dstIPLength f, srcPortLength f, dstPortLength f, dnsLength f}"
    using assms by (auto simp: filter_ok_def section_ok_def FILTER_DEPTH_def dest: arg_cong [of _ _ unat])
  moreover have "unat (dnsItemEndPtr f ! i) \<le> 128" if "i < unat (dnsLength f)" for i
  proof -
    have "wf_dns_pair (dns_items f ! i)" "i < length (dnsItemEndPtr f)"
      using assms that by (auto simp: filter_ok_def section_ok_def list_all_length dns_items_def)
    then show ?thesis using assms by (simp add: wf_dns_pair_def dns_items_def filter_ok_def)
  qed
  ultimately show ?thesis
    using print_filter_configuration_faults [OF filter_ok_wf [OF assms]] by (fastforce simp: faults_iff_def not_less split: if_splits)
qed

end
