(* ===== verification/Cli_State.thy ===== *)
theory Cli_State
  imports Fpga_Prober Net_Ops Sender Receiver Fpga_Print
begin

text \<open>
  The globals of the administration client as one record, and the operations on them that the
  commands share: \<^verbatim>\<open>file-ops.hh\<close>, saving, sending and probing (\<^verbatim>\<open>fpga-prober.hh\<close>). The outside
  world is part of the record: the files and which of them can be opened for writing, the results
  of \<open>rand()\<close>, the schedule of received packets, the frames handed to \<open>sendto\<close>, for each of these
  calls the error number it ends with, if it fails, the system's error texts, and the console.
\<close>

section \<open>The globals\<close>

record cli =
  cli_done :: bool
  f_fpga :: filter_t
  f_curr :: filter_t
  s_fpga :: stats_t
  io :: admin_io
  files :: "string \<Rightarrow> u8 list option"
  writable :: "string \<Rightarrow> bool"
  file_payload :: "u8 list"
  file_payload_length :: nat
  rands :: "nat list"
  send_pkt_buf :: "u8 list"
  send_pkt_length :: nat
  sent :: "u8 list list"
  sendto_errno :: "nat \<Rightarrow> nat option"
  strerror :: "nat \<Rightarrow> string"
  rcv :: receiver
  net :: schedule
  net_pos :: nat
  percent :: "u64 \<Rightarrow> u64 \<Rightarrow> string"
  history :: "string list"
  console :: "console list"

definition say :: "console list \<Rightarrow> cli \<Rightarrow> cli" where
  "say out st = st\<lparr>console := console st @ out\<rparr>"

text \<open>The type invariant: the extents of the global arrays, and the writer idle between commands.\<close>

definition wf_cli :: "cli \<Rightarrow> bool" where
  "wf_cli st \<longleftrightarrow> wf_filter (f_fpga st) \<and> wf_filter (f_curr st) \<and> admin_idle (io st) \<and>
     length (file_payload st) = BUFFER_SIZE \<and> file_payload_length st \<le> BUFFER_SIZE \<and>
     length (send_pkt_buf st) = BUFFER_SIZE \<and> wf_receiver (rcv st)"

section \<open>Files\<close>

definition read_file :: "cli \<Rightarrow> string \<Rightarrow> cli \<times> int" where
  "read_file st name =
     (case files st name of
        None \<Rightarrow> (say [Stderr (''ERROR file not found'' @ [NL])] st, - 1)
      | Some bs \<Rightarrow>
          let n = (if length bs > BUFFER_SIZE then BUFFER_SIZE else length bs)
          in (st\<lparr>file_payload_length := n, file_payload := take n bs @ drop n (file_payload st)\<rparr>, 0))"

definition fake_file :: "cli \<Rightarrow> u8 list \<Rightarrow> nat \<Rightarrow> cli cres" where
  "fake_file st payload n =
     (if n > length payload then Inl OutOfBounds else
      cbind (cblit (file_payload st) 0 (take n payload)) (\<lambda>fp.
      Inr (st\<lparr>file_payload := fp, file_payload_length := n\<rparr>)))"

text \<open>\<open>write_to_admin_pkt(f, name)\<close> on the globals, and for the current configuration.\<close>

definition save_filter :: "cli \<Rightarrow> filter_t \<Rightarrow> string \<Rightarrow> cli cres" where
  "save_filter st f name =
     (let st = (if writable st name then st else say [Stderr (''ERROR invalid filename to write'' @ [NL])] st) in
      cbind (write_to_admin_pkt (writable st name) (io st) f) (\<lambda>t.
      Inr (st\<lparr>io := t, files := (files st)(name := Some (admin_file t))\<rparr>)))"

definition save_curr :: "cli \<Rightarrow> string \<Rightarrow> cli cres" where
  "save_curr st name = save_filter st (f_curr st) name"

section \<open>Sending and probing\<close>

text \<open>The five random draws that \<open>probe_fpga\<close> and \<open>com_admin_apply\<close> begin with.\<close>

definition random_endpoints ::
  "cli \<Rightarrow> (mac_addr_t \<times> ip_addr_t \<times> ip_addr_t \<times> udp_port_t \<times> udp_port_t \<times> cli) cres" where
  "random_endpoints st =
     cbind (random_mac (rands st)) (\<lambda>(srcmac, rs).
     cbind (random_local_ip rs) (\<lambda>(srcip, rs).
     cbind (random_local_ip rs) (\<lambda>(dstip, rs).
     cbind (random_unused_port rs) (\<lambda>(srcport, rs).
     cbind (random_unused_port rs) (\<lambda>(dstport, rs).
     Inr (srcmac, srcip, dstip, srcport, dstport, st\<lparr>rands := rs\<rparr>))))))"

text \<open>What \<open>form_packet\<close> reports: the addresses and ports it put into the packet.\<close>

definition packet_text ::
  "mac_addr_t \<Rightarrow> mac_addr_t \<Rightarrow> ip_addr_t \<Rightarrow> ip_addr_t \<Rightarrow> udp_port_t \<Rightarrow> udp_port_t \<Rightarrow> console list" where
  "packet_text srcmac dstmac srcip dstip srcport dstport =
     (let mac = \<lambda>m. join CHR '':'' (map hex2 (byte m)); ip = \<lambda>a. join CHR ''.'' (map (\<lambda>b. dec (unat b)) (num a));
          pt = \<lambda>q. dec (unat (ntohs (htons (port q))))
      in [Stdout (''forming pkt...'' @ [NL]),
          Stdout (''src MAC: '' @ mac srcmac @ [NL]), Stdout (''dst MAC: '' @ mac dstmac @ [NL]),
          Stdout (''src IP: '' @ ip srcip @ [NL]), Stdout (''dst IP: '' @ ip dstip @ [NL]),
          Stdout (''src Port: '' @ pt srcport @ [NL]), Stdout (''dst Port: '' @ pt dstport @ [NL])])"

text \<open>\<open>form_packet\<close> on the globals, with any payload and with the file buffer.\<close>

definition form_payload_packet ::
  "cli \<Rightarrow> mac_addr_t \<Rightarrow> mac_addr_t \<Rightarrow> ip_addr_t \<Rightarrow> ip_addr_t \<Rightarrow> udp_port_t \<Rightarrow> udp_port_t \<Rightarrow> u8 list \<Rightarrow> nat \<Rightarrow> cli cres" where
  "form_payload_packet st srcmac dstmac srcip dstip srcport dstport payload n =
     cbind (form_packet (send_pkt_buf st) srcmac dstmac srcip dstip srcport dstport payload n) (\<lambda>(buf, n).
     Inr (say (packet_text srcmac dstmac srcip dstip srcport dstport) (st\<lparr>send_pkt_buf := buf, send_pkt_length := n\<rparr>)))"

definition form_file_packet ::
  "cli \<Rightarrow> mac_addr_t \<Rightarrow> mac_addr_t \<Rightarrow> ip_addr_t \<Rightarrow> ip_addr_t \<Rightarrow> udp_port_t \<Rightarrow> udp_port_t \<Rightarrow> cli cres" where
  "form_file_packet st srcmac dstmac srcip dstip srcport dstport =
     form_payload_packet st srcmac dstmac srcip dstip srcport dstport (file_payload st) (file_payload_length st)"

text \<open>What \<open>trigger_send\<close> reports, by the error number of \<open>sendto\<close>; a failed send is not repeated.\<close>

definition send_text :: "(nat \<Rightarrow> string) \<Rightarrow> nat option \<Rightarrow> console list" where
  "send_text err e =
     Stdout ''sending pkt...'' #
     (case e of
        None \<Rightarrow> [Stdout (''send done'' @ [NL])]
      | Some n \<Rightarrow> [Stderr (''ERROR in sending, sendlen=-1, errno='' @ dec n @ [NL]),
                   Stderr (''Socket:: '' @ err n @ [NL])])"

definition send_now :: "cli \<Rightarrow> cli cres" where
  "send_now st =
     cbind (trigger_send (send_pkt_buf st) (send_pkt_length st)) (\<lambda>pkt.
     Inr (say (send_text (strerror st) (sendto_errno st (length (sent st)))) (st\<lparr>sent := sent st @ [pkt]\<rparr>)))"

text \<open>What \<open>parse_admin_bin\<close> and \<open>parse_probe_pkt\<close> print when they refuse the length.\<close>

definition parse_admin_report :: "nat \<Rightarrow> console list" where
  "parse_admin_report len = (if len < 85 then [Stderr ''ERROR invalid admin payload''] else [])"

definition parse_probe_report :: "u64 \<Rightarrow> console list" where
  "parse_probe_report len = (if len - (8 + 8 + 8) < 128 then [Stderr (''ERROR invalid return probe pkt'' @ [NL])] else [])"

definition probe_payload :: string where "probe_payload = ''probe packet''"

definition probe_fpga :: "cli \<Rightarrow> (cli \<times> probe_response_t) cres" where
  "probe_fpga st =
     cbind (random_endpoints st) (\<lambda>(srcmac, srcip, dstip, srcport, dstport, st).
     cbind (strnlen (cstr probe_payload) 16) (\<lambda>n.
     cbind (fake_file st (map of_char (cstr probe_payload)) n) (\<lambda>st.
     cbind (form_file_packet st srcmac probe_dst_mac srcip dstip srcport dstport) (\<lambda>st.
     let st = st\<lparr>rcv := (rcv st)\<lparr>probe_reply_received := False\<rparr>\<rparr> in
     cbind (send_now st) (\<lambda>st.
     case probe_reply_recv (net st) PROBE_TIMEOUT (net_pos st) (rcv st) of
       None \<Rightarrow> Inl Unfinished
     | Some (r, k) \<Rightarrow>
         let st = st\<lparr>rcv := r, net_pos := k\<rparr> in
         if \<not> probe_reply_received r then
           Inr (say [Stderr (''ERROR no probe reply received within timeout '' @ dec (unat PROBE_TIMEOUT) @ '' set'' @ [NL])] st,
                probe_response_zero)
         else cbind (parse_probe_pkt (f_curr st) (probe_pkt_buf r) (word_of_int (probe_pkt_length r))) (\<lambda>pr.
              Inr (say (parse_probe_report (word_of_int (probe_pkt_length r))) st, pr)))))))"

definition probe_fpga_update_local :: "cli \<Rightarrow> cli cres" where
  "probe_fpga_update_local st =
     cbind (probe_fpga (say [Stdout (''probing FPGA for on-board configurations and stats...'' @ [NL])] st)) (\<lambda>(st, pr).
     Inr (say [Stdout (''probe done'' @ [NL])] (st\<lparr>f_fpga := pr_f pr, s_fpga := pr_s pr\<rparr>)))"

definition check_fpga_filter_matches :: "cli \<Rightarrow> filter_t \<Rightarrow> (cli \<times> bool) cres" where
  "check_fpga_filter_matches st f_new =
     cbind (probe_fpga_update_local st) (\<lambda>st. Inr (st, f_fpga st = f_new))"

text \<open>The file that was written is sent to the board, which is then probed for configuration \<open>f\<close>.\<close>

definition send_file_and_check ::
  "cli \<Rightarrow> mac_addr_t \<Rightarrow> ip_addr_t \<Rightarrow> ip_addr_t \<Rightarrow> udp_port_t \<Rightarrow> udp_port_t \<Rightarrow> filter_t \<Rightarrow> (cli \<times> bool) cres" where
  "send_file_and_check st srcmac srcip dstip srcport dstport f =
     (let (st, _) = read_file st ADMIN_PKT_TMP_FILENAME in
      cbind (form_file_packet st srcmac admin_dst_mac srcip dstip srcport dstport) (\<lambda>st.
      cbind (send_now st) (\<lambda>st.
      check_fpga_filter_matches st f)))"

end
