(* ===== verification/Commands.thy ===== *)
theory Commands
  imports Cli_State
begin

text \<open>
  Command tables and their execution, \<^verbatim>\<open>sw/admin-cli/commands.hh\<close> and \<^verbatim>\<open>commands/help.hh\<close>. A handler works on the globals and on the line object at an offset; it
  returns the globals, the object and the exit code.
\<close>

section \<open>Tables and dispatch\<close>

type_synonym handler = "cli \<Rightarrow> string \<Rightarrow> nat \<Rightarrow> (cli \<times> string \<times> int) cres"

record COMMAND =
  cmd_name :: string
  cmd_func :: handler
  cmd_doc :: string

fun find_command :: "string \<Rightarrow> COMMAND list \<Rightarrow> COMMAND option cres" where
  "find_command name [] = Inr None"
| "find_command name (c # cs) =
     cbind (strcmp_eq name (cstr (cmd_name c))) (\<lambda>eq. if eq then Inr (Some c) else find_command name cs)"

text \<open>\<open>while (line[i] && isspace (line[i])) i++\<close>.\<close>

fun skip_blank :: "string \<Rightarrow> nat cres" where
  "skip_blank [] = Inl OutOfBounds"
| "skip_blank (c # cs) =
     (if c \<noteq> NUL \<and> isspace c then cbind (skip_blank cs) (\<lambda>n. Inr (Suc n)) else Inr 0)"

definition execute :: "COMMAND list \<Rightarrow> handler" where
  "execute commands st buf p =
     cbind (scan_word (drop p buf)) (\<lambda>i.
     cbind (cwrite buf (p + i) NUL) (\<lambda>buf.
     cbind (find_command (drop p buf) commands) (\<lambda>command.
     case command of
       None \<Rightarrow> cbind (percent_s (drop p buf)) (\<lambda>name.
                 Inr (say [Stderr (name @ '': no such command'' @ [NL])] st, buf, - 1))
     | Some c \<Rightarrow> cbind (skip_blank (drop (p + i + 1) buf)) (\<lambda>k. cmd_func c st buf (p + i + 1 + k)))))"

section \<open>Help\<close>

definition help_line :: "string \<times> string \<Rightarrow> string" where
  "help_line c = fst c @ TAB # TAB # snd c @ [NL]"

text \<open>The second loop of \<open>print_help\<close>: six names in a row.\<close>

fun help_names :: "nat \<Rightarrow> string list \<Rightarrow> string" where
  "help_names printed [] = (if printed \<noteq> 0 then [NL] else [])"
| "help_names printed (n # ns) =
     (if printed = 6 then NL # n @ TAB # help_names 1 ns else n @ TAB # help_names (printed + 1) ns)"

definition print_help :: "string \<Rightarrow> (string \<times> string) list \<Rightarrow> string cres" where
  "print_help arg table =
     cbind (cread arg 0) (\<lambda>a.
     cbind (cmap (\<lambda>c. cbind (if a = NUL then Inr True else strcmp_eq arg (cstr (fst c))) (\<lambda>eq.
              Inr (if eq then [help_line c] else []))) table) (\<lambda>lines.
     let printed = concat lines in
     if printed \<noteq> [] then Inr (concat printed)
     else cbind (percent_s arg) (\<lambda>s.
       Inr (''No commands match '' @ [CHR 0x27] @ s @ [CHR 0x27] @ ''. Possibilties are:'' @ NL #
            help_names 0 (map fst table)))))"

definition help_handler :: "(string \<times> string) list \<Rightarrow> handler" where
  "help_handler table st buf p =
     cbind (print_help (drop p buf) table) (\<lambda>s. Inr (say [Stdout s] st, buf, 0))"

text \<open>\<open>if (!*arg) help(arg) else execute(arg, table); return 0;\<close> of the nested commands.\<close>

definition nested :: "(string \<times> string) list \<Rightarrow> COMMAND list \<Rightarrow> handler" where
  "nested docs table st buf p =
     cbind (cread buf p) (\<lambda>a.
     cbind (if a = NUL then help_handler docs st buf p else execute table st buf p) (\<lambda>(st, buf, _).
     Inr (st, buf, 0)))"

definition docs_of :: "COMMAND list \<Rightarrow> (string \<times> string) list" where
  "docs_of table = map (\<lambda>c. (cmd_name c, cmd_doc c)) table"

section \<open>What is executed\<close>

lemma find_command_ok:
  assumes "terminated name" "list_all (\<lambda>c. NUL \<notin> set (cmd_name c)) cs"
  shows "find_command name cs = Inr (find (\<lambda>c. cmd_name c = cstr_of name) cs)"
  using assms(2) by (induction cs) (auto simp: strcmp_eq_ok assms(1) cstr_of_cstr)

lemma skip_blank_ok:
  "terminated buf \<Longrightarrow> skip_blank buf = Inr (length (takeWhile isspace (cstr_of buf)))"
  by (induction buf) auto

definition plain_table :: "COMMAND list \<Rightarrow> bool" where
  "plain_table table \<longleftrightarrow> list_all (\<lambda>c. NUL \<notin> set (cmd_name c)) table"

text \<open>A command followed by an argument runs its handler on the argument's text.\<close>

lemma execute_with_argument:
  assumes "terminated (drop p buf)" "cstr_of (drop p buf) = name @ sp # arg" "isspace sp"
    and "\<forall>c \<in> set name. \<not> isspace c" "plain_table table" "find (\<lambda>c. cmd_name c = name) table = Some cmd"
  obtains buf' q where "execute table st buf p = cmd_func cmd st buf' q" "terminated (drop q buf')"
    "cstr_of (drop q buf') = dropWhile isspace arg" "length buf' = length buf"
proof -
  let ?cs = "cstr_of (drop p buf)"
  have tw: "takeWhile (\<lambda>c. \<not> isspace c) ?cs = name" using assms(2-4) by (simp add: takeWhile_append2)
  then have ne: "takeWhile (\<lambda>c. \<not> isspace c) ?cs \<noteq> ?cs" using assms(2) by simp
  obtain buf' where sp: "splitstr buf p = Inr (buf', Some (p + length name + 1))" "length buf' = length buf"
    "terminated (drop p buf')" "cstr_of (drop p buf') = name" "terminated (drop (p + length name + 1) buf')"
    "cstr_of (drop (p + length name + 1) buf') = arg"
    using splitstr_ok(2) [OF assms(1) ne, unfolded tw] assms(2) by auto
  have scan: "scan_word (drop p buf) = Inr (length name)" using scan_word_ok [OF assms(1)] tw by simp
  with sp(1) have w: "cwrite buf (p + length name) NUL = Inr buf'"
    by (auto simp: splitstr_def cbind_eq_Inr split: if_splits)
  let ?q = "p + length name + 1"
  let ?k = "length (takeWhile isspace arg)"
  have "find_command (drop p buf') table = Inr (Some cmd)"
    using find_command_ok [OF sp(3)] assms(5,6) sp(4) by (simp add: plain_table_def)
  moreover have "skip_blank (drop ?q buf') = Inr ?k" using skip_blank_ok [OF sp(5)] sp(6) by simp
  ultimately have "execute table st buf p = cmd_func cmd st buf' (?q + ?k)"
    using scan w by (simp add: execute_def)
  moreover obtain rest where r: "drop ?q buf' = arg @ NUL # rest"
    using terminated_split [OF sp(5)] sp(6) by auto
  then have "drop (?q + ?k) buf' = dropWhile isspace arg @ NUL # rest"
    by (metis add.commute append_eq_append_conv_if drop_append drop_drop drop_takeWhile length_takeWhile_le
        diff_is_0_eq' drop_0)
  moreover have "NUL \<notin> set (dropWhile isspace arg)"
    using NUL_cstr_of [of "drop ?q buf'"] sp(6) by (auto dest: set_dropWhileD)
  ultimately show thesis using that [of buf' "?q + ?k"] sp(2) by (simp add: cstr_of_prefix)
qed

text \<open>A bare command makes \<open>execute\<close> read behind the terminator it has just written.\<close>

lemma execute_bare_command:
  assumes "terminated (drop p buf)" "cstr_of (drop p buf) = name" "\<forall>c \<in> set name. \<not> isspace c"
    and "plain_table table" "find (\<lambda>c. cmd_name c = name) table = Some cmd" "length buf = p + length name + 1"
  shows "execute table st buf p = Inl OutOfBounds"
proof -
  have scan: "scan_word (drop p buf) = Inr (length name)"
    using scan_word_ok [OF assms(1)] assms(2) takeWhile_eq_all_conv [THEN iffD2, OF assms(3)] by simp
  obtain rest where r: "drop p buf = name @ NUL # rest" using terminated_split [OF assms(1)] assms(2) by auto
  then have "buf ! (p + length name) = NUL"
    using assms(6) by (metis nth_append_length nth_drop add_leD1 le_add1 add.assoc)
  then have "cwrite buf (p + length name) NUL = Inr buf"
    using assms(6) by (simp add: cwrite_Inr) (metis list_update_id)
  moreover have "find_command (drop p buf) table = Inr (Some cmd)"
    using find_command_ok [OF assms(1)] assms(2,4,5) by (simp add: plain_table_def)
  moreover have "drop (p + length name + 1) buf = []" using assms(6) by simp
  ultimately show ?thesis using scan by (simp add: execute_def)
qed

text \<open>An unknown command is refused and changes nothing but the output.\<close>

lemma execute_unknown:
  assumes "terminated (drop p buf)" "takeWhile (\<lambda>c. \<not> isspace c) (cstr_of (drop p buf)) = name"
    and "plain_table table" "find (\<lambda>c. cmd_name c = name) table = None"
  shows "\<exists>buf'. execute table st buf p = Inr (say [Stderr (name @ '': no such command'' @ [NL])] st, buf', - 1)"
proof -
  let ?cs = "cstr_of (drop p buf)"
  have scan: "scan_word (drop p buf) = Inr (length name)" using scan_word_ok [OF assms(1)] assms(2) by simp
  obtain rest where r: "drop p buf = ?cs @ NUL # rest" using assms(1) by (rule terminated_split)
  have le: "length name \<le> length ?cs" using assms(2) length_takeWhile_le by metis
  have lt: "p + length name < length buf" using le arg_cong [OF r, of length] by simp
  have nm: "take (length name) (?cs @ NUL # rest) = name" using le takeWhile_eq_take [of "\<lambda>c. \<not> isspace c" ?cs] assms(2) by simp
  have d: "drop p (buf[p + length name := NUL]) = name @ NUL # drop (Suc (length name)) (?cs @ NUL # rest)"
    using drop_poke [OF r, of "length name" NUL] le nm by simp
  have "NUL \<notin> set name" using NUL_cstr_of [of "drop p buf"] assms(2) by (metis set_takeWhileD)
  then have t: "terminated (drop p (buf[p + length name := NUL]))" "cstr_of (drop p (buf[p + length name := NUL])) = name"
    unfolding d by (simp_all add: cstr_of_prefix)
  have "find_command (drop p (buf[p + length name := NUL])) table = Inr None"
    using find_command_ok [OF t(1)] t(2) assms(3,4) by (simp add: plain_table_def)
  then show ?thesis using scan lt t by (simp add: execute_def cwrite_Inr percent_s_ok)
qed

end
