(* ===== verification/Admin_Commands.thy ===== *)
theory Admin_Commands
  imports Commands
begin

text \<open>
  The commands of the client: \<^verbatim>\<open>sw/admin-cli/commands/*.hh\<close> with their tables, and the read-execute
  loop of \<^verbatim>\<open>main.cc\<close>. The handler of \<open>test\<close>, which drives the board's validation suites, is an
  argument of the top-level table.
\<close>

section \<open>Administration commands\<close>

definition com_admin_load :: handler where
  "com_admin_load st buf p =
     cbind (percent_s (drop p buf)) (\<lambda>name.
     let (st, ret) = read_file (say [Stdout (''loading admin configuration from '' @ name @ ''...'')] st) name in
     if ret = - 1 then Inr (st, buf, - 1)
     else cbind (parse_admin_bin (f_curr st) (file_payload st) (file_payload_length st)) (\<lambda>f.
          Inr (say (parse_admin_report (file_payload_length st) @ [Stdout (''loaded'' @ [NL])]) (st\<lparr>f_curr := f\<rparr>), buf, 0)))"

definition com_admin_save :: handler where
  "com_admin_save st buf p =
     cbind (percent_s (drop p buf)) (\<lambda>name.
     cbind (save_curr (say [Stdout (''saving admin configuration to '' @ name @ ''...'')] st) name) (\<lambda>st.
     Inr (say [Stdout (''saved'' @ [NL])] st, buf, 0)))"

definition com_admin_show :: handler where
  "com_admin_show st buf p =
     cbind (strncmp_chain (drop p buf) [(''fpga'', 5, True), (''curr'', 5, False)]) (\<lambda>which.
     case which of
       Some fpga \<Rightarrow>
         cbind (print_filter_configuration (if fpga then f_fpga st else f_curr st)) (\<lambda>s.
         Inr (say [Stdout s] st, buf, 0))
     | None \<Rightarrow> cbind (percent_s (drop p buf)) (\<lambda>a.
         Inr (say [Stderr (a @ '': specify [fpga/curr]'' @ [NL])] st, buf, - 1)))"

text \<open>\<open>com_admin_apply\<close> without the console.\<close>

definition apply_curr :: "cli \<Rightarrow> (cli \<times> bool) cres" where
  "apply_curr st =
     cbind (save_curr st ADMIN_PKT_TMP_FILENAME) (\<lambda>st.
     cbind (random_endpoints st) (\<lambda>(srcmac, srcip, dstip, srcport, dstport, st).
     send_file_and_check st srcmac srcip dstip srcport dstport (f_curr st)))"

definition com_admin_apply :: handler where
  "com_admin_apply st buf p =
     cbind (apply_curr (say [Stdout (''writing admin pkt to '' @ ADMIN_PKT_TMP_FILENAME @ ''...'' @ [NL])] st)) (\<lambda>(st, ok).
     Inr (say [Stdout ((if ok then ''successful! apply confirmed via probing FPGA''
                        else ''failed! apply cannot be confirmed via probing FPGA'') @ [NL])] st, buf, 0))"

definition com_admin_probe :: handler where
  "com_admin_probe st buf p = cbind (probe_fpga_update_local st) (\<lambda>st. Inr (st, buf, 0))"

text \<open>The editing commands on \<open>f_curr\<close>.\<close>

definition edit_handler :: "(filter_t \<Rightarrow> string \<Rightarrow> nat \<Rightarrow> edit_outcome cres) \<Rightarrow> handler" where
  "edit_handler cmd st buf p =
     cbind (cmd (f_curr st) buf p) (\<lambda>(f, buf, out, ret). Inr (say out (st\<lparr>f_curr := f\<rparr>), buf, ret))"

definition admin_edit_docs :: "(string \<times> string) list" where
  "admin_edit_docs =
     [(''add'', ''add [filter-type] [filter-content]''), (''set'', ''set [filter-type] [black/white]''),
      (''remove'', ''remove [filter-type] [filter-index]''), (''help'', ''display this text''),
      (''?'', ''synonym for `help'' @ [CHR 0x27])]"

definition com_admin_edit_help :: handler where "com_admin_edit_help = help_handler admin_edit_docs"

text \<open>A table from its documentation and its handlers, in order.\<close>

definition table_of :: "(string \<times> string) list \<Rightarrow> handler list \<Rightarrow> COMMAND list" where
  "table_of docs funs = map2 (\<lambda>d h. \<lparr>cmd_name = fst d, cmd_func = h, cmd_doc = snd d\<rparr>) docs funs"

definition admin_edit_commands :: "COMMAND list" where
  "admin_edit_commands = table_of admin_edit_docs
     [edit_handler com_admin_edit_add, edit_handler com_admin_edit_set, edit_handler com_admin_edit_remove,
      com_admin_edit_help, com_admin_edit_help]"

definition com_admin_edit :: handler where "com_admin_edit = nested admin_edit_docs admin_edit_commands"

definition admin_docs :: "(string \<times> string) list" where
  "admin_docs =
     [(''show'', ''show current / on-FPGA admin configurations [fpga/curr]''),
      (''edit'', ''edit current admin configurations''), (''apply'', ''apply current admin configurations''),
      (''probe'', ''probe FPGA for on-board configuration''), (''load'', ''load admin configuration from file''),
      (''save'', ''save admin configuration to file''), (''help'', ''display this text''),
      (''?'', ''synonym for `help'' @ [CHR 0x27])]"

definition com_admin_help :: handler where "com_admin_help = help_handler admin_docs"

definition admin_commands :: "COMMAND list" where
  "admin_commands = table_of admin_docs
     [com_admin_show, com_admin_edit, com_admin_apply, com_admin_probe, com_admin_load, com_admin_save,
      com_admin_help, com_admin_help]"

definition com_admin :: handler where "com_admin = nested admin_docs admin_commands"

section \<open>Statistics\<close>

definition dec_int :: "int \<Rightarrow> string" where
  "dec_int i = (if i < 0 then CHR ''-'' # dec (nat (- i)) else dec (nat i))"

text \<open>\<open>%ld\<close> of a \<open>uint64_t\<close>; the percentage, \<open>%.6lf%%\<close> of the quotient of two \<open>double\<close>s, is \<open>percent\<close>.\<close>

definition print_stats :: "(u64 \<Rightarrow> u64 \<Rightarrow> string) \<Rightarrow> stats_t \<Rightarrow> string" where
  "print_stats pct s =
     (let ld = \<lambda>w :: u64. dec_int (sint w);
          line = \<lambda>title w. title @ ld w @ '' ('' @ pct w (stc s) @ '')'' @ [NL]
      in ''valid packets received            = '' @ ld (stc s) @ [NL] @
         line ''valid packets replied             = '' (sfc s) @
         line ''valid packets passed MAC filters  = '' (smc s) @
         line ''valid packets passed IP filters   = '' (sic s) @
         line ''valid packets passed UDP filters  = '' (spc s) @
         line ''valid packets passed DNS filters  = '' (sfc s))"

definition com_stats_show :: handler where
  "com_stats_show st buf p = Inr (say [Stdout (print_stats (percent st) (s_fpga st))] st, buf, 0)"

definition com_stats_probe :: handler where
  "com_stats_probe st buf p =
     cbind (probe_fpga_update_local st) (\<lambda>st.
     Inr (say [Stdout (print_stats (percent st) (s_fpga st))] st, buf, 0))"

definition stats_docs :: "(string \<times> string) list" where
  "stats_docs =
     [(''show'', ''show filter stats from FPGA (in-cache)''), (''probe'', ''probe FPGA for latest filter stats''),
      (''help'', ''display this text''), (''?'', ''synonym for `help'' @ [CHR 0x27])]"

definition com_stats_help :: handler where "com_stats_help = help_handler stats_docs"

definition stats_commands :: "COMMAND list" where
  "stats_commands = table_of stats_docs [com_stats_show, com_stats_probe, com_stats_help, com_stats_help]"

definition com_stats :: handler where "com_stats = nested stats_docs stats_commands"

section \<open>The top level\<close>

definition com_quit :: handler where
  "com_quit st buf p = Inr (st\<lparr>cli_done := True\<rparr>, buf, 0)"

definition com_clear :: handler where
  "com_clear st buf p = Inr (say [Stdout ([CHR 0x1B] @ ''[2J'' @ [CHR 0x1B] @ ''[0;0f'')] st, buf, 0)"

text \<open>The numbered lines of the history, oldest first.\<close>

definition com_history :: handler where
  "com_history st buf p =
     Inr (say (map (\<lambda>(i, l). Stdout (dec (Suc i) @ '' '' @ TAB # '' '' @ l @ [NL])) (enumerate 0 (history st))) st, buf, 0)"

definition commands_docs :: "(string \<times> string) list" where
  "commands_docs =
     [(''admin'', ''FPGA filter administrator utilities''), (''stats'', ''FPGA filter stats utilities''),
      (''test'', ''FPGA test utilities''), (''history'', ''list history''), (''clear'', ''clear the screen''),
      (''quit'', ''quit FPGA administrator cli''), (''help'', ''display this text''),
      (''?'', ''synonym for `help'' @ [CHR 0x27])]"

definition com_help :: handler where "com_help = help_handler commands_docs"

definition commands :: "handler \<Rightarrow> COMMAND list" where
  "commands com_test = table_of commands_docs
     [com_admin, com_stats, com_test, com_history, com_clear, com_quit, com_help, com_help]"

definition HISTORY_LENGTH :: nat where "HISTORY_LENGTH = 256"

text \<open>\<open>add_history\<close> under \<open>stifle_history(HISTORY_LENGTH)\<close>: the newest lines are kept.\<close>

definition add_history :: "string \<Rightarrow> cli \<Rightarrow> cli" where
  "add_history line st = (let h = history st @ [line] in st\<lparr>history := drop (length h - HISTORY_LENGTH) h\<rparr>)"

text \<open>
  One round of the loop of \<open>main\<close> on a line that \<open>readline\<close> returned; \<open>slack\<close> is what follows the
  string in its memory block.
\<close>

definition main_round :: "handler \<Rightarrow> string \<Rightarrow> cli \<Rightarrow> string \<Rightarrow> cli cres" where
  "main_round com_test slack st line =
     cbind (stripwhite (cstr line @ slack)) (\<lambda>(buf, p).
     cbind (strlen (drop p buf)) (\<lambda>n.
     if n > 0
     then cbind (percent_s (drop p buf)) (\<lambda>text.
          cbind (execute (commands com_test) (add_history text st) buf p) (\<lambda>(st, buf, _). Inr st))
     else Inr st))"

fun main_loop :: "handler \<Rightarrow> string \<Rightarrow> cli \<Rightarrow> string list \<Rightarrow> cli cres" where
  "main_loop com_test slack st [] = Inr st"
| "main_loop com_test slack st (l # ls) =
     (if cli_done st then Inr st
      else cbind (main_round com_test slack st l) (\<lambda>st. main_loop com_test slack st ls))"

end
