(* ===== verification/Session.thy ===== *)
theory Session
  imports Admin_Commands
begin

text \<open>
  What the commands of the client do to its globals and to the network: probing, applying, saving
  and loading a configuration, under assumptions on the environment that are stated as
  predicates on the random numbers, the received frames and the board's replies.
\<close>

section \<open>The environment\<close>

text \<open>The random numbers suffice for \<open>n\<close> packets, and no drawn MAC address is a reserved one.\<close>

fun plain_draws :: "nat \<Rightarrow> nat list \<Rightarrow> bool" where
  "plain_draws 0 rs = True"
| "plain_draws (Suc n) rs \<longleftrightarrow> 14 \<le> length rs \<and>
     \<lparr>byte = map rand_byte (take 6 rs)\<rparr> \<notin> {admin_dst_mac, probe_dst_mac} \<and> plain_draws n (drop 14 rs)"

definition frames_ok :: "schedule \<Rightarrow> bool" where
  "frames_ok env \<longleftrightarrow> (\<forall>j. list_all is_frame (frames (env j)))"

text \<open>A board that answers every probe with configuration \<open>g\<close> and counters \<open>s\<close>.\<close>

definition reply_of :: "filter_t \<Rightarrow> stats_t \<Rightarrow> u8 list \<Rightarrow> bool" where
  "reply_of g s pkt \<longleftrightarrow> 152 \<le> length pkt \<and> stands_at (drop HEADERS_SIZE pkt) 0 (admin_layout g @ stats_bits s)"

definition board_replies :: "schedule \<Rightarrow> filter_t \<Rightarrow> stats_t \<Rightarrow> bool" where
  "board_replies env g s \<longleftrightarrow> (\<forall>j. \<forall>pkt \<in> set (frames (env j)). from_board pkt \<longrightarrow> reply_of g s pkt)"

definition board_heard :: "schedule \<Rightarrow> nat \<Rightarrow> nat \<Rightarrow> bool" where
  "board_heard env k k' \<longleftrightarrow> (\<exists>j \<in> {k..<k'}. list_ex from_board (frames (env j)))"

section \<open>Building blocks\<close>

lemma random_endpoints_ok:
  assumes "plain_draws (Suc n) (rands st)"
  obtains m a b p q where "random_endpoints st = Inr (m, a, b, p, q, st\<lparr>rands := drop 14 (rands st)\<rparr>)"
    "wf_mac m" "wf_ip a" "wf_ip b"
proof -
  let ?rs = "rands st"
  have len: "14 \<le> length ?rs" using assms by simp
  let ?m = "\<lparr>byte = map rand_byte (take 6 ?rs)\<rparr>"
  have m: "random_mac ?rs = Inr (?m, drop 6 ?rs)" using assms by (subst random_mac.simps) (simp add: Let_def)
  obtain r1 r2 rest where d: "drop 12 ?rs = r1 # r2 # rest" "drop 14 ?rs = rest"
  proof -
    have "2 \<le> length (drop 12 ?rs)" using len by simp
    then obtain r1 r2 rest where "drop 12 ?rs = r1 # r2 # rest"
      by (cases "drop 12 ?rs"; cases "tl (drop 12 ?rs)") auto
    moreover have "drop 14 ?rs = drop 2 (drop 12 ?rs)" by simp
    ultimately show thesis using that [of r1 r2 rest] by simp
  qed
  have "random_endpoints st = Inr (?m, \<lparr>num = 10 # map rand_byte (take 3 (drop 6 ?rs))\<rparr>,
      \<lparr>num = 10 # map rand_byte (take 3 (drop 9 ?rs))\<rparr>, \<lparr>port = word_of_nat (r1 mod 55536 + 10000)\<rparr>,
      \<lparr>port = word_of_nat (r2 mod 55536 + 10000)\<rparr>, st\<lparr>rands := drop 14 ?rs\<rparr>)"
  proof -
    have "\<not> length (drop 6 ?rs) < 3" "\<not> length (drop 9 ?rs) < 3" using len by simp_all
    then show ?thesis
      using m d by (simp add: random_endpoints_def random_local_ip_def random_unused_port_def del: length_drop)
  qed
  then show thesis using that len by (simp add: wf_mac_def wf_ip_def)
qed

text \<open>A frame to \<open>d\<close> that carries the payload, whatever its other header fields.\<close>

definition frame_to :: "mac_addr_t \<Rightarrow> u8 list \<Rightarrow> u8 list \<Rightarrow> bool" where
  "frame_to d py pkt \<longleftrightarrow> take 6 pkt = byte d \<and> length pkt = 42 + length py \<and> drop 42 pkt = py"

lemma frame_to_frame:
  assumes "wf_mac s" "wf_mac d" "wf_ip si" "wf_ip di" "length frag = 2" "length chk = 2"
  shows "frame_to d py (frame frag chk s d si di sp dp py)"
proof -
  have "take 6 (frame frag chk s d si di sp dp py) = byte d" using assms(2) by (simp add: frame_def wf_mac_def)
  moreover have "drop 42 (frame frag chk s d si di sp dp py) = py"
    using assms by (simp add: frame_def ip_header_def wf_mac_def wf_ip_def store16_def)
  ultimately show ?thesis using length_frame [OF assms] by (simp add: frame_to_def)
qed

lemma form_payload_and_send:
  assumes "wf_cli st" "wf_mac m" "wf_mac d" "wf_ip a" "wf_ip b" "n \<le> length payload" "42 + n \<le> BUFFER_SIZE"
  obtains buf pkt where "form_payload_packet st m d a b p q payload n =
      Inr (say (packet_text m d a b p q) (st\<lparr>send_pkt_buf := buf, send_pkt_length := n\<rparr>))"
    "length buf = BUFFER_SIZE" "trigger_send buf n = Inr pkt" "frame_to d (take n payload) pkt"
proof -
  let ?fr = "take 2 (drop 20 (send_pkt_buf st))"
  have len: "42 + n \<le> length (send_pkt_buf st)" "length (send_pkt_buf st) = BUFFER_SIZE"
    using assms(1,7) by (simp_all add: wf_cli_def)
  have fr: "length ?fr = 2" using len(1) by simp
  obtain c where c: "form_packet (send_pkt_buf st) m d a b p q payload n =
      Inr (frame ?fr (store16 (htons c)) m d a b p q (take n payload) @ drop (42 + n) (send_pkt_buf st), n)"
    using form_packet_frame [OF assms(2-6) len(1), of p q] by blast
  let ?frame = "frame ?fr (store16 (htons c)) m d a b p q (take n payload)"
  have l: "length ?frame = 42 + n"
    using length_frame [OF assms(2-5) fr, of "store16 (htons c)"] assms(6) by (simp add: store16_def)
  show thesis
  proof (rule that)
    show "form_payload_packet st m d a b p q payload n =
        Inr (say (packet_text m d a b p q) (st\<lparr>send_pkt_buf := ?frame @ drop (42 + n) (send_pkt_buf st), send_pkt_length := n\<rparr>))"
      using c by (simp add: form_payload_packet_def)
    show "length (?frame @ drop (42 + n) (send_pkt_buf st)) = BUFFER_SIZE" using l len by simp
    show "trigger_send (?frame @ drop (42 + n) (send_pkt_buf st)) n = Inr ?frame"
      using l len(1) by (simp add: trigger_send_def)
    show "frame_to d (take n payload) ?frame" by (rule frame_to_frame [OF assms(2-5) fr]) (simp add: store16_def)
  qed
qed

lemma form_and_send:
  assumes "wf_cli st" "wf_mac m" "wf_mac d" "wf_ip a" "wf_ip b" "42 + file_payload_length st \<le> BUFFER_SIZE"
  obtains buf pkt where "form_file_packet st m d a b p q =
      Inr (say (packet_text m d a b p q) (st\<lparr>send_pkt_buf := buf, send_pkt_length := file_payload_length st\<rparr>))"
    "length buf = BUFFER_SIZE" "trigger_send buf (file_payload_length st) = Inr pkt"
    "frame_to d (take (file_payload_length st) (file_payload st)) pkt"
proof -
  have "file_payload_length st \<le> length (file_payload st)" using assms(1) by (simp add: wf_cli_def)
  from form_payload_and_send [OF assms(1-5) this assms(6)] show thesis
    using that unfolding form_file_packet_def by blast
qed

section \<open>Probing\<close>

lemma parse_probe_pkt_total:
  assumes "length buf = BUFFER_SIZE" "wf_filter fc"
  shows "\<exists>pr. parse_probe_pkt fc buf len = Inr pr \<and> wf_filter (pr_f pr)"
proof -
  let ?p = "drop HEADERS_SIZE buf"
  have len: "125 \<le> length ?p" using assms(1) by (simp add: HEADERS_SIZE_def BUFFER_SIZE_def)
  let ?w = "\<lambda>k. word_of_bits (seg (bytes_bits ?p) k 64) :: u64"
  let ?s = "\<lparr>stc = ?w 678, sfc = ?w 742, smc = ?w 806, sic = ?w 870, spc = ?w 934\<rparr>"
  have "word_bits 64 (?w k) = seg (bytes_bits ?p) k 64" if "k + 64 \<le> 1000" for k
    using that len by (intro word_bits_word_of_bits length_seg) simp_all
  then have "stats_bits ?s = seg (bytes_bits ?p) 678 320" by (simp add: stats_bits_def seg_merge)
  then have "stands_at ?p 678 (stats_bits ?s)" using len by (simp add: stands_at_def seg_def)
  then have stats: "parse_stats ?p = Inr ?s" by (rule parse_stats_stands_at)
  obtain f where f: "parse_admin_bin fc ?p (unat (len - 24)) = Inr f" "wf_filter f"
    using parse_admin_bin_total [of ?p "unat (len - 24)" fc] len assms(2)
    by (cases "unat (len - 24) < 85") (auto simp: parse_admin_bin_def)
  show ?thesis
    by (cases "len - 24 < 128") (simp_all add: parse_probe_pkt_def Let_def probe_response_zero_def wf_filter_zero f stats)
qed

lemma parse_captured_reply:
  assumes "wf_filter g" "reply_of g s pkt" "captured r pkt" "wf_receiver r" "is_frame pkt"
  shows "parse_probe_pkt fc (probe_pkt_buf r) (word_of_int (probe_pkt_length r)) = Inr \<lparr>pr_f = g, pr_s = s\<rparr>"
    "parse_probe_report (word_of_int (probe_pkt_length r)) = []"
proof -
  let ?n = "length pkt"
  have n: "152 \<le> ?n" "?n \<le> BUFFER_SIZE" "probe_pkt_length r = int ?n" "take ?n (probe_pkt_buf r) = pkt"
    using assms(2,3,5) by (simp_all add: reply_of_def captured_def is_frame_def)
  obtain rest where buf: "probe_pkt_buf r = pkt @ rest" using n(4) by (metis append_take_drop_id)
  have at: "stands_at (drop HEADERS_SIZE (probe_pkt_buf r)) 0 (admin_layout g @ stats_bits s)"
    using assms(2) n(1) by (auto simp: reply_of_def stands_at_def buf HEADERS_SIZE_def)
  let ?p = "drop HEADERS_SIZE (probe_pkt_buf r)"
  have at': "stands_at ?p 0 (admin_layout g)" "stands_at ?p 678 (stats_bits s)"
    using at by (simp_all add: stands_at_append length_admin_layout [OF assms(1)])
  let ?len = "word_of_int (probe_pkt_length r) :: u64"
  have u: "unat ?len = ?n" using n(2,3) by (simp add: unsigned_of_nat take_bit_nat_eq_self_iff BUFFER_SIZE_def)
  then have "unat (?len - 24) = ?n - 24" using n(1) by (subst unat_sub) (simp_all add: word_le_nat_alt)
  then have "128 \<le> unat (?len - 24)" using n(1) by simp
  then show "parse_probe_pkt fc (probe_pkt_buf r) ?len = Inr \<lparr>pr_f = g, pr_s = s\<rparr>" "parse_probe_report ?len = []"
    using parse_admin_bin_layout [OF assms(1) at'(1), of "unat (?len - 24)" fc] parse_stats_stands_at [OF at'(2)]
    by (simp_all add: parse_probe_pkt_def parse_probe_report_def Let_def word_less_nat_alt)
qed

lemma probe_payload_len: "strnlen (cstr probe_payload) 16 = Inr 12"
  by (simp add: probe_payload_def strnlen_ok cstr_of_cstr)

lemma fake_file_probe:
  assumes "wf_cli st"
  shows "\<exists>fp. fake_file st (map of_char (cstr probe_payload)) 12 = Inr (st\<lparr>file_payload := fp, file_payload_length := 12\<rparr>) \<and>
    length fp = BUFFER_SIZE \<and> take 12 fp = map of_char probe_payload"
proof -
  let ?py = "map of_char (cstr probe_payload) :: u8 list"
  have py: "length ?py = 13" "take 12 ?py = map of_char probe_payload" "length probe_payload = 12"
    by (simp_all add: probe_payload_def cstr_def)
  have "length (file_payload st) = BUFFER_SIZE" using assms by (simp add: wf_cli_def)
  then show ?thesis
    using py by (intro exI [of _ "take 12 ?py @ drop 12 (file_payload st)"])
      (simp add: fake_file_def cblit_def BUFFER_SIZE_def del: list.map map_append)
qed

text \<open>
  A probe sends one frame to the probe address and ends; the answer is the zero response if no
  frame of the board arrived during the wait.
\<close>

lemma probe_fpga_ok:
  assumes wf: "wf_cli st" and rs: "plain_draws (Suc n) (rands st)" and fr: "frames_ok (net st)"
    and br: "board_replies (net st) g s" and g: "wf_filter g"
  obtains st' pr pkt where "probe_fpga st = Inr (st', pr)" "wf_cli st'" "f_curr st' = f_curr st" "f_fpga st' = f_fpga st"
    "rands st' = drop 14 (rands st)" "net st' = net st" "files st' = files st" "percent st' = percent st"
    "sent st' = sent st @ [pkt]" "frame_to probe_dst_mac (map of_char probe_payload) pkt"
    "net_pos st \<le> net_pos st'" "net_pos st' \<le> net_pos st + 101"
    "pr = (if board_heard (net st) (net_pos st) (net_pos st') then \<lparr>pr_f = g, pr_s = s\<rparr> else probe_response_zero)"
    "board_heard (net st) (net_pos st) (net_pos st') \<or> net_pos st' = net_pos st + 101" "writable st' = writable st"
proof -
  obtain m a b p q where ep: "random_endpoints st = Inr (m, a, b, p, q, st\<lparr>rands := drop 14 (rands st)\<rparr>)"
    and mab: "wf_mac m" "wf_ip a" "wf_ip b" using rs by (rule random_endpoints_ok)
  let ?st1 = "st\<lparr>rands := drop 14 (rands st)\<rparr>"
  have "wf_cli ?st1" using wf by (simp add: wf_cli_def)
  then obtain fp where fp: "fake_file ?st1 (map of_char (cstr probe_payload)) 12 =
      Inr (?st1\<lparr>file_payload := fp, file_payload_length := 12\<rparr>)" "length fp = BUFFER_SIZE"
      "take 12 fp = map of_char probe_payload" using fake_file_probe by blast
  let ?st2 = "?st1\<lparr>file_payload := fp, file_payload_length := 12\<rparr>"
  have wf2: "wf_cli ?st2" using wf fp(2) by (simp add: wf_cli_def BUFFER_SIZE_def)
  let ?out = "packet_text m probe_dst_mac a b p q" and ?sout = "send_text (strerror st) (sendto_errno st (length (sent st)))"
  obtain buf pkt where fs: "form_file_packet ?st2 m probe_dst_mac a b p q =
      Inr (say ?out (?st2\<lparr>send_pkt_buf := buf, send_pkt_length := 12\<rparr>))" "length buf = BUFFER_SIZE"
      "trigger_send buf 12 = Inr pkt" "frame_to probe_dst_mac (map of_char probe_payload) pkt"
    using form_and_send [OF wf2 mab(1) wf_const_macs(3) mab(2,3), of p q] fp(3) by (auto simp: BUFFER_SIZE_def)
  let ?r0 = "(rcv st)\<lparr>probe_reply_received := False\<rparr>"
  let ?k = "net_pos st"
  have r0: "wf_receiver ?r0" using wf by (simp add: wf_cli_def wf_receiver_def)
  have to: "unat PROBE_TIMEOUT = 1000" by (simp add: PROBE_TIMEOUT_def MS_IN_USEC_def)
  obtain r' k' where w: "probe_wait (net st) PROBE_TIMEOUT ?k 0 ?r0 = Some (r', k')" "?k \<le> k'"
      "k' = ?k \<or> 10 * (k' - ?k) \<le> 1010" "wf_receiver r'"
      "probe_reply_received r' \<longleftrightarrow> board_heard (net st) ?k k'"
      "probe_reply_received r' \<longrightarrow> (\<exists>pkt. (\<exists>j \<in> {?k..<k'}. pkt \<in> set (frames (net st j)) \<and> from_board pkt) \<and> captured r' pkt)"
      "\<not> probe_reply_received r' \<longrightarrow> 1000 < 10 * (k' - ?k)"
    using probe_wait_ok [of PROBE_TIMEOUT "net st" ?r0 "\<lambda>_. False" ?k 0] fr r0 to
    by (auto simp: frames_ok_def board_heard_def)
  let ?st3 = "?st2\<lparr>send_pkt_buf := buf, send_pkt_length := 12, rcv := ?r0, sent := sent st @ [pkt],
    console := console st @ ?out @ ?sout\<rparr>"
  let ?st4 = "?st3\<lparr>rcv := r', net_pos := k'\<rparr>"
  let ?err = "say [Stderr (''ERROR no probe reply received within timeout '' @ dec (unat PROBE_TIMEOUT) @ '' set'' @ [NL])] ?st4"
  have wf4: "wf_cli ?st4" using wf fp(2) fs(2) w(4) by (simp add: wf_cli_def BUFFER_SIZE_def)
  have k: "k' \<le> ?k + 101" "probe_reply_received r' \<or> k' = ?k + 101" using w(2,3,7) by auto
  have run: "probe_fpga st =
    (if \<not> probe_reply_received r' then Inr (?err, probe_response_zero)
     else cbind (parse_probe_pkt (f_curr st) (probe_pkt_buf r') (word_of_int (probe_pkt_length r')))
         (\<lambda>pr. Inr (say (parse_probe_report (word_of_int (probe_pkt_length r'))) ?st4, pr)))"
    using ep fp(1) fs(1,3) w(1) by (simp add: probe_fpga_def probe_payload_len send_now_def probe_reply_recv_def say_def)
  show thesis
  proof (cases "probe_reply_received r'")
    case True
    then obtain rp j where rp: "rp \<in> set (frames (net st j))" "from_board rp" "captured r' rp" using w(6) by blast
    then have "is_frame rp" "reply_of g s rp" using fr br by (auto simp: frames_ok_def board_replies_def list_all_iff)
    then have "parse_probe_pkt (f_curr st) (probe_pkt_buf r') (word_of_int (probe_pkt_length r')) = Inr \<lparr>pr_f = g, pr_s = s\<rparr>"
      "parse_probe_report (word_of_int (probe_pkt_length r')) = []"
      using parse_captured_reply [OF g _ rp(3) w(4)] by blast+
    with True run have "probe_fpga st = Inr (?st4, \<lparr>pr_f = g, pr_s = s\<rparr>)" by (simp add: say_def)
    then show thesis by (rule that) (use wf4 fs(4) w(2,5) k True in simp_all)
  next
    case False
    with run have "probe_fpga st = Inr (?err, probe_response_zero)" by simp
    moreover have "wf_cli ?err" using wf4 by (simp add: wf_cli_def say_def)
    ultimately show thesis by (rule that) (use fs(4) w(2,5) k False in \<open>simp_all add: say_def\<close>)
  qed
qed

lemma probe_update_ok:
  assumes "wf_cli st" "plain_draws (Suc n) (rands st)" "frames_ok (net st)" "board_replies (net st) g s" "wf_filter g"
  obtains st' pkt where "probe_fpga_update_local st = Inr st'" "wf_cli st'" "f_curr st' = f_curr st"
    "rands st' = drop 14 (rands st)" "net st' = net st" "files st' = files st"
    "sent st' = sent st @ [pkt]" "frame_to probe_dst_mac (map of_char probe_payload) pkt"
    "net_pos st \<le> net_pos st'" "net_pos st' \<le> net_pos st + 101"
    "f_fpga st' = (if board_heard (net st) (net_pos st) (net_pos st') then g else filter_zero)"
    "s_fpga st' = (if board_heard (net st) (net_pos st) (net_pos st') then s else stats_zero)"
    "board_heard (net st) (net_pos st) (net_pos st') \<or> net_pos st' = net_pos st + 101" "writable st' = writable st"
proof -
  let ?st0 = "say [Stdout (''probing FPGA for on-board configurations and stats...'' @ [NL])] st"
  have wf0: "wf_cli ?st0" using assms(1) by (simp add: wf_cli_def say_def)
  have eq: "rands ?st0 = rands st" "net ?st0 = net st" "f_curr ?st0 = f_curr st" "files ?st0 = files st"
    "sent ?st0 = sent st" "net_pos ?st0 = net_pos st" "writable ?st0 = writable st" by (simp_all add: say_def)
  obtain st' pr pkt where p: "probe_fpga ?st0 = Inr (st', pr)" "wf_cli st'" "f_curr st' = f_curr st"
    "rands st' = drop 14 (rands st)" "net st' = net st" "files st' = files st"
    "sent st' = sent st @ [pkt]" "frame_to probe_dst_mac (map of_char probe_payload) pkt"
    "net_pos st \<le> net_pos st'" "net_pos st' \<le> net_pos st + 101"
    "pr = (if board_heard (net st) (net_pos st) (net_pos st') then \<lparr>pr_f = g, pr_s = s\<rparr> else probe_response_zero)"
    "board_heard (net st) (net_pos st) (net_pos st') \<or> net_pos st' = net_pos st + 101" "writable st' = writable st"
    by (rule probe_fpga_ok [OF wf0, unfolded eq, OF assms(2-5)]) (rule that)
  let ?st1 = "say [Stdout (''probe done'' @ [NL])] (st'\<lparr>f_fpga := pr_f pr, s_fpga := pr_s pr\<rparr>)"
  have "probe_fpga_update_local st = Inr ?st1" using p(1) by (simp add: probe_fpga_update_local_def)
  moreover have "wf_cli ?st1"
    using p(2,11) assms(5) wf_filter_zero by (simp add: wf_cli_def say_def probe_response_zero_def)
  ultimately show thesis
    by (rule that) (use p in \<open>simp_all add: say_def probe_response_zero_def\<close>)
qed

section \<open>Saving, loading, applying\<close>

lemma save_filter_ok:
  assumes "wf_cli st" "wf_filter f" "writable st name"
  obtains t where "save_filter st f name = Inr (st\<lparr>io := t, files := (files st)(name := Some (admin_packet f))\<rparr>)"
    "admin_idle t"
proof -
  have "admin_idle (io st)" using assms(1) by (simp add: wf_cli_def)
  then obtain t where "write_to_admin_pkt True (io st) f = Inr t" "admin_idle t" "admin_file t = admin_packet f"
    using write_to_admin_pkt_refines [OF assms(2)] by blast
  then show thesis using assms(3) that by (simp add: save_filter_def)
qed

lemma save_curr_ok:
  assumes "wf_cli st" "writable st name"
  obtains t where "save_curr st name = Inr (st\<lparr>io := t, files := (files st)(name := Some (admin_packet (f_curr st)))\<rparr>)"
    "admin_idle t"
proof -
  have "wf_filter (f_curr st)" using assms(1) by (simp add: wf_cli_def)
  from save_filter_ok [OF assms(1) this assms(2)] show thesis using that unfolding save_curr_def by blast
qed

lemma read_file_ok:
  assumes "files st name = Some bs" "length bs \<le> BUFFER_SIZE"
  shows "read_file st name = (st\<lparr>file_payload_length := length bs, file_payload := bs @ drop (length bs) (file_payload st)\<rparr>, 0)"
  using assms by (simp add: read_file_def Let_def)

lemma load_saved:
  assumes "wf_filter f" "files st name = Some (admin_packet f)" "terminated (drop p buf)" "cstr_of (drop p buf) = name"
  shows "\<exists>st'. com_admin_load st buf p = Inr (st', buf, 0) \<and> f_curr st' = f"
proof -
  let ?st0 = "say [Stdout (''loading admin configuration from '' @ name @ ''...'')] st"
  let ?pl = "admin_packet f @ drop 128 (file_payload st)"
  note pk = stands_at_admin_packet [OF assms(1)]
  have "files ?st0 name = Some (admin_packet f)" using assms(2) by (simp add: say_def)
  then have rd: "read_file ?st0 name = (?st0\<lparr>file_payload_length := 128, file_payload := ?pl\<rparr>, 0)"
    using read_file_ok [of ?st0 name "admin_packet f"] pk(2) by (simp add: BUFFER_SIZE_def say_def)
  have "stands_at ?pl 0 (admin_layout f)"
    using pk length_admin_layout [OF assms(1)] by (simp add: stands_at_def)
  then have "parse_admin_bin fc ?pl 128 = Inr f" for fc by (rule parse_admin_bin_layout [OF assms(1)]) simp
  then show ?thesis using rd assms(3,4) by (simp add: com_admin_load_def percent_s_ok say_def)
qed

lemma com_admin_save_ok:
  assumes "wf_cli st" "terminated (drop p buf)" "cstr_of (drop p buf) = name" "writable st name"
  obtains st' where "com_admin_save st buf p = Inr (st', buf, 0)" "wf_cli st'" "f_curr st' = f_curr st"
    "files st' = (files st)(name := Some (admin_packet (f_curr st)))"
proof -
  let ?st0 = "say [Stdout (''saving admin configuration to '' @ name @ ''...'')] st"
  have "wf_cli ?st0" "writable ?st0 name" using assms(1,4) by (simp_all add: wf_cli_def say_def)
  then obtain t where "save_curr ?st0 name = Inr (?st0\<lparr>io := t, files := (files ?st0)(name := Some (admin_packet (f_curr ?st0)))\<rparr>)"
    "admin_idle t" by (rule save_curr_ok)
  then show thesis using assms that by (simp add: com_admin_save_def percent_s_ok say_def wf_cli_def)
qed

lemma send_file_and_check_ok:
  assumes wf: "wf_cli st" and written: "files st ADMIN_PKT_TMP_FILENAME = Some (admin_packet f)" and f: "wf_filter f"
    and mab: "wf_mac m" "wf_ip a" "wf_ip b" and rs: "plain_draws (Suc n) (rands st)"
    and fr: "frames_ok (net st)" and br: "board_replies (net st) g s" and g: "wf_filter g"
  obtains st' pkt1 pkt2 where
    "send_file_and_check st m a b p q f = Inr (st', (if board_heard (net st) (net_pos st) (net_pos st') then g else filter_zero) = f)"
    "wf_cli st'" "f_curr st' = f_curr st" "sent st' = sent st @ [pkt1, pkt2]" "frame_to admin_dst_mac (admin_packet f) pkt1"
    "frame_to probe_dst_mac (map of_char probe_payload) pkt2" "net_pos st' \<le> net_pos st + 101"
    "board_heard (net st) (net_pos st) (net_pos st') \<or> net_pos st' = net_pos st + 101"
    "rands st' = drop 14 (rands st)" "net st' = net st" "writable st' = writable st"
proof -
  let ?pk = "admin_packet f"
  note pk = stands_at_admin_packet(2) [OF f]
  let ?st2 = "st\<lparr>file_payload_length := 128, file_payload := ?pk @ drop 128 (file_payload st)\<rparr>"
  have rd: "read_file st ADMIN_PKT_TMP_FILENAME = (?st2, 0)" using written pk by (simp add: read_file_def BUFFER_SIZE_def Let_def)
  have wf2: "wf_cli ?st2" using wf pk by (simp add: wf_cli_def BUFFER_SIZE_def)
  let ?out = "packet_text m admin_dst_mac a b p q" and ?sout = "send_text (strerror st) (sendto_errno st (length (sent st)))"
  obtain buf pkt1 where fs: "form_file_packet ?st2 m admin_dst_mac a b p q =
      Inr (say ?out (?st2\<lparr>send_pkt_buf := buf, send_pkt_length := 128\<rparr>))" "length buf = BUFFER_SIZE"
      "trigger_send buf 128 = Inr pkt1" "frame_to admin_dst_mac ?pk pkt1"
    using form_and_send [OF wf2 mab(1) wf_const_macs(2) mab(2,3), of p q] pk by (auto simp: BUFFER_SIZE_def)
  let ?st3 = "?st2\<lparr>send_pkt_buf := buf, send_pkt_length := 128, sent := sent st @ [pkt1],
    console := console st @ ?out @ ?sout\<rparr>"
  have wf3: "wf_cli ?st3" using wf2 fs(2) by (simp add: wf_cli_def)
  have eq3: "net ?st3 = net st" "net_pos ?st3 = net_pos st" "f_curr ?st3 = f_curr st" "sent ?st3 = sent st @ [pkt1]"
    "rands ?st3 = rands st" "writable ?st3 = writable st" by simp_all
  obtain st' pkt2 where pr: "probe_fpga_update_local ?st3 = Inr st'" "wf_cli st'" "f_curr st' = f_curr st"
    "sent st' = (sent st @ [pkt1]) @ [pkt2]" "frame_to probe_dst_mac (map of_char probe_payload) pkt2"
    "net_pos st' \<le> net_pos st + 101"
    "f_fpga st' = (if board_heard (net st) (net_pos st) (net_pos st') then g else filter_zero)"
    "board_heard (net st) (net_pos st) (net_pos st') \<or> net_pos st' = net_pos st + 101"
    "rands st' = drop 14 (rands st)" "net st' = net st" "writable st' = writable st"
    by (rule probe_update_ok [OF wf3, unfolded eq3, OF rs fr br g]) (rule that)
  have "send_file_and_check st m a b p q f = Inr (st', (if board_heard (net st) (net_pos st) (net_pos st') then g else filter_zero) = f)"
    using rd fs(1,3) pr(1,7) by (simp add: send_file_and_check_def send_now_def check_fpga_filter_matches_def say_def)
  then show thesis by (rule that) (use pr fs(4) in simp_all)
qed

lemma apply_curr_ok:
  assumes wf: "wf_cli st" and wr: "writable st ADMIN_PKT_TMP_FILENAME" and rs: "plain_draws 2 (rands st)"
    and fr: "frames_ok (net st)" and br: "board_replies (net st) g s" and g: "wf_filter g"
  obtains st' pkt1 pkt2 where
    "apply_curr st = Inr (st', (if board_heard (net st) (net_pos st) (net_pos st') then g else filter_zero) = f_curr st)"
    "wf_cli st'" "f_curr st' = f_curr st" "sent st' = sent st @ [pkt1, pkt2]"
    "frame_to admin_dst_mac (admin_packet (f_curr st)) pkt1"
    "frame_to probe_dst_mac (map of_char probe_payload) pkt2"
    "net_pos st' \<le> net_pos st + 101"
    "board_heard (net st) (net_pos st) (net_pos st') \<or> net_pos st' = net_pos st + 101"
proof -
  let ?name = ADMIN_PKT_TMP_FILENAME
  have f: "wf_filter (f_curr st)" using wf by (simp add: wf_cli_def)
  obtain t where sv: "save_curr st ?name = Inr (st\<lparr>io := t, files := (files st)(?name := Some (admin_packet (f_curr st)))\<rparr>)" "admin_idle t"
    using wf wr by (rule save_curr_ok)
  let ?st1 = "st\<lparr>io := t, files := (files st)(?name := Some (admin_packet (f_curr st)))\<rparr>"
  have two1: "plain_draws (Suc 1) (rands ?st1)" using rs by (simp add: numeral_2_eq_2)
  obtain m a b p q where ep: "random_endpoints ?st1 = Inr (m, a, b, p, q, ?st1\<lparr>rands := drop 14 (rands ?st1)\<rparr>)"
    and mab: "wf_mac m" "wf_ip a" "wf_ip b" using two1 by (rule random_endpoints_ok)
  let ?st2 = "?st1\<lparr>rands := drop 14 (rands st)\<rparr>"
  have st2: "wf_cli ?st2" "files ?st2 ?name = Some (admin_packet (f_curr st))" "plain_draws (Suc 0) (rands ?st2)"
    using wf sv(2) two1 by (simp_all add: wf_cli_def)
  have eq: "net ?st2 = net st" "net_pos ?st2 = net_pos st" "sent ?st2 = sent st" "f_curr ?st2 = f_curr st" by simp_all
  show thesis
    by (rule send_file_and_check_ok [OF st2(1,2) f mab st2(3), unfolded eq, OF fr br g, of p q])
      (rule that, use sv(1) ep in \<open>simp_all add: apply_curr_def\<close>)
qed

section \<open>From the typed line to the edit\<close>

lemma cread_text:
  assumes "terminated (drop p buf)" "cstr_of (drop p buf) = c # cs"
  shows "cread buf p = Inr c" "c \<noteq> NUL"
proof -
  obtain rest where "drop p buf = (c # cs) @ NUL # rest" using terminated_split [OF assms(1)] assms(2) by metis
  then have "drop p buf \<noteq> []" "hd (drop p buf) = c" by simp_all
  then show "cread buf p = Inr c" by (simp add: cread_Inr hd_drop_conv_nth)
  show "c \<noteq> NUL" using NUL_cstr_of [of "drop p buf"] assms(2) by auto
qed

lemma nested_with_argument:
  assumes "terminated (drop p buf)" "cstr_of (drop p buf) = name @ sp # arg" "isspace sp" "name \<noteq> []"
    and "\<forall>c \<in> set name. \<not> isspace c" "plain_table table" "find (\<lambda>c. cmd_name c = name) table = Some cmd"
  obtains buf' q where "nested docs table st buf p = cbind (cmd_func cmd st buf' q) (\<lambda>(st, buf, _). Inr (st, buf, 0))"
    "terminated (drop q buf')" "cstr_of (drop q buf') = dropWhile isspace arg"
proof -
  obtain c cs where "name = c # cs" using assms(4) by (cases name) auto
  then have "cread buf p = Inr c" "c \<noteq> NUL" using cread_text [OF assms(1), of c] assms(2) by auto
  moreover obtain buf' q where "execute table st buf p = cmd_func cmd st buf' q" "terminated (drop q buf')"
    "cstr_of (drop q buf') = dropWhile isspace arg"
    using execute_with_argument [OF assms(1-3,5-7)] .
  ultimately show thesis using that by (simp add: nested_def)
qed

lemma tables_plain: "plain_table (commands ct)" "plain_table admin_commands" "plain_table admin_edit_commands"
  by (simp_all add: plain_table_def commands_def admin_commands_def admin_edit_commands_def table_of_def
      commands_docs_def admin_docs_def admin_edit_docs_def)

lemma table_entries:
  "find (\<lambda>c. cmd_name c = ''admin'') (commands ct) = Some \<lparr>cmd_name = ''admin'', cmd_func = com_admin, cmd_doc = ''FPGA filter administrator utilities''\<rparr>"
  "find (\<lambda>c. cmd_name c = ''edit'') admin_commands = Some \<lparr>cmd_name = ''edit'', cmd_func = com_admin_edit, cmd_doc = ''edit current admin configurations''\<rparr>"
  "find (\<lambda>c. cmd_name c = ''add'') admin_edit_commands =
     Some \<lparr>cmd_name = ''add'', cmd_func = edit_handler com_admin_edit_add, cmd_doc = ''add [filter-type] [filter-content]''\<rparr>"
  "find (\<lambda>c. cmd_name c = ''remove'') admin_edit_commands =
     Some \<lparr>cmd_name = ''remove'', cmd_func = edit_handler com_admin_edit_remove, cmd_doc = ''remove [filter-type] [filter-index]''\<rparr>"
  "find (\<lambda>c. cmd_name c = ''set'') admin_edit_commands =
     Some \<lparr>cmd_name = ''set'', cmd_func = edit_handler com_admin_edit_set, cmd_doc = ''set [filter-type] [black/white]''\<rparr>"
  by (simp_all add: commands_def admin_commands_def admin_edit_commands_def table_of_def
      commands_docs_def admin_docs_def admin_edit_docs_def)

lemma main_round_text:
  assumes "NUL \<notin> set line" "trim line = text" "text \<noteq> []"
  obtains buf p where "terminated (drop p buf)" "cstr_of (drop p buf) = text"
    "main_round ct slack st line =
       cbind (execute (commands ct) (add_history text st) buf p) (\<lambda>(st, buf, _). Inr st)"
proof -
  have "terminated (cstr line @ slack)" "cstr_of (cstr line @ slack) = line"
    using assms(1) by (simp_all add: cstr_def cstr_of_prefix)
  then obtain buf p where b: "stripwhite (cstr line @ slack) = Inr (buf, p)" "terminated (drop p buf)"
    "cstr_of (drop p buf) = text" using stripwhite_ok [of "cstr line @ slack"] assms(2) by auto
  moreover have "strlen (drop p buf) = Inr (length text)" "0 < length text"
    using b(2,3) assms(3) by (simp_all add: strlen_ok)
  ultimately show thesis using that by (simp add: main_round_def percent_s_ok)
qed

text \<open>The line \<open>admin edit <cmd> <arg>\<close> runs the edit command on the argument.\<close>

lemma edit_line:
  assumes "NUL \<notin> set line" "trim line = ''admin edit '' @ cmd @ CHR '' '' # arg" "cmd \<noteq> []"
    and "\<forall>c \<in> set cmd. \<not> isspace c" "arg \<noteq> []" "\<not> isspace (hd arg)"
    and "find (\<lambda>c. cmd_name c = cmd) admin_edit_commands = Some entry"
  obtains buf p where "terminated (drop p buf)" "cstr_of (drop p buf) = arg"
    "main_round ct slack st line = cbind (cmd_func entry (add_history (trim line) st) buf p) (\<lambda>(st, buf, _). Inr st)"
proof -
  let ?st = "add_history (trim line) st"
  have sp: "isspace CHR '' ''" by (simp add: isspace_def)
  have nsp: "\<forall>c \<in> set ''admin''. \<not> isspace c" "\<forall>c \<in> set ''edit''. \<not> isspace c" by (simp_all add: isspace_def)
  have ne: "trim line \<noteq> []" using assms(2) by simp
  obtain b0 p0 where 0: "terminated (drop p0 b0)" "cstr_of (drop p0 b0) = trim line"
    "main_round ct slack st line = cbind (execute (commands ct) ?st b0 p0) (\<lambda>(st, buf, _). Inr st)"
    using main_round_text [OF assms(1) refl ne] .
  have 0: "terminated (drop p0 b0)" "cstr_of (drop p0 b0) = ''admin'' @ CHR '' '' # ''edit '' @ cmd @ CHR '' '' # arg"
    "main_round ct slack st line = cbind (execute (commands ct) ?st b0 p0) (\<lambda>(st, buf, _). Inr st)"
    using 0 assms(2) by simp_all
  obtain b1 p1 where 1: "execute (commands ct) ?st b0 p0 =
      cmd_func \<lparr>cmd_name = ''admin'', cmd_func = com_admin, cmd_doc = ''FPGA filter administrator utilities''\<rparr> ?st b1 p1"
    "terminated (drop p1 b1)" "cstr_of (drop p1 b1) = dropWhile isspace (''edit '' @ cmd @ CHR '' '' # arg)"
    using execute_with_argument [OF 0(1,2) sp nsp(1) tables_plain(1) table_entries(1)] .
  have 1: "execute (commands ct) ?st b0 p0 = nested admin_docs admin_commands ?st b1 p1"
    "terminated (drop p1 b1)" "cstr_of (drop p1 b1) = ''edit'' @ CHR '' '' # cmd @ CHR '' '' # arg"
    using 1 by (simp_all add: isspace_def com_admin_def)
  obtain b2 p2 where 2: "nested admin_docs admin_commands ?st b1 p1 =
      cbind (cmd_func \<lparr>cmd_name = ''edit'', cmd_func = com_admin_edit, cmd_doc = ''edit current admin configurations''\<rparr> ?st b2 p2)
        (\<lambda>(st, buf, _). Inr (st, buf, 0))"
    "terminated (drop p2 b2)" "cstr_of (drop p2 b2) = dropWhile isspace (cmd @ CHR '' '' # arg)"
    using nested_with_argument [OF 1(2,3) sp _ nsp(2) tables_plain(2) table_entries(2)] by blast
  have "dropWhile isspace (cmd @ CHR '' '' # arg) = cmd @ CHR '' '' # arg" using assms(3,4) by (cases cmd) auto
  with 2(3) have t2: "cstr_of (drop p2 b2) = cmd @ CHR '' '' # arg" by simp
  obtain b3 p3 where 3: "nested admin_edit_docs admin_edit_commands ?st b2 p2 =
      cbind (cmd_func entry ?st b3 p3) (\<lambda>(st, buf, _). Inr (st, buf, 0))"
    "terminated (drop p3 b3)" "cstr_of (drop p3 b3) = dropWhile isspace arg"
    using nested_with_argument [OF 2(2) t2 sp assms(3,4) tables_plain(3) assms(7)] .
  have "dropWhile isspace arg = arg" using assms(5,6) by (cases arg) auto
  with 3(3) have t3: "cstr_of (drop p3 b3) = arg" by simp
  have "main_round ct slack st line = cbind (cmd_func entry ?st b3 p3) (\<lambda>(st, buf, _). Inr st)"
    using 0(3) 1(1) 2(1) 3(1) by (simp add: cbind_assoc split_def com_admin_edit_def)
  with 3(2) t3 that show thesis by blast
qed

end
