(* ===== verification/Launch.thy ===== *)
theory Launch
  imports Session
begin

text \<open>
  Starting and ending the client: the command line arguments (\<^verbatim>\<open>sw/admin-cli/args-parser.hh\<close>,
  \<^verbatim>\<open>main.hh\<close>), the set-up and tear-down of the sockets (\<^verbatim>\<open>sender.hh\<close>, \<^verbatim>\<open>receiver.hh\<close>) and \<open>main\<close>
  (\<^verbatim>\<open>main.cc\<close>). The arguments are the sequence of the results of \<open>getopt\<close>: the option character
  and the string of its argument. Whether a system call succeeds is part of the environment.
\<close>

section \<open>Arguments\<close>

definition IF_NAMESIZE :: nat where "IF_NAMESIZE = 16"

record args =
  if_name :: string
  if_length :: nat
  probe_board_on_launch :: bool

definition args_init :: args where
  "args_init = \<lparr>if_name = ''enp8s0'' @ replicate 11 NUL, if_length = 0, probe_board_on_launch = False\<rparr>"

text \<open>\<open>parse_args\<close> returns, or prints and calls \<open>exit(0)\<close>.\<close>

datatype launch = Run args | Exit "console list"

definition usage_text :: string where
  "usage_text = ''Usage:'' @ NL # ''-f [interface-name] '' @ TAB # '' specify interface'' @ NL #
     ''-p                  '' @ TAB # '' specify if probe FPGA on CLI launch'' @ [NL]"

fun parse_args :: "args \<Rightarrow> (char \<times> string) list \<Rightarrow> launch cres" where
  "parse_args a [] = Inr (Run a)"
| "parse_args a ((c, optarg) # opts) =
     (if c = CHR ''p'' then parse_args (a\<lparr>probe_board_on_launch := True\<rparr>) opts
      else if c = CHR ''f'' then
        cbind (strnlen optarg IF_NAMESIZE) (\<lambda>n.
        cbind (strncpy (if_name a) optarg (n + 1)) (\<lambda>nm.
        parse_args (a\<lparr>if_name := nm, if_length := n\<rparr>) opts))
      else Inr (Exit ((if c = CHR ''h'' then [] else [Stdout (''Unrecognised argument'' @ [NL])]) @ [Stdout usage_text])))"

section \<open>Sockets\<close>

text \<open>Which of the system calls succeed, and the error text of a failed \<open>bind\<close>.\<close>

record sock_env =
  send_socket_ok :: bool
  send_index_ok :: bool
  send_hwaddr_ok :: bool
  recv_socket_ok :: bool
  recv_index_ok :: bool
  recv_bind_ok :: bool
  bind_error :: string

definition unless_ok :: "bool \<Rightarrow> string \<Rightarrow> console list" where
  "unless_ok ok msg = (if ok then [] else [Stderr msg])"

text \<open>The results are \<open>ifr_name\<close> of the two requests and the reports.\<close>

definition initialise_sender_socket :: "sock_env \<Rightarrow> args \<Rightarrow> (string \<times> string \<times> console list) cres" where
  "initialise_sender_socket e a =
     cbind (strncpy (replicate IF_NAMESIZE NUL) (if_name a) (if_length a)) (\<lambda>ni.
     cbind (strncpy (replicate IF_NAMESIZE NUL) (if_name a) (if_length a)) (\<lambda>nc.
     Inr (ni, nc, [Stdout (''initialising sender socket...'' @ [NL])] @
        unless_ok (send_socket_ok e) (''ERROR in socket'' @ [NL]) @
        unless_ok (send_index_ok e) (''ERROR in index ioctl reading'' @ [NL]) @
        unless_ok (send_hwaddr_ok e) (''ERROR in SIOCGIFHWADDR ioctl reading'' @ [NL]))))"

definition initialise_receiver_socket_and_thread :: "sock_env \<Rightarrow> args \<Rightarrow> (string \<times> console list) cres" where
  "initialise_receiver_socket_and_thread e a =
     cbind (strncpy (replicate IF_NAMESIZE NUL) (if_name a) IF_NAMESIZE) (\<lambda>nm.
     Inr (nm, [Stdout (''initialising receiver socket and thread...'' @ [NL])] @
        unless_ok (recv_socket_ok e) (''ERROR in socket'' @ [NL]) @
        unless_ok (recv_index_ok e) (''ERROR in index ioctl reading!'' @ [NL]) @
        unless_ok (recv_bind_ok e) (''ERROR in binding raw socket to interface'' @ NL # '': '' @ bind_error e @ [NL])))"

definition teardown_sender :: "console list" where
  "teardown_sender = [Stdout (''tearing down sender socket...'' @ [NL])]"

definition teardown_receiver_socket_and_thread :: "console list" where
  "teardown_receiver_socket_and_thread = [Stdout (''tearing down receiver socket and thread...'' @ [NL])]"

section \<open>The main program\<close>

text \<open>From the parsed arguments to the first prompt.\<close>

definition main_start :: "sock_env \<Rightarrow> args \<Rightarrow> cli \<Rightarrow> cli cres" where
  "main_start e a st =
     (let st = say [Stdout (''Greetings! FPGA administrator v0.1, https://github.com/magetron/cpu-fpga-nwofle'' @ [NL])] st;
          st = st\<lparr>f_fpga := initialise_fpga_configuration, f_curr := initialise_fpga_configuration\<rparr> in
      cbind (initialise_sender_socket e a) (\<lambda>(_, _, out1).
      cbind (initialise_receiver_socket_and_thread e a) (\<lambda>(_, out2).
      let st = say (out1 @ out2) st in
      cbind (if probe_board_on_launch a
             then cbind (probe_fpga_update_local st) (\<lambda>st. Inr (st\<lparr>f_curr := f_fpga st\<rparr>))
             else Inr st) (\<lambda>st.
      cbind (percent_s (if_name a)) (\<lambda>name.
      Inr (say [Stdout (''currently operating on '' @ name @ [NL])] st))))))"

text \<open>The result is the final globals, or the reports of an early exit.\<close>

definition main_prog ::
  "handler \<Rightarrow> string \<Rightarrow> sock_env \<Rightarrow> cli \<Rightarrow> (char \<times> string) list \<Rightarrow> string list \<Rightarrow> cli cres" where
  "main_prog com_test slack e st opts lines =
     cbind (parse_args args_init opts) (\<lambda>l.
     case l of
       Exit out \<Rightarrow> Inr (say out st)
     | Run a \<Rightarrow>
         cbind (main_start e a st) (\<lambda>st.
         cbind (main_loop com_test slack st lines) (\<lambda>st.
         Inr (say (teardown_sender @ teardown_receiver_socket_and_thread @ [Stdout (''bye!'' @ [NL])]) st))))"

section \<open>Interface names\<close>

text \<open>The text of the last \<open>-f\<close> option, and a name in the 16 bytes of \<open>ifr_name\<close>.\<close>

definition interface_opt :: "(char \<times> string) list \<Rightarrow> string option" where
  "interface_opt opts = (case filter (\<lambda>q. fst q = CHR ''f'') opts of [] \<Rightarrow> None | fs \<Rightarrow> Some (cstr_of (snd (last fs))))"

definition ifr_name :: "string \<Rightarrow> string" where
  "ifr_name t = take IF_NAMESIZE t @ replicate (IF_NAMESIZE - length t) NUL"

text \<open>The global after \<open>-f t\<close>: 17 bytes, terminated only if the text has at most 16 characters.\<close>

definition names_interface :: "string \<Rightarrow> nat \<Rightarrow> string \<Rightarrow> bool" where
  "names_interface nm n t \<longleftrightarrow> length nm = IF_NAMESIZE + 1 \<and> n = min (length t) IF_NAMESIZE \<and>
     (if length t \<le> IF_NAMESIZE then \<exists>r. nm = t @ NUL # r else nm = take (IF_NAMESIZE + 1) t)"

lemma interface_opt_simps [simp]:
  "interface_opt [] = None"
  "interface_opt ((c, t) # opts) =
     (case interface_opt opts of None \<Rightarrow> if c = CHR ''f'' then Some (cstr_of t) else None | Some u \<Rightarrow> Some u)"
  by (auto simp: interface_opt_def split: list.splits)

lemma set_interface:
  assumes "length nm = IF_NAMESIZE + 1" "terminated optarg"
  obtains n nm' where "strnlen optarg IF_NAMESIZE = Inr n" "strncpy nm optarg (n + 1) = Inr nm'"
    "names_interface nm' n (cstr_of optarg)"
proof -
  let ?t = "cstr_of optarg" and ?n = "min (length (cstr_of optarg)) IF_NAMESIZE"
  have cs: "strncpy_chars optarg (?n + 1) = Inr (take (?n + 1) ?t @ replicate (?n + 1 - length ?t) NUL)" (is "_ = Inr ?cs")
    using assms(2) by (rule strncpy_chars_ok)
  have len: "length ?cs = ?n + 1" by simp
  have "strncpy nm optarg (?n + 1) = Inr (?cs @ drop (?n + 1) nm)"
    using assms(1) len unfolding strncpy_def cs by (simp add: cblit_def)
  moreover have "strnlen optarg IF_NAMESIZE = Inr ?n" using assms(2) by (simp add: strnlen_ok min.commute)
  moreover have "names_interface (?cs @ drop (?n + 1) nm) ?n ?t"
    using assms(1) by (auto simp: names_interface_def)
  ultimately show thesis using that by blast
qed

lemma parse_args_interface:
  assumes "list_all (\<lambda>q. fst q \<in> {CHR ''p'', CHR ''f''} \<and> terminated (snd q)) opts" "length (if_name a) = IF_NAMESIZE + 1"
  shows "\<exists>a'. parse_args a opts = Inr (Run a') \<and>
    (probe_board_on_launch a' \<longleftrightarrow> probe_board_on_launch a \<or> CHR ''p'' \<in> fst ` set opts) \<and>
    (case interface_opt opts of None \<Rightarrow> if_name a' = if_name a \<and> if_length a' = if_length a
     | Some t \<Rightarrow> names_interface (if_name a') (if_length a') t)"
  using assms
proof (induction opts arbitrary: a)
  case (Cons q opts)
  obtain c arg where o: "q = (c, arg)" by (cases q)
  consider "c = CHR ''p''" | "c = CHR ''f''" "terminated arg" using Cons.prems(1) o by auto
  then show ?case
  proof cases
    case 1
    then show ?thesis
      using Cons.IH [of "a\<lparr>probe_board_on_launch := True\<rparr>"] Cons.prems o by (auto split: option.splits)
  next
    case 2
    obtain n nm' where nm: "strnlen arg IF_NAMESIZE = Inr n" "strncpy (if_name a) arg (n + 1) = Inr nm'"
      "names_interface nm' n (cstr_of arg)"
      using set_interface [OF Cons.prems(2) 2(2)] .
    let ?a = "a\<lparr>if_name := nm', if_length := n\<rparr>"
    have "length (if_name ?a) = IF_NAMESIZE + 1" using nm(3) by (simp add: names_interface_def)
    then have "\<exists>a'. parse_args ?a opts = Inr (Run a') \<and>
      (probe_board_on_launch a' \<longleftrightarrow> probe_board_on_launch a \<or> CHR ''p'' \<in> fst ` set opts) \<and>
      (case interface_opt opts of None \<Rightarrow> if_name a' = nm' \<and> if_length a' = n | Some t \<Rightarrow> names_interface (if_name a') (if_length a') t)"
      using Cons.IH [of ?a] Cons.prems(1) by (simp cong: option.case_cong)
    with 2(1) o nm show ?thesis
      by (auto split: option.splits)
  qed
qed simp

text \<open>Both sockets get the first 16 characters of a name given with \<open>-f\<close>.\<close>

lemma strncpy_chars_prefix:
  "n \<le> length s \<Longrightarrow> NUL \<notin> set (take n s) \<Longrightarrow> strncpy_chars s n = Inr (take n s)"
  by (induction s n rule: strncpy_chars.induct) auto

lemma strncpy_ifr:
  "strncpy_chars nm n = Inr cs \<Longrightarrow> length cs \<le> IF_NAMESIZE \<Longrightarrow>
    strncpy (replicate IF_NAMESIZE NUL) nm n = Inr (cs @ replicate (IF_NAMESIZE - length cs) NUL)"
  by (simp add: strncpy_def cblit_def)

lemma strncpy_ifr_full:
  "strncpy_chars nm IF_NAMESIZE = Inr (ifr_name t) \<Longrightarrow> strncpy (replicate IF_NAMESIZE NUL) nm IF_NAMESIZE = Inr (ifr_name t)"
  by (drule strncpy_ifr) (simp_all add: ifr_name_def)

lemma named_sockets:
  assumes "names_interface (if_name a) (if_length a) t" "NUL \<notin> set t"
  shows "\<exists>out. initialise_sender_socket e a = Inr (ifr_name t, ifr_name t, out)"
    and "\<exists>out. initialise_receiver_socket_and_thread e a = Inr (ifr_name t, out)"
proof -
  have chars: "strncpy_chars (if_name a) (if_length a) = Inr (take IF_NAMESIZE t) \<and>
      strncpy_chars (if_name a) IF_NAMESIZE = Inr (ifr_name t)"
  proof (cases "length t \<le> IF_NAMESIZE")
    case True
    then obtain r where nm: "if_name a = t @ NUL # r" "if_length a = length t" using assms(1) by (auto simp: names_interface_def)
    then have "terminated (if_name a)" "cstr_of (if_name a) = t" using assms(2) by (simp_all add: cstr_of_prefix)
    then show ?thesis using True nm(2) by (simp add: strncpy_chars_ok ifr_name_def)
  next
    case False
    then have nm: "if_name a = take (IF_NAMESIZE + 1) t" "if_length a = IF_NAMESIZE" using assms(1) by (auto simp: names_interface_def)
    have "strncpy_chars (if_name a) IF_NAMESIZE = Inr (take IF_NAMESIZE (if_name a))"
      by (rule strncpy_chars_prefix) (use nm False assms(2) in \<open>auto dest: in_set_takeD\<close>)
    then show ?thesis using nm False by (simp add: ifr_name_def)
  qed
  note sc = conjunct1 [OF chars] and rc = conjunct2 [OF chars]
  have "strncpy (replicate IF_NAMESIZE NUL) (if_name a) (if_length a) = Inr (ifr_name t)"
    using strncpy_ifr [OF sc] by (simp add: ifr_name_def min_def)
  then show "\<exists>out. initialise_sender_socket e a = Inr (ifr_name t, ifr_name t, out)"
    by (simp add: initialise_sender_socket_def)
  show "\<exists>out. initialise_receiver_socket_and_thread e a = Inr (ifr_name t, out)"
    using strncpy_ifr_full [OF rc] by (simp add: initialise_receiver_socket_and_thread_def)
qed

text \<open>A longer name leaves the global array without a terminator.\<close>

lemma strlen_unterminated: "NUL \<notin> set s \<Longrightarrow> strlen s = Inl OutOfBounds"
  by (induction s) auto

lemma unterminated_name:
  assumes "names_interface nm n t" "NUL \<notin> set t" "16 < length t"
  shows "percent_s nm = Inl OutOfBounds"
proof -
  have "nm = take 17 t" using assms(1,3) by (auto simp: names_interface_def IF_NAMESIZE_def)
  then have "NUL \<notin> set nm" using assms(2) by (auto dest: in_set_takeD)
  then show ?thesis by (simp add: percent_s_def strlen_unterminated)
qed

lemma unnamed_sockets:
  assumes "if_name a = if_name args_init" "if_length a = if_length args_init"
  shows "\<exists>out. initialise_sender_socket e a = Inr (ifr_name [], ifr_name [], out)"
    and "\<exists>out. initialise_receiver_socket_and_thread e a = Inr (ifr_name ''enp8s0'', out)"
proof -
  have "strncpy (replicate IF_NAMESIZE NUL) (if_name a) 0 = Inr (ifr_name [])"
    by (simp add: strncpy_def cblit_def ifr_name_def)
  then show "\<exists>out. initialise_sender_socket e a = Inr (ifr_name [], ifr_name [], out)"
    using assms(2) by (simp add: initialise_sender_socket_def args_init_def)
  have "terminated (if_name args_init)" "cstr_of (if_name args_init) = ''enp8s0''"
    by (simp_all add: args_init_def eval_nat_numeral)
  then have "strncpy_chars (if_name a) IF_NAMESIZE = Inr (ifr_name ''enp8s0'')"
    using assms(1) by (simp add: strncpy_chars_ok ifr_name_def IF_NAMESIZE_def)
  from strncpy_ifr_full [OF this]
  show "\<exists>out. initialise_receiver_socket_and_thread e a = Inr (ifr_name ''enp8s0'', out)"
    by (simp add: initialise_receiver_socket_and_thread_def)
qed

section \<open>The first probe and the last command\<close>

text \<open>The names that the sockets get, and the name that is printed last, for a launch with the options \<open>opts\<close>.\<close>

lemma launch_interface:
  assumes "list_all (\<lambda>q. fst q \<in> {CHR ''p'', CHR ''f''} \<and> terminated (snd q)) opts" "CHR ''p'' \<in> fst ` set opts"
  obtains a ni nc nr so ro where "parse_args args_init opts = Inr (Run a)" "probe_board_on_launch a"
    "initialise_sender_socket e a = Inr (ni, nc, so)" "initialise_receiver_socket_and_thread e a = Inr (nr, ro)"
    "percent_s (if_name a) = (case interface_opt opts of None \<Rightarrow> Inr ''enp8s0'' | Some t \<Rightarrow> if 16 < length t then Inl OutOfBounds else Inr t)"
proof -
  have "length (if_name args_init) = IF_NAMESIZE + 1" by (simp add: args_init_def IF_NAMESIZE_def)
  from parse_args_interface [OF assms(1) this] assms(2)
  obtain a where a: "parse_args args_init opts = Inr (Run a)" "probe_board_on_launch a"
    "case interface_opt opts of None \<Rightarrow> if_name a = if_name args_init \<and> if_length a = if_length args_init
     | Some t \<Rightarrow> names_interface (if_name a) (if_length a) t" by blast
  show thesis
  proof (cases "interface_opt opts")
    case None
    then have n: "if_name a = if_name args_init" "if_length a = if_length args_init" using a(3) by simp_all
    have "percent_s (if_name args_init) = Inr ''enp8s0''"
      by (subst percent_s_ok) (simp_all add: args_init_def eval_nat_numeral)
    with None n unnamed_sockets [OF n, of e] show thesis using that [OF a(1,2)] by auto
  next
    case (Some t)
    then have n: "names_interface (if_name a) (if_length a) t" and nul: "NUL \<notin> set t"
      using a(3) NUL_cstr_of by (auto simp: interface_opt_def split: list.splits)
    have "percent_s (if_name a) = Inr t" if short: "\<not> 16 < length t"
    proof -
      obtain r where "if_name a = t @ NUL # r" using n short by (auto simp: names_interface_def IF_NAMESIZE_def)
      then show ?thesis using nul by (simp add: percent_s_ok cstr_of_prefix)
    qed
    with unterminated_name [OF n nul] have "percent_s (if_name a) = (if 16 < length t then Inl OutOfBounds else Inr t)" by simp
    with Some named_sockets [OF n nul, of e] show thesis using that [OF a(1,2)] by auto
  qed
qed

lemma main_start_probe:
  assumes "wf_cli st" "plain_draws 1 (rands st)" "frames_ok (net st)" "board_replies (net st) g s" "wf_filter g"
    and socks: "initialise_sender_socket e a = Inr (ni, nc, so)" "initialise_receiver_socket_and_thread e a = Inr (nr, ro)"
    and "probe_board_on_launch a"
  obtains st' where "main_start e a st =
      cbind (percent_s (if_name a)) (\<lambda>name. Inr (say [Stdout (''currently operating on '' @ name @ [NL])] st'))"
    "wf_cli st'" "f_curr st' = (if board_heard (net st) (net_pos st) (net_pos st + 101) then g else filter_zero)"
    "f_fpga st' = f_curr st'" "length (sent st') = Suc (length (sent st))"
proof -
  let ?st = "say (so @ ro) ((say [Stdout (''Greetings! FPGA administrator v0.1, https://github.com/magetron/cpu-fpga-nwofle'' @ [NL])] st)
      \<lparr>f_fpga := initialise_fpga_configuration, f_curr := initialise_fpga_configuration\<rparr>)"
  have wf: "wf_cli ?st" using assms(1) by (simp add: wf_cli_def say_def wf_initial_configuration)
  have eq: "rands ?st = rands st" "net ?st = net st" "net_pos ?st = net_pos st" "sent ?st = sent st" by (simp_all add: say_def)
  have draws: "plain_draws (Suc 0) (rands st)" using assms(2) by simp
  obtain st' pkt where p: "probe_fpga_update_local ?st = Inr st'" "wf_cli st'" "sent st' = sent st @ [pkt]"
    "net_pos st' \<le> net_pos st + 101"
    "f_fpga st' = (if board_heard (net st) (net_pos st) (net_pos st') then g else filter_zero)"
    "board_heard (net st) (net_pos st) (net_pos st') \<or> net_pos st' = net_pos st + 101"
    by (rule probe_update_ok [OF wf, unfolded eq, OF draws assms(3-5)]) (rule that)
  have heard: "board_heard (net st) (net_pos st) (net_pos st') \<longleftrightarrow> board_heard (net st) (net_pos st) (net_pos st + 101)"
    using p(4,6) by (force simp: board_heard_def)
  show thesis
  proof (rule that [of "st'\<lparr>f_curr := f_fpga st'\<rparr>"])
    show "main_start e a st = cbind (percent_s (if_name a))
        (\<lambda>name. Inr (say [Stdout (''currently operating on '' @ name @ [NL])] (st'\<lparr>f_curr := f_fpga st'\<rparr>)))"
      using socks p(1) assms(8) by (simp add: main_start_def Let_def)
  qed (use p heard in \<open>simp_all add: wf_cli_def\<close>)
qed

lemma quit_round:
  "main_round ct (NUL # r) st ''quit'' = Inr ((add_history ''quit'' st)\<lparr>cli_done := True\<rparr>)"
proof -
  have "stripwhite (cstr ''quit'' @ NUL # r) = Inr (cstr ''quit'' @ NUL # r, 0)"
    by (simp add: stripwhite_def cstr_def isspace_def cread_def cwrite_def eval_nat_numeral)
  moreover have "execute (commands ct) (add_history ''quit'' st) (cstr ''quit'' @ NUL # r) 0 =
      com_quit (add_history ''quit'' st) (cstr ''quit'' @ NUL # r) 5"
    by (simp add: execute_def cstr_def isspace_def cwrite_def commands_def commands_docs_def table_of_def eval_nat_numeral)
  ultimately show ?thesis
    by (simp add: main_round_def com_quit_def percent_s_ok strlen_ok cstr_of_cstr cstr_def)
qed

end
