(* ===== verification/Completion.thy ===== *)
theory Completion
  imports Admin_Commands "HOL-Library.Sublist"
begin

text \<open>
  Completion of top-level commands, \<^verbatim>\<open>sw/admin-cli/completion.hh\<close>. \<open>command_generator\<close> keeps a position
  and a length in static variables from one call to the next; \<open>completion_matches\<close> of the line
  editing library calls it with state 0 first and then until it returns the null pointer.
\<close>

section \<open>The generator\<close>

record generator =
  list_index :: nat
  gen_len :: nat

text \<open>\<open>while ((name = commands[list_index].name))\<close> over the names from \<open>list_index\<close> on.\<close>

fun generator_scan :: "string \<Rightarrow> nat \<Rightarrow> string list \<Rightarrow> nat \<Rightarrow> (string option \<times> nat) cres" where
  "generator_scan text len [] i = Inr (None, i)"
| "generator_scan text len (name # names) i =
     cbind (strncmp_eq (cstr name) text len) (\<lambda>eq.
     if eq then cbind (dupstr (cstr name)) (\<lambda>d. Inr (Some d, Suc i))
     else generator_scan text len names (Suc i))"

definition command_generator ::
  "string list \<Rightarrow> string \<Rightarrow> nat \<Rightarrow> generator \<Rightarrow> (string option \<times> generator) cres" where
  "command_generator names text state g =
     cbind (if state = 0 then cbind (strlen text) (\<lambda>n. Inr \<lparr>list_index = 0, gen_len = n\<rparr>) else Inr g) (\<lambda>g.
     cbind (generator_scan text (gen_len g) (drop (list_index g) names) (list_index g)) (\<lambda>(r, i).
     Inr (r, g\<lparr>list_index := i\<rparr>)))"

text \<open>The calls of \<open>completion_matches\<close>; the first argument bounds their number.\<close>

fun completion_calls ::
  "nat \<Rightarrow> string list \<Rightarrow> string \<Rightarrow> nat \<Rightarrow> generator \<Rightarrow> string list cres" where
  "completion_calls 0 names text state g = Inl Unfinished"
| "completion_calls (Suc fuel) names text state g =
     cbind (command_generator names text state g) (\<lambda>(r, g).
     case r of None \<Rightarrow> Inr []
     | Some d \<Rightarrow> cbind (completion_calls fuel names text (Suc state) g) (\<lambda>ds. Inr (d # ds)))"

text \<open>\<open>admincli_completion\<close>: only a word at the start of the line is completed.\<close>

definition admincli_completion ::
  "nat \<Rightarrow> string list \<Rightarrow> string \<Rightarrow> int \<Rightarrow> generator \<Rightarrow> string list cres" where
  "admincli_completion fuel names text start g =
     (if start = 0 then completion_calls fuel names text 0 g else Inr [])"

section \<open>What is offered\<close>

lemma strncmp_prefix:
  assumes "NUL \<notin> set name" "NUL \<notin> set t"
  shows "strncmp_eq (cstr name) (t @ NUL # rest) (length t) = Inr (prefix t name)"
  using assms
proof (induction t arbitrary: name)
  case (Cons c t)
  then show ?case by (cases name) (auto simp: cstr_def)
qed simp

lemma dupstr_cstr: "NUL \<notin> set name \<Longrightarrow> dupstr (cstr name) = Inr (cstr name)"
  by (simp add: dupstr_def strlen_ok cstr_of_cstr) (simp add: cstr_def)

text \<open>One scan finds the next name with the prefix and stops behind it.\<close>

lemma generator_scan_ok:
  assumes "list_all (\<lambda>n. NUL \<notin> set n) names" "NUL \<notin> set t"
  shows "\<exists>r k. generator_scan (t @ NUL # rest) (length t) names i = Inr (r, i + k) \<and> k \<le> length names \<and>
    (case r of None \<Rightarrow> filter (prefix t) names = []
     | Some d \<Rightarrow> 0 < k \<and> map cstr (filter (prefix t) names) = d # map cstr (filter (prefix t) (drop k names)))"
  using assms(1)
proof (induction names arbitrary: i)
  case (Cons n ns)
  show ?case
  proof (cases "prefix t n")
    case True
    then show ?thesis
      using Cons.prems by (intro exI [of _ "Some (cstr n)"] exI [of _ 1])
        (simp add: strncmp_prefix assms(2) dupstr_cstr)
  next
    case False
    obtain r k where "generator_scan (t @ NUL # rest) (length t) ns (Suc i) = Inr (r, Suc i + k)" "k \<le> length ns"
      "case r of None \<Rightarrow> filter (prefix t) ns = []
       | Some d \<Rightarrow> 0 < k \<and> map cstr (filter (prefix t) ns) = d # map cstr (filter (prefix t) (drop k ns))"
      using Cons by fastforce
    with False show ?thesis
      using Cons.prems by (intro exI [of _ r] exI [of _ "Suc k"]) (simp add: strncmp_prefix assms(2) split: option.splits)
  qed
qed simp

text \<open>
  The calls that follow a call with a nonzero state, from any position, give the remaining names
  with the prefix.
\<close>

lemma completion_calls_from:
  assumes "list_all (\<lambda>n. NUL \<notin> set n) names" "NUL \<notin> set t"
    and "length names - i < fuel" "i \<le> length names"
    and "g = \<lparr>list_index = i, gen_len = length t\<rparr> \<and> state \<noteq> 0 \<or> state = 0 \<and> i = 0"
  shows "completion_calls fuel names (t @ NUL # rest) state g = Inr (map cstr (filter (prefix t) (drop i names)))"
  using assms(3,4,5)
proof (induction fuel arbitrary: i state g)
  case (Suc fuel)
  let ?s = "t @ NUL # rest"
  have "list_all (\<lambda>n. NUL \<notin> set n) (drop i names)"
    using assms(1) by (auto simp: list_all_iff dest: in_set_dropD)
  then obtain r k where sc: "generator_scan ?s (length t) (drop i names) i = Inr (r, i + k)" "k \<le> length names - i"
    "case r of None \<Rightarrow> filter (prefix t) (drop i names) = []
     | Some d \<Rightarrow> 0 < k \<and> map cstr (filter (prefix t) (drop i names)) = d # map cstr (filter (prefix t) (drop k (drop i names)))"
    using generator_scan_ok [OF _ assms(2), of "drop i names" rest i] by auto
  have "strlen ?s = Inr (length t)" using assms(2) by (simp add: strlen_ok cstr_of_prefix)
  then have call: "command_generator names ?s state g = Inr (r, \<lparr>list_index = i + k, gen_len = length t\<rparr>)"
    using Suc.prems(3) sc(1) by (auto simp: command_generator_def)
  have next_calls: "completion_calls fuel names ?s (Suc state) \<lparr>list_index = i + k, gen_len = length t\<rparr> =
      Inr (map cstr (filter (prefix t) (drop (i + k) names)))" if "0 < k"
    using that Suc.prems(1,2) sc(2) by (intro Suc.IH) auto
  show ?case
    using call sc(3) next_calls by (cases r) (simp_all add: add.commute)
qed simp

end
