(* ===== verification/Crc32.thy ===== *)
theory Crc32
  imports Addr_Text
begin

text \<open>
  The Ethernet frame checker, \<^verbatim>\<open>sw/eth-crc32-checker/crc32-checker.c\<close>: the parameterised CRC model
  (\<open>cm_t\<close>), its instance for the Ethernet checksum, and the program that reads frames from files
  and compares their trailing four bytes. What \<open>fscanf\<close> delivers from a file is a list of scan
  results, and the end of the list is the end of the file. The register algorithm is related to
  the definition of the checksum by polynomial division over the two element field.
\<close>

unbundle bit_operations_syntax

section \<open>The CRC model\<close>

record cm_t =
  cm_width :: u32
  cm_poly :: u32
  cm_init :: u32
  cm_refin :: u8
  cm_refot :: u8
  cm_xorot :: u32
  cm_reg :: u32

text \<open>\<open>1L << X\<close>, in 64 bits.\<close>

definition BITMASK :: "u32 \<Rightarrow> u64" where "BITMASK x = push_bit (unat x) 1"

text \<open>The loop of \<open>reflect\<close>: \<open>i\<close> counts up to \<open>b\<close>; the result is \<open>v\<close>.\<close>

definition reflect_step :: "u32 \<Rightarrow> u32 \<times> u32 \<Rightarrow> nat \<Rightarrow> u32 \<times> u32" where
  "reflect_step b = (\<lambda>(v, t) i.
     (if t AND 1 \<noteq> 0 then ucast (ucast v OR BITMASK ((b - 1) - word_of_nat i))
      else ucast (ucast v AND NOT (BITMASK ((b - 1) - word_of_nat i))),
      drop_bit 1 t))"

definition reflect :: "u32 \<Rightarrow> u32 \<Rightarrow> u32" where
  "reflect v b = fst (foldl (reflect_step b) (v, v) [0..<unat b])"

definition widmask :: "cm_t \<Rightarrow> u32" where
  "widmask cm = ucast (push_bit 1 (BITMASK (cm_width cm - 1) - 1) OR 1)"

definition cm_ini :: "cm_t \<Rightarrow> cm_t" where
  "cm_ini cm = cm\<lparr>cm_reg := cm_init cm\<rparr>"

text \<open>The body of the loop over the eight bits of \<open>cm_nxt\<close>.\<close>

definition cm_bit :: "cm_t \<Rightarrow> cm_t" where
  "cm_bit cm =
     (let topbit = ucast (BITMASK (cm_width cm - 1)); reg = cm_reg cm;
          reg = (if reg AND topbit \<noteq> 0 then push_bit 1 reg XOR cm_poly cm else push_bit 1 reg)
      in cm\<lparr>cm_reg := reg AND widmask cm\<rparr>)"

definition cm_nxt :: "cm_t \<Rightarrow> u32 \<Rightarrow> cm_t" where
  "cm_nxt cm ch =
     (let uch = (if cm_refin cm \<noteq> 0 then reflect ch 8 else ch)
      in (cm_bit ^^ 8) (cm\<lparr>cm_reg := cm_reg cm XOR push_bit (unat (cm_width cm - 8)) uch\<rparr>))"

definition cm_crc :: "cm_t \<Rightarrow> u32" where
  "cm_crc cm =
     (if cm_refot cm \<noteq> 0 then cm_xorot cm XOR reflect (cm_reg cm) (cm_width cm) else cm_xorot cm XOR cm_reg cm)"

text \<open>The model that \<open>main\<close> sets up.\<close>

definition eth_cm :: cm_t where
  "eth_cm = \<lparr>cm_width = 32, cm_poly = 0x04C11DB7, cm_init = 0xFFFFFFFF, cm_refin = 1, cm_refot = 1,
     cm_xorot = 0xFFFFFFFF, cm_reg = 0\<rparr>"

section \<open>The program\<close>

definition MAX_FRAME_SIZE :: nat where "MAX_FRAME_SIZE = 10000"
definition EOF :: u32 where "EOF = 0xFFFFFFFF"

text \<open>One conversion of \<open>fscanf\<close>: a byte, or input that is no hexadecimal number.\<close>

datatype scan = Scanned u8 | NoMatch

text \<open>A file of the command line: its name, its conversions if it can be opened, and the outcomes of \<open>calloc\<close> and \<open>fclose\<close>.\<close>

record crc_input =
  in_name :: string
  in_scan :: "scan list option"
  calloc_ok :: bool
  fclose_ok :: bool

text \<open>The static variables of \<open>main\<close>; they keep their values from file to file.\<close>

record crc_static =
  file_ret :: u32
  frame_sz :: u16

definition crc_static_init :: crc_static where
  "crc_static_init = \<lparr>file_ret = 0, frame_sz = 0\<rparr>"

text \<open>\<open>%x\<close>.\<close>

fun hexl :: "nat \<Rightarrow> string" where
  "hexl n = (if n < 16 then [''0123456789abcdef'' ! n] else hexl (n div 16) @ [''0123456789abcdef'' ! (n mod 16)])"

text \<open>The reading loop: the statics, the buffer, the text printed and whether the program exits.\<close>

fun crc_read :: "scan list \<Rightarrow> crc_static \<Rightarrow> u8 list \<Rightarrow> crc_static \<times> u8 list \<times> string \<times> bool" where
  "crc_read scans s buf =
     (if file_ret s \<noteq> EOF \<and> unat (frame_sz s) < MAX_FRAME_SIZE then
        (case scans of
           [] \<Rightarrow> (s\<lparr>file_ret := EOF\<rparr>, buf, [], False)
         | NoMatch # _ \<Rightarrow> (s\<lparr>file_ret := 0\<rparr>, buf, [], True)
         | Scanned b # rest \<Rightarrow>
             (case crc_read rest \<lparr>file_ret = 1, frame_sz = frame_sz s + 1\<rparr> (buf[unat (frame_sz s) := b]) of
                (s, buf, out, stop) \<Rightarrow> (s, buf, ''0x'' @ hexl (unat b) @ '' '' @ out, stop)))
      else (s, buf, [], False))"

text \<open>\<open>for (uint8_t j = 0; j < max; j += 1)\<close>: \<open>None\<close> if the loop does not end.\<close>

partial_function (option) crc_loop :: "u8 list \<Rightarrow> int \<Rightarrow> u8 \<Rightarrow> cm_t \<Rightarrow> cm_t cres option" where
  "crc_loop buf mx j cm =
     (if uint j < mx
      then (case cread buf (unat j) of
              Inl e \<Rightarrow> Some (Inl e)
            | Inr b \<Rightarrow> crc_loop buf mx (j + 1) (cm_nxt cm (ucast b)))
      else Some (Inr cm))"

text \<open>\<open>crc_buffer[frame_sz - k]\<close>, with \<open>frame_sz - k\<close> in \<open>int\<close>.\<close>

definition crc_byte :: "u8 list \<Rightarrow> u16 \<Rightarrow> nat \<Rightarrow> u32 cres" where
  "crc_byte buf sz k =
     (if unat sz < k then Inl OutOfBounds else cbind (cread buf (unat sz - k)) (\<lambda>b. Inr (ucast b)))"

definition frame_fcs :: "u8 list \<Rightarrow> u16 \<Rightarrow> u32 cres" where
  "frame_fcs buf sz =
     cbind (crc_byte buf sz 1) (\<lambda>b1. cbind (crc_byte buf sz 2) (\<lambda>b2.
     cbind (crc_byte buf sz 3) (\<lambda>b3. cbind (crc_byte buf sz 4) (\<lambda>b4.
     Inr (push_bit 24 b1 OR push_bit 16 b2 OR push_bit 8 b3 OR b4)))))"

text \<open>The verdict of a file: the computed checksum and the one in the frame.\<close>

datatype crc_verdict = Skipped | Stop | Verdict u32 u32

text \<open>
  One round of the loop of \<open>main\<close>. The local \<open>max\<close> is an \<open>int16_t\<close>. Of the messages of \<open>perror\<close> the
  program's part is kept, without the system's error text.
\<close>

definition crc_file ::
  "string \<Rightarrow> crc_input \<Rightarrow> crc_static \<Rightarrow> (crc_static \<times> console list \<times> crc_verdict) cres option" where
  "crc_file prog f s =
     (case in_scan f of
        None \<Rightarrow> Some (Inr (s, [Stderr (prog @ '': can'' @ [CHR 0x27] @ ''t open '' @ in_name f @ [NL])], Skipped))
      | Some scans \<Rightarrow>
          let out = [Stdout (in_name f @ '': '')] in
          if \<not> calloc_ok f then Some (Inr (s, out @ [Stdout (''Failed to calloc() CRC buffer!'' @ [NL])], Stop)) else
          case crc_read scans s (replicate MAX_FRAME_SIZE 0) of (s, buf, text, stop) \<Rightarrow>
          let out = out @ [Stdout text] in
          if stop then Some (Inr (s, out @ [Stderr ''Error reading packet file''], Stop)) else
          let out = out @ [Stdout (NL # ''File length: '' @ dec (unat (frame_sz s)) @ '' bytes'' @ [NL])] in
          if \<not> fclose_ok f then Some (Inr (s, out @ [Stderr ''Error closing file''], Skipped)) else
          let mx = sint (ucast (frame_sz s) - 4 :: 16 word) in
          case crc_loop buf mx 0 (cm_ini eth_cm) of
            None \<Rightarrow> None
          | Some (Inl e) \<Rightarrow> Some (Inl e)
          | Some (Inr cm) \<Rightarrow>
              let crc = cm_crc cm AND 0xffffffff in
              Some (cbind (frame_fcs buf (frame_sz s)) (\<lambda>fcs.
                Inr (s, out @ [Stdout (''Calculated CRC: 0x'' @ hexl (unat crc) @ '', Frame FCS: 0x'' @ hexl (unat fcs) @ [NL]),
                       Stdout ((if crc = fcs then ''Matched!'' else ''Not matched!'') @ [NL])], Verdict crc fcs))))"

text \<open>The loop of \<open>main\<close> over the files; without one, \<open>fscanf\<close> is called on a null pointer.\<close>

fun crc_files ::
  "string \<Rightarrow> crc_input list \<Rightarrow> crc_static \<Rightarrow> (console list \<times> crc_verdict list) cres option" where
  "crc_files prog [] s = Some (Inr ([], []))"
| "crc_files prog (f # fs) s =
     (case crc_file prog f s of
        None \<Rightarrow> None
      | Some (Inl e) \<Rightarrow> Some (Inl e)
      | Some (Inr (s, out, v)) \<Rightarrow>
          if v = Stop then Some (Inr (out, [v]))
          else (case crc_files prog fs s of
                  None \<Rightarrow> None
                | Some (Inl e) \<Rightarrow> Some (Inl e)
                | Some (Inr (out', vs)) \<Rightarrow> Some (Inr (out @ out', v # vs))))"

definition crc_main :: "string \<Rightarrow> crc_input list \<Rightarrow> (console list \<times> crc_verdict list) cres option" where
  "crc_main prog files = (if files = [] then Some (Inl NullPointer) else crc_files prog files crc_static_init)"

declare crc_read.simps [simp del] hexl.simps [simp del]

section \<open>The checksum by polynomial division\<close>

text \<open>
  A polynomial over the two element field is the list of its coefficients, highest degree first.
  \<open>gf2_add\<close> adds its first argument to the leading coefficients of the second; \<open>gf2_mod\<close> is
  long division by the monic polynomial with the lower coefficients \<open>g\<close>.
\<close>

fun gf2_add :: "bool list \<Rightarrow> bool list \<Rightarrow> bool list" where
  "gf2_add [] ys = ys"
| "gf2_add (x # xs) [] = []"
| "gf2_add (x # xs) (y # ys) = (x \<noteq> y) # gf2_add xs ys"

lemma length_gf2_add [simp]: "length (gf2_add xs ys) = length ys"
  by (induction xs ys rule: gf2_add.induct) auto

fun gf2_mod :: "bool list \<Rightarrow> bool list \<Rightarrow> bool list" where
  "gf2_mod g [] = []"
| "gf2_mod g (x # xs) = (if length xs < length g then x # xs else gf2_mod g (if x then gf2_add g xs else xs))"

text \<open>The lower coefficients of the generator, and the checksum of a message, low bit first.\<close>

definition eth_poly :: "bool list" where
  "eth_poly = rev (word_bits 32 (0x04C11DB7 :: u32))"

definition crc_spec :: "u8 list \<Rightarrow> bool list" where
  "crc_spec bs = map Not (gf2_mod eth_poly (gf2_add (replicate 32 True) (bytes_bits bs @ replicate 32 False)))"

lemma gf2_add_commute: "gf2_add xs (gf2_add ys zs) = gf2_add ys (gf2_add xs zs)"
proof (induction xs ys arbitrary: zs rule: gf2_add.induct)
  case (3 x xs y ys)
  then show ?case by (cases zs) auto
qed (auto simp: neq_Nil_conv)

lemma gf2_add_sym: "length xs = length ys \<Longrightarrow> gf2_add xs ys = gf2_add ys xs"
  by (induction xs ys rule: list_induct2) auto

lemma gf2_add_assoc: "length xs \<le> length ys \<Longrightarrow> gf2_add (gf2_add xs ys) zs = gf2_add xs (gf2_add ys zs)"
proof (induction xs ys arbitrary: zs rule: gf2_add.induct)
  case (3 x xs y ys)
  then show ?case by (cases zs) auto
qed auto

lemma gf2_add_snoc [simp]: "gf2_add (xs @ [False]) ys = gf2_add xs ys"
  by (induction xs ys rule: gf2_add.induct) (auto simp: neq_Nil_conv, case_tac ys, auto)

lemma gf2_add_append: "length xs \<le> length ys \<Longrightarrow> gf2_add xs (ys @ zs) = gf2_add xs ys @ zs"
  by (induction xs ys rule: gf2_add.induct) auto

lemma gf2_add_zeros: "gf2_add xs (replicate (length xs) False) = xs"
  by (induction xs) auto

lemma nth_gf2_add:
  "i < length ys \<Longrightarrow> gf2_add xs ys ! i = (if i < length xs then xs ! i \<noteq> ys ! i else ys ! i)"
proof (induction xs ys arbitrary: i rule: gf2_add.induct)
  case (3 x xs y ys)
  then show ?case by (cases i) auto
qed auto

section \<open>The shift register\<close>

text \<open>The register as a list, highest bit first: one step on an input bit.\<close>

definition shift_bit :: "bool list \<Rightarrow> bool list \<Rightarrow> bool \<Rightarrow> bool list" where
  "shift_bit g r b = (let r' = tl r @ [False] in if hd r \<noteq> b then gf2_add g r' else r')"

lemma length_shift_bit [simp]: "r \<noteq> [] \<Longrightarrow> length (shift_bit g r b) = length r"
  by (simp add: shift_bit_def Let_def)

text \<open>Shifting the message through the register divides the message followed by zeros.\<close>

lemma register_divides:
  assumes "length r = length g" "g \<noteq> []"
  shows "gf2_mod g (gf2_add r (m @ replicate (length g) False)) = foldl (shift_bit g) r m"
  using assms(1)
proof (induction m arbitrary: r)
  case Nil
  then have "gf2_add r (replicate (length g) False) = r" using gf2_add_zeros [of r] by simp
  with Nil assms(2) show ?case by (cases r) auto
next
  case (Cons b m)
  obtain x rs where r: "r = x # rs" using Cons.prems assms(2) by (cases r) auto
  let ?z = "m @ replicate (length g) False"
  have "gf2_mod g (gf2_add r (b # ?z)) = gf2_mod g (gf2_add (shift_bit g r b) ?z)"
    using Cons.prems by (simp add: r shift_bit_def Let_def gf2_add_assoc)
  then show ?case using Cons.IH [of "shift_bit g r b"] Cons.prems r by simp
qed

text \<open>Adding several bits to the top of the register and shifting in zeros shifts in the bits.\<close>

lemma register_chunk:
  assumes "length bs \<le> length r"
  shows "((\<lambda>r. shift_bit g r False) ^^ length bs) (gf2_add bs r) = foldl (shift_bit g) r bs"
  using assms
proof (induction bs arbitrary: r)
  case (Cons b bs)
  then obtain x rs where r: "r = x # rs" by (cases r) auto
  have le: "length bs \<le> length rs" using Cons.prems r by simp
  have "shift_bit g (gf2_add (b # bs) r) False = gf2_add bs (shift_bit g r b)"
    using gf2_add_commute [of g bs "rs @ [False]"] by (auto simp: r shift_bit_def Let_def gf2_add_append [OF le])
  then show ?case using Cons.IH [of "shift_bit g r b"] Cons.prems r by (simp add: funpow_Suc_right del: funpow.simps)
qed simp

section \<open>The register of the program\<close>

definition reg_list :: "u32 \<Rightarrow> bool list" where "reg_list w = rev (word_bits 32 w)"

lemma length_reg_list [simp]: "length (reg_list w) = 32"
  by (simp add: reg_list_def)

lemma nth_reg_list: "i < 32 \<Longrightarrow> reg_list w ! i = bit w (31 - i)"
  by (simp add: reg_list_def rev_nth)

lemma reg_list_XOR: "reg_list (a XOR b) = gf2_add (reg_list b) (reg_list a)"
  by (rule nth_equalityI) (auto simp: nth_gf2_add nth_reg_list bit_xor_iff)

lemma reg_list_shift: "reg_list (push_bit 1 w) = tl (reg_list w) @ [False]"
proof (rule nth_equalityI)
  fix i assume i: "i < length (reg_list (push_bit 1 w))"
  then show "reg_list (push_bit 1 w) ! i = (tl (reg_list w) @ [False]) ! i"
    by (cases "i < 31") (auto simp: nth_append nth_tl nth_reg_list bit_push_bit_iff simp del: push_bit_Suc One_nat_def)
qed simp

lemma hd_reg_list: "hd (reg_list w) = bit w 31"
  using nth_reg_list [of 0 w] by (simp add: hd_conv_nth flip: length_0_conv)

lemma widmask_32: "cm_width cm = 32 \<Longrightarrow> widmask cm = - 1"
  by (simp add: widmask_def BITMASK_def)

lemma topbit_32: "w AND ucast (BITMASK 31) \<noteq> (0 :: u32) \<longleftrightarrow> bit w 31"
proof -
  have top: "bit (ucast (BITMASK 31) :: u32) n \<longleftrightarrow> n = 31" for n
    unfolding BITMASK_def by (auto simp only: unat_numeral bit_unsigned_iff bit_push_bit_iff bit_1_iff) simp_all
  have "w AND ucast (BITMASK 31) = 0" if "\<not> bit w 31"
    by (rule bit_word_eqI) (use that in \<open>auto simp: bit_and_iff top\<close>)
  moreover have "bit (w AND ucast (BITMASK 31)) 31 \<longleftrightarrow> bit w 31" by (simp add: bit_and_iff top)
  ultimately show ?thesis by auto
qed

lemma cm_bit_list:
  assumes "cm_width cm = 32" "cm_poly cm = 0x04C11DB7"
  shows "reg_list (cm_reg (cm_bit cm)) = shift_bit eth_poly (reg_list (cm_reg cm)) False"
proof -
  have "eth_poly = reg_list 0x04C11DB7" by (simp only: eth_poly_def reg_list_def)
  then show ?thesis
    using assms by (simp add: cm_bit_def Let_def widmask_32 topbit_32 shift_bit_def hd_reg_list reg_list_shift
        reg_list_XOR del: push_bit_Suc One_nat_def)
qed

text \<open>\<open>reflect\<close> reverses the low \<open>b\<close> bits and keeps the others.\<close>

lemma bit_BITMASK: "k < 64 \<Longrightarrow> bit (BITMASK x) k \<longleftrightarrow> k = unat x"
  by (auto simp: BITMASK_def bit_exp_iff)

lemma reflect_loop:
  assumes "i \<le> unat b" "unat b \<le> 32"
  shows "snd (foldl (reflect_step b) (v, v) [0..<i]) = drop_bit i v \<and>
    (\<forall>k < 32. bit (fst (foldl (reflect_step b) (v, v) [0..<i])) k =
      (if k < unat b \<and> unat b - 1 - k < i then bit v (unat b - 1 - k) else bit v k))"
  using assms(1)
proof (induction i)
  case (Suc i)
  define vt where "vt = foldl (reflect_step b) (v, v) [0..<i]"
  have t: "snd vt = drop_bit i v" and
    vb: "\<And>k. k < 32 \<Longrightarrow> bit (fst vt) k = (if k < unat b \<and> unat b - 1 - k < i then bit v (unat b - 1 - k) else bit v k)"
    using Suc by (auto simp: vt_def)
  let ?m = "(b - 1) - word_of_nat i :: u32"
  have m: "unat ?m = unat b - 1 - i"
  proof -
    have "unat (b - 1) = unat b - 1" using Suc.prems by (subst unat_sub) (auto simp: word_le_nat_alt)
    moreover have "unat (word_of_nat i :: u32) = i" using Suc.prems assms(2) by (simp add: unsigned_of_nat take_bit_nat_eq_self_iff)
    ultimately show ?thesis using Suc.prems by (subst unat_sub) (auto simp: word_le_nat_alt)
  qed
  have bm: "bit (BITMASK ?m) k \<longleftrightarrow> k = unat b - 1 - i" if "k < 32" for k
    using that m by (simp add: bit_BITMASK)
  have odd: "snd vt AND 1 \<noteq> 0 \<longleftrightarrow> bit v i" by (simp add: t and_one_eq bit_iff_odd_drop_bit odd_iff_mod_2_eq_one)
  have step: "foldl (reflect_step b) (v, v) [0..<Suc i] = reflect_step b vt i" by (simp add: vt_def)
  have st: "fst (reflect_step b vt i) = (if bit v i then ucast (ucast (fst vt) OR BITMASK ?m) else ucast (ucast (fst vt) AND NOT (BITMASK ?m)))"
    "snd (reflect_step b vt i) = drop_bit 1 (snd vt)"
    using odd by (simp_all add: reflect_step_def split_def)
  have bits: "bit (fst (reflect_step b vt i)) k = (if k = unat b - 1 - i then bit v i else bit (fst vt) k)" if "k < 32" for k
    using that bm [OF that] unfolding st by (auto simp: bit_unsigned_iff bit_or_iff bit_and_iff bit_not_iff)
  have "bit (fst (reflect_step b vt i)) k =
      (if k < unat b \<and> unat b - 1 - k < Suc i then bit v (unat b - 1 - k) else bit v k)" if "k < 32" for k
    unfolding bits [OF that] vb [OF that] using Suc.prems that by (auto simp: less_Suc_eq)
  moreover have "snd (reflect_step b vt i) = drop_bit (Suc i) v" unfolding st t by simp
  ultimately show ?case unfolding step by blast
qed simp

lemma bit_reflect:
  "unat b \<le> 32 \<Longrightarrow> k < 32 \<Longrightarrow> bit (reflect v b) k = (if k < unat b then bit v (unat b - 1 - k) else bit v k)"
  using reflect_loop [of "unat b" b v] by (auto simp: reflect_def)

text \<open>The parameters of the Ethernet checksum.\<close>

definition eth_params :: "cm_t \<Rightarrow> bool" where
  "eth_params cm \<longleftrightarrow> cm = eth_cm\<lparr>cm_reg := cm_reg cm\<rparr>"

lemma eth_paramsD:
  assumes "eth_params cm"
  shows "cm_width cm = 32" "cm_poly cm = 0x04C11DB7" "cm_refin cm \<noteq> 0" "cm_refot cm \<noteq> 0" "cm_xorot cm = 0xFFFFFFFF"
    "eth_params (cm\<lparr>cm_reg := r\<rparr>)" "eth_params (cm_bit cm)"
proof -
  note cm = assms [unfolded eth_params_def]
  show "cm_width cm = 32" "cm_poly cm = 0x04C11DB7" "cm_refin cm \<noteq> 0" "cm_refot cm \<noteq> 0" "cm_xorot cm = 0xFFFFFFFF"
    by (subst cm, simp add: eth_cm_def)+
  show upd: "eth_params (cm\<lparr>cm_reg := r\<rparr>)" for r by (subst cm) (simp add: eth_params_def)
  then show "eth_params (cm_bit cm)" by (simp add: cm_bit_def Let_def)
qed

lemma cm_bits_list:
  assumes "eth_params cm"
  shows "eth_params ((cm_bit ^^ n) cm) \<and>
    reg_list (cm_reg ((cm_bit ^^ n) cm)) = ((\<lambda>r. shift_bit eth_poly r False) ^^ n) (reg_list (cm_reg cm))"
  by (induction n) (auto simp: assms eth_paramsD cm_bit_list)

lemma reg_list_byte: "reg_list (push_bit 24 (reflect (ucast b) 8)) = word_bits 8 (b :: u8) @ replicate 24 False"
proof (rule nth_equalityI)
  fix i assume "i < length (reg_list (push_bit 24 (reflect (ucast b) 8)))"
  then have i: "i < 32" by simp
  show "reg_list (push_bit 24 (reflect (ucast b) 8)) ! i = (word_bits 8 b @ replicate 24 False) ! i"
    using i by (auto simp: nth_reg_list bit_push_bit_iff nth_append bit_reflect bit_unsigned_iff)
qed simp

lemma cm_nxt_list:
  assumes "eth_params cm"
  shows "eth_params (cm_nxt cm (ucast b)) \<and>
    reg_list (cm_reg (cm_nxt cm (ucast b))) = foldl (shift_bit eth_poly) (reg_list (cm_reg cm)) (word_bits 8 (b :: u8))"
proof -
  let ?cm = "cm\<lparr>cm_reg := cm_reg cm XOR push_bit 24 (reflect (ucast b) 8)\<rparr>"
  have nxt: "cm_nxt cm (ucast b) = (cm_bit ^^ 8) ?cm" using assms by (simp add: cm_nxt_def eth_paramsD)
  have "gf2_add (word_bits 8 b @ replicate 24 False) (reg_list (cm_reg cm)) = gf2_add (word_bits 8 b) (reg_list (cm_reg cm))"
    by (rule nth_equalityI) (auto simp: nth_gf2_add nth_append)
  then have "reg_list (cm_reg ?cm) = gf2_add (word_bits 8 b) (reg_list (cm_reg cm))"
    by (simp add: reg_list_XOR reg_list_byte)
  moreover have "length (word_bits 8 b) = 8" by simp
  ultimately show ?thesis
    using cm_bits_list [of ?cm 8] register_chunk [of "word_bits 8 b" "reg_list (cm_reg cm)" eth_poly]
    unfolding nxt by (simp add: eth_paramsD [OF assms])
qed

text \<open>The register after the bytes of a message, and the checksum the model returns for it.\<close>

lemma cm_message:
  assumes "eth_params cm"
  shows "eth_params (foldl (\<lambda>cm b. cm_nxt cm (ucast b)) cm bs) \<and>
    reg_list (cm_reg (foldl (\<lambda>cm b. cm_nxt cm (ucast b)) cm bs)) = foldl (shift_bit eth_poly) (reg_list (cm_reg cm)) (bytes_bits bs)"
  using assms
proof (induction bs arbitrary: cm)
  case (Cons b bs)
  then show ?case using cm_nxt_list [of cm b] Cons.IH [of "cm_nxt cm (ucast b)"] by (simp add: bytes_bits_def)
qed (simp add: bytes_bits_def)

lemma crc_is_crc_spec:
  "word_bits 32 (cm_crc (foldl (\<lambda>cm b. cm_nxt cm (ucast b)) (cm_ini eth_cm) bs)) = crc_spec bs"
proof -
  let ?cm = "foldl (\<lambda>cm b. cm_nxt cm (ucast b)) (cm_ini eth_cm) bs"
  have ini: "eth_params (cm_ini eth_cm)" "cm_reg (cm_ini eth_cm) = - 1" by (simp_all add: eth_params_def cm_ini_def eth_cm_def)
  have ones: "reg_list (- 1) = replicate 32 True" by (rule nth_equalityI) (simp_all add: nth_reg_list)
  have cm: "eth_params ?cm" "reg_list (cm_reg ?cm) = foldl (shift_bit eth_poly) (replicate 32 True) (bytes_bits bs)"
    using cm_message [OF ini(1), of bs] unfolding ini(2) ones by blast+
  have len: "length eth_poly = 32" by (simp add: eth_poly_def)
  then have "eth_poly \<noteq> []" by auto
  with len have div: "crc_spec bs = map Not (reg_list (cm_reg ?cm))"
    using register_divides [of "replicate 32 True" eth_poly "bytes_bits bs"] unfolding cm(2) by (simp add: crc_spec_def)
  have "(0xFFFFFFFF :: u32) = - 1" by simp
  then have crc: "cm_crc ?cm = - 1 XOR reflect (cm_reg ?cm) 32"
    using cm(1) by (simp only: cm_crc_def eth_paramsD if_True simp_thms)
  show ?thesis
    unfolding div crc by (rule nth_equalityI) (simp_all add: nth_reg_list bit_xor_iff bit_reflect bit_not_iff)
qed

section \<open>The loops of the program\<close>

lemma crc_loop_ends:
  assumes "mx \<le> 255" "mx \<le> int (length buf)"
  shows "crc_loop buf mx j cm = Some (Inr (foldl (\<lambda>cm b. cm_nxt cm (ucast b)) cm (drop (unat j) (take (nat mx) buf))))"
proof (induction "nat mx - unat j" arbitrary: j cm)
  case 0
  then have le: "nat mx \<le> unat j" by simp
  then have "\<not> uint j < mx" using uint_nat [of j] by linarith
  then have "crc_loop buf mx j cm = Some (Inr cm)" by (subst crc_loop.simps) (rule if_not_P)
  with le show ?case by simp
next
  case (Suc n)
  then have lt: "unat j < nat mx" by simp
  have j1: "unat (j + 1) = Suc (unat j)" using lt assms(1) by (simp add: unat_word_ariths)
  have "uint j < mx" "unat j < length buf" using lt assms(2) uint_nat [of j] by linarith+
  then have "crc_loop buf mx j cm = crc_loop buf mx (j + 1) (cm_nxt cm (ucast (buf ! unat j)))"
    by (subst crc_loop.simps) (simp add: cread_def)
  moreover have "drop (unat j) (take (nat mx) buf) = buf ! unat j # drop (Suc (unat j)) (take (nat mx) buf)"
    using lt assms(2) by (subst Cons_nth_drop_Suc [symmetric]) simp_all
  ultimately show ?case using Suc.hyps(1) [of "j + 1" "cm_nxt cm (ucast (buf ! unat j))"] Suc.hyps(2) j1 by simp
qed

lemma crc_loop_never:
  assumes "255 < mx" "256 \<le> length buf"
  shows "crc_loop buf mx j cm = None"
proof -
  have "\<not> (255 < mx \<and> 256 \<le> length buf)" if "crc_loop buf mx j cm = Some y" for y
  proof (rule crc_loop.raw_induct [where P = "\<lambda>buf mx j cm y. \<not> (255 < mx \<and> 256 \<le> length buf)", OF _ that])
    fix loop and buf :: "u8 list" and mx :: int and j :: u8 and cm y
    assume IH: "\<And>buf mx j cm y. loop buf mx j cm = Some y \<Longrightarrow> \<not> (255 < mx \<and> 256 \<le> length buf)"
      and body: "(if uint j < mx then case cread buf (unat j) of Inl e \<Rightarrow> Some (Inl e)
           | Inr b \<Rightarrow> loop buf mx (j + 1) (cm_nxt cm (ucast b)) else Some (Inr cm)) = Some y"
    show "\<not> (255 < mx \<and> 256 \<le> length buf)"
    proof
      assume big: "255 < mx \<and> 256 \<le> length buf"
      then have "uint j < mx" using uint_lt2p [of j] by (simp add: order_less_trans)
      moreover have "unat j < length buf" using big unsigned_less [of j, where 'a = nat] by simp
      ultimately show False using IH body big by (auto simp: cread_def)
    qed
  qed
  then show ?thesis using assms by (cases "crc_loop buf mx j cm") blast+
qed

lemma crc_read_bytes:
  assumes "file_ret s \<noteq> EOF" "unat (frame_sz s) + length bs < MAX_FRAME_SIZE" "length buf = MAX_FRAME_SIZE"
  shows "\<exists>out. crc_read (map Scanned bs) s buf =
    (\<lparr>file_ret = EOF, frame_sz = frame_sz s + word_of_nat (length bs)\<rparr>,
     take (unat (frame_sz s)) buf @ bs @ drop (unat (frame_sz s) + length bs) buf, out, False)"
  using assms
proof (induction bs arbitrary: s buf)
  case Nil
  then show ?case by (subst crc_read.simps) simp
next
  case (Cons b bs)
  let ?s = "\<lparr>file_ret = 1, frame_sz = frame_sz s + 1\<rparr>" and ?n = "unat (frame_sz s)"
  have n: "unat (frame_sz ?s) = Suc ?n" using Cons.prems(2) by (simp add: unat_word_ariths MAX_FRAME_SIZE_def)
  obtain out where "crc_read (map Scanned bs) ?s (buf[?n := b]) =
    (\<lparr>file_ret = EOF, frame_sz = frame_sz ?s + word_of_nat (length bs)\<rparr>,
     take (Suc ?n) (buf[?n := b]) @ bs @ drop (Suc ?n + length bs) (buf[?n := b]), out, False)"
    using Cons.IH [of ?s "buf[?n := b]"] Cons.prems unfolding n by (auto simp: EOF_def)
  moreover have "take (Suc ?n) (buf[?n := b]) = take ?n buf @ [b]"
    using Cons.prems(2,3) by (simp add: take_Suc_conv_app_nth)
  ultimately show ?case
    using Cons.prems by (subst crc_read.simps) (simp add: ac_simps)
qed

section \<open>The verdict on a file\<close>

lemma le_word_4:
  "(le_word [a, b, c, d] :: u32) = push_bit 24 (ucast d) OR push_bit 16 (ucast c) OR push_bit 8 (ucast b) OR ucast a"
  by (rule bit_word_eqI) (auto simp: le_word_def bit_or_iff bit_push_bit_iff)

lemma crc_byte_ok: "0 < k \<Longrightarrow> k \<le> unat sz \<Longrightarrow> unat sz \<le> length buf \<Longrightarrow> crc_byte buf sz k = Inr (ucast (buf ! (unat sz - k)))"
  by (simp add: crc_byte_def cread_def)

lemma frame_fcs_bytes:
  assumes "4 \<le> unat sz" "unat sz \<le> length buf"
  shows "frame_fcs buf sz = Inr (le_word (take 4 (drop (unat sz - 4) buf)))"
proof -
  let ?n = "unat sz"
  have "take 4 (drop (?n - 4) buf) = [buf ! (?n - 4), buf ! (?n - 3), buf ! (?n - 2), buf ! (?n - 1)]"
    using assms by (intro nth_equalityI) (auto simp: less_Suc_eq numeral_eq_Suc nth_Cons' algebra_simps)
  then show ?thesis using assms by (simp add: frame_fcs_def crc_byte_ok le_word_4)
qed

lemma sint_small_minus_4:
  assumes "unat (sz :: u16) \<le> 10000"
  shows "sint (ucast sz - 4 :: 16 word) = int (unat sz) - 4"
proof -
  have u: "uint sz = int (unat sz)" by (rule uint_nat)
  have "ucast sz - 4 = (word_of_int (uint sz - 4) :: 16 word)" by simp
  moreover have "sint (word_of_int (uint sz - 4) :: 16 word) = uint sz - 4"
  proof -
    have "uint sz \<le> 10000" using assms u by linarith
    then show ?thesis by (subst sint_sbintrunc') (simp add: signed_take_bit_int_eq_self_iff)
  qed
  ultimately show ?thesis by simp
qed

text \<open>A file of bytes read with fresh statics.\<close>

definition frame_input :: "string \<Rightarrow> u8 list \<Rightarrow> crc_input" where
  "frame_input name bs = \<lparr>in_name = name, in_scan = Some (map Scanned bs), calloc_ok = True, fclose_ok = True\<rparr>"

text \<open>What follows the reading loop, for a frame of \<open>n\<close> bytes in the buffer.\<close>

lemma crc_file_judges:
  assumes "crc_read (map Scanned bs) s (replicate MAX_FRAME_SIZE 0) = (t, buf, tx, False)"
    and "unat (frame_sz t) = n" "n < MAX_FRAME_SIZE" "length buf = MAX_FRAME_SIZE"
  shows "260 \<le> n \<Longrightarrow> crc_file prog (frame_input name bs) s = None"
    and "4 \<le> n \<Longrightarrow> n < 260 \<Longrightarrow> \<exists>out. crc_file prog (frame_input name bs) s =
      Some (Inr (t, out, Verdict (cm_crc (foldl (\<lambda>cm b. cm_nxt cm (ucast b)) (cm_ini eth_cm) (take (n - 4) buf)))
        (le_word (take 4 (drop (n - 4) buf)))))"
    and "n < 4 \<Longrightarrow> crc_file prog (frame_input name bs) s = Some (Inl OutOfBounds)"
proof -
  have mx: "sint (ucast (frame_sz t) - 4 :: 16 word) = int n - 4"
    using sint_small_minus_4 [of "frame_sz t"] assms(2,3) by (simp add: MAX_FRAME_SIZE_def)
  have "(0xffffffff :: u32) = - 1" by simp
  then have m1: "x AND 0xffffffff = x" for x :: u32 by (simp only: and.right_neutral)
  show "crc_file prog (frame_input name bs) s = None" if "260 \<le> n"
  proof -
    have "crc_loop buf (int n - 4) 0 (cm_ini eth_cm) = None"
      using that assms(4) by (intro crc_loop_never) (simp_all add: MAX_FRAME_SIZE_def)
    then show ?thesis using assms(1) mx by (simp add: crc_file_def frame_input_def Let_def)
  qed
  have loop: "crc_loop buf (int n - 4) 0 (cm_ini eth_cm) =
      Some (Inr (foldl (\<lambda>cm b. cm_nxt cm (ucast b)) (cm_ini eth_cm) (take (n - 4) buf)))" if "n < 260"
    using crc_loop_ends [of "int n - 4" buf 0 "cm_ini eth_cm"] that assms(3,4)
    by (simp add: MAX_FRAME_SIZE_def) (metis nat_int nat_diff_distrib' of_nat_0_le_iff of_nat_numeral)
  show "\<exists>out. crc_file prog (frame_input name bs) s =
      Some (Inr (t, out, Verdict (cm_crc (foldl (\<lambda>cm b. cm_nxt cm (ucast b)) (cm_ini eth_cm) (take (n - 4) buf)))
        (le_word (take 4 (drop (n - 4) buf)))))" if "4 \<le> n" "n < 260"
    using assms(1,2,3,4) mx loop [OF that(2)] frame_fcs_bytes [of "frame_sz t" buf] that m1
    by (simp add: crc_file_def frame_input_def Let_def)
  show "crc_file prog (frame_input name bs) s = Some (Inl OutOfBounds)" if "n < 4"
  proof -
    have "frame_fcs buf (frame_sz t) = Inl OutOfBounds"
      using that assms(2,3,4) by (auto simp: frame_fcs_def crc_byte_def cread_def cbind_def split: sum.splits if_splits)
    then show ?thesis using assms(1) mx loop that by (simp add: crc_file_def frame_input_def Let_def)
  qed
qed

lemma crc_read_first:
  assumes "length bs < MAX_FRAME_SIZE"
  obtains tx where "crc_read (map Scanned bs) crc_static_init (replicate MAX_FRAME_SIZE 0) =
      (\<lparr>file_ret = EOF, frame_sz = word_of_nat (length bs)\<rparr>, bs @ replicate (MAX_FRAME_SIZE - length bs) 0, tx, False)"
    "unat (word_of_nat (length bs) :: u16) = length bs"
proof -
  obtain tx where "crc_read (map Scanned bs) crc_static_init (replicate MAX_FRAME_SIZE 0) =
      (\<lparr>file_ret = EOF, frame_sz = word_of_nat (length bs)\<rparr>, bs @ replicate (MAX_FRAME_SIZE - length bs) 0, tx, False)"
    using crc_read_bytes [of crc_static_init bs "replicate MAX_FRAME_SIZE 0"] assms
    by (auto simp: crc_static_init_def EOF_def)
  moreover have "unat (word_of_nat (length bs) :: u16) = length bs"
    using assms by (simp add: unsigned_of_nat take_bit_nat_eq_self_iff MAX_FRAME_SIZE_def)
  ultimately show thesis by (rule that)
qed

text \<open>After a file that ended, the next one is not read at all.\<close>

lemma crc_read_next: "file_ret s = EOF \<Longrightarrow> crc_read scans s buf = (s, buf, [], False)"
  by (subst crc_read.simps) simp

section \<open>Single bit errors\<close>

lemma gf2_add_cancel: "length ys = length zs \<Longrightarrow> gf2_add xs ys = gf2_add xs zs \<longleftrightarrow> ys = zs"
  by (auto simp: list_eq_iff_nth_eq nth_gf2_add split: if_splits)

lemma gf2_add_Nil [simp]: "gf2_add xs ys = [] \<longleftrightarrow> ys = []"
  by (metis length_gf2_add length_0_conv)

lemma shift_bit_Nil [simp]: "shift_bit g r b \<noteq> []"
  by (simp add: shift_bit_def Let_def)

lemma last_shift_bit:
  assumes "r \<noteq> []" "length g = length r" "last g"
  shows "last (shift_bit g r b) \<longleftrightarrow> hd r \<noteq> b"
proof -
  have "last (gf2_add g (tl r @ [False])) = gf2_add g (tl r @ [False]) ! (length r - 1)"
    using assms(1) by (subst last_conv_nth) simp_all
  also have "\<dots> = (g ! (length r - 1) \<noteq> False)"
    using assms(1,2) by (subst nth_gf2_add) (auto simp: nth_append)
  also have "\<dots>" using assms last_conv_nth [of g] by (cases g) simp_all
  finally show ?thesis by (simp add: shift_bit_def Let_def)
qed

text \<open>With a generator whose constant term is one, a step loses nothing: neither the register nor the input bit.\<close>

lemma shift_bit_inj:
  assumes "r \<noteq> []" "length r = length g" "length r' = length g" "last g" "shift_bit g r b = shift_bit g r' b'"
  shows "(hd r \<noteq> b) = (hd r' \<noteq> b') \<and> tl r = tl r'"
proof -
  have "r' \<noteq> []" using assms(1-3) by auto
  then have hds: "(hd r \<noteq> b) = (hd r' \<noteq> b')"
    using last_shift_bit [of r g b] last_shift_bit [of r' g b'] assms by auto
  moreover have "tl r @ [False] = tl r' @ [False]"
    using assms(2,3,5) hds gf2_add_cancel [of "tl r @ [False]" "tl r' @ [False]" g]
    by (auto simp: shift_bit_def Let_def split: if_splits)
  ultimately show ?thesis by simp
qed

lemma register_inj:
  assumes "r \<noteq> []" "length r = length g" "length r' = length g" "last g" "r \<noteq> r'"
  shows "foldl (shift_bit g) r m \<noteq> foldl (shift_bit g) r' m"
  using assms
proof (induction m arbitrary: r r')
  case (Cons b m)
  have "r' \<noteq> []" using Cons.prems by auto
  then have "shift_bit g r b \<noteq> shift_bit g r' b"
    using shift_bit_inj [OF Cons.prems(1-4), of b b] Cons.prems(1,5) list.expand [of r r'] by auto
  then show ?case using Cons.IH [of "shift_bit g r b" "shift_bit g r' b"] Cons.prems \<open>r' \<noteq> []\<close> by simp
qed simp

lemma crc_spec_one_bit:
  assumes "bytes_bits bs = p @ b # q" "bytes_bits bs' = p @ (\<not> b) # q"
  shows "crc_spec bs \<noteq> crc_spec bs'"
proof -
  let ?r = "foldl (shift_bit eth_poly) (replicate 32 True) p"
  have "hd (word_bits 32 (0x04C11DB7 :: u32)) = bit (0x04C11DB7 :: u32) 0"
    by (subst hd_conv_nth) (simp_all add: word_bits_def)
  then have g: "length eth_poly = 32" "last eth_poly" by (simp_all add: eth_poly_def last_rev)
  have len: "length (foldl (shift_bit eth_poly) r m) = 32" if "length r = 32" for r m
    using that
  proof (induction m arbitrary: r)
    case (Cons b m)
    then have "r \<noteq> []" by auto
    with Cons show ?case by simp
  qed simp
  have r: "length ?r = 32" by (rule len) simp
  then have "?r \<noteq> []" by auto
  then have "shift_bit eth_poly ?r b \<noteq> shift_bit eth_poly ?r (\<not> b)"
    using shift_bit_inj [of ?r eth_poly ?r b "\<not> b"] r g by auto
  then have "foldl (shift_bit eth_poly) (replicate 32 True) (bytes_bits bs) \<noteq> foldl (shift_bit eth_poly) (replicate 32 True) (bytes_bits bs')"
    unfolding assms foldl_append foldl.simps using \<open>?r \<noteq> []\<close> r g by (intro register_inj) simp_all
  moreover have "eth_poly \<noteq> []" using g(1) by auto
  then have "crc_spec x = map Not (foldl (shift_bit eth_poly) (replicate 32 True) (bytes_bits x))" for x
    using register_divides [of "replicate 32 True" eth_poly "bytes_bits x"] g(1) by (simp add: crc_spec_def)
  ultimately show ?thesis by (simp add: inj_map_eq_map inj_def)
qed

section \<open>Frames with a valid check sequence\<close>

text \<open>The last four bytes are the checksum of the others, low byte first.\<close>

definition frame_valid :: "u8 list \<Rightarrow> bool" where
  "frame_valid bs \<longleftrightarrow> bytes_bits (drop (length bs - 4) bs) = crc_spec (take (length bs - 4) bs)"

abbreviation crc_of :: "u8 list \<Rightarrow> u32" where
  "crc_of bs \<equiv> cm_crc (foldl (\<lambda>cm b. cm_nxt cm (ucast b)) (cm_ini eth_cm) bs)"

text \<open>The first file, for every length that fits the buffer.\<close>

lemma crc_file_first:
  assumes "length bs < MAX_FRAME_SIZE"
  shows "length bs < 4 \<Longrightarrow> crc_file prog (frame_input name bs) crc_static_init = Some (Inl OutOfBounds)"
    and "4 \<le> length bs \<Longrightarrow> length bs < 260 \<Longrightarrow> \<exists>out. crc_file prog (frame_input name bs) crc_static_init =
      Some (Inr (\<lparr>file_ret = EOF, frame_sz = word_of_nat (length bs)\<rparr>, out,
        Verdict (crc_of (take (length bs - 4) bs)) (le_word (drop (length bs - 4) bs))))"
    and "260 \<le> length bs \<Longrightarrow> crc_file prog (frame_input name bs) crc_static_init = None"
proof -
  obtain tx where rd: "crc_read (map Scanned bs) crc_static_init (replicate MAX_FRAME_SIZE 0) =
      (\<lparr>file_ret = EOF, frame_sz = word_of_nat (length bs)\<rparr>, bs @ replicate (MAX_FRAME_SIZE - length bs) 0, tx, False)"
    "unat (word_of_nat (length bs) :: u16) = length bs" using crc_read_first [OF assms] .
  have len: "length (bs @ replicate (MAX_FRAME_SIZE - length bs) 0) = MAX_FRAME_SIZE" using assms by simp
  have sz: "unat (frame_sz \<lparr>file_ret = EOF, frame_sz = word_of_nat (length bs)\<rparr>) = length bs" using rd(2) by simp
  note judge = crc_file_judges [OF rd(1) sz assms len, of prog name]
  show "crc_file prog (frame_input name bs) crc_static_init = Some (Inl OutOfBounds)" if "length bs < 4"
    using judge(3) that by simp
  show "\<exists>out. crc_file prog (frame_input name bs) crc_static_init =
      Some (Inr (\<lparr>file_ret = EOF, frame_sz = word_of_nat (length bs)\<rparr>, out,
        Verdict (crc_of (take (length bs - 4) bs)) (le_word (drop (length bs - 4) bs))))" if "4 \<le> length bs" "length bs < 260"
    using judge(2) that by simp
  show "crc_file prog (frame_input name bs) crc_static_init = None" if "260 \<le> length bs" using judge(1) that by simp
qed

lemma crc_main_verdict:
  assumes "4 \<le> length bs" "length bs < 260"
  shows "\<exists>out crc fcs. crc_main prog [frame_input name bs] = Some (Inr (out, [Verdict crc fcs])) \<and>
    (crc = fcs \<longleftrightarrow> frame_valid bs)"
proof -
  let ?m = "take (length bs - 4) bs" and ?f = "drop (length bs - 4) bs"
  have "length bs < MAX_FRAME_SIZE" using assms(2) by (simp add: MAX_FRAME_SIZE_def)
  then obtain s out where "crc_file prog (frame_input name bs) crc_static_init =
      Some (Inr (s, out, Verdict (crc_of ?m) (le_word ?f)))" using crc_file_first(2) assms by blast
  then have "crc_main prog [frame_input name bs] = Some (Inr (out, [Verdict (crc_of ?m) (le_word ?f)]))"
    by (simp add: crc_main_def)
  moreover have "word_bits 32 (le_word ?f :: u32) = bytes_bits ?f"
    using word_bits_le_word [where 'a = 32, of ?f] assms(1) by simp
  then have "crc_of ?m = le_word ?f \<longleftrightarrow> frame_valid bs"
    using crc_is_crc_spec [of ?m] word_bits_inj [where 'a = 32, of 32 "crc_of ?m" "le_word ?f"] by (auto simp: frame_valid_def)
  ultimately show ?thesis by blast
qed

lemma frame_valid_one_bit:
  assumes "bytes_bits bs = p @ b # q" "bytes_bits bs' = p @ (\<not> b) # q" "frame_valid bs"
  shows "length bs' = length bs \<and> \<not> frame_valid bs'"
proof -
  have "8 * length bs = 8 * length bs'" using assms(1,2) by (simp flip: length_bytes_bits)
  then have len: "length bs' = length bs" by simp
  let ?k = "length bs - 4"
  have parts: "bytes_bits (take ?k x) = take (8 * ?k) (bytes_bits x)" "bytes_bits (drop ?k x) = drop (8 * ?k) (bytes_bits x)" for x
    by (simp_all add: take_bytes_bits drop_bytes_bits)
  have "\<not> frame_valid bs'"
  proof (cases "length p < 8 * ?k")
    case True
    then obtain j where j: "8 * ?k = length p + Suc j" by (metis less_imp_Suc_add add_Suc_right)
    have "bytes_bits (take ?k bs) = p @ b # take j q" "bytes_bits (take ?k bs') = p @ (\<not> b) # take j q"
      "bytes_bits (drop ?k bs) = bytes_bits (drop ?k bs')"
      unfolding parts assms(1,2) j by simp_all
    then show ?thesis using crc_spec_one_bit [of "take ?k bs" p b "take j q" "take ?k bs'"] assms(3) len
      by (auto simp: frame_valid_def)
  next
    case False
    then have "bytes_bits (take ?k bs) = bytes_bits (take ?k bs')" "bytes_bits (drop ?k bs) \<noteq> bytes_bits (drop ?k bs')"
      unfolding parts assms(1,2) by simp_all
    then have "take ?k bs = take ?k bs'" "bytes_bits (drop ?k bs) \<noteq> bytes_bits (drop ?k bs')"
      by (simp_all add: bytes_bits_inj)
    then show ?thesis using assms(3) len by (auto simp: frame_valid_def)
  qed
  with len show ?thesis by blast
qed

end
