(* ===== verification/Admin_Builder.thy ===== *)
theory Admin_Builder
  imports Fpga_Prober C_String
begin

text \<open>
  The stand-alone packet builder, \<^verbatim>\<open>sw/fpga-prober/admin-builder.cc\<close>: an earlier version of the
  administration packet writer, whose configuration has no reply type and whose check value is
  the exclusive or of the 32-bit words of the file. Its bit writer is related to the one of the
  client by a simulation, so that it meets the same contract.
\<close>

unbundle bit_operations_syntax

section \<open>The writer\<close>

record builder_io =
  bfile :: "u8 list option"
  bbuf :: u64
  bits_clean :: u8
  hash_val :: u32

definition builder_key :: u32 where "builder_key = 0xdecaface"

definition builder_io_init :: builder_io where
  "builder_io_init = \<lparr>bfile = None, bbuf = 0, bits_clean = 64, hash_val = 0\<rparr>"

definition write_buf_item_and_hash :: "builder_io \<Rightarrow> u64 \<Rightarrow> u8 \<Rightarrow> builder_io cres" where
  "write_buf_item_and_hash st w bytes_to_write =
     (let st = st\<lparr>hash_val := hash_val st XOR ucast (w AND 0xffffffff)\<rparr>;
          st = st\<lparr>hash_val := hash_val st XOR ucast (drop_bit 32 (w AND 0xffffffff00000000))\<rparr>
      in case bfile st of
           None \<Rightarrow> Inl NullPointer
         | Some fl \<Rightarrow> if unat bytes_to_write > 8 then Inl OutOfBounds
             else Inr (st\<lparr>bfile := Some (fl @ le_bytes (unat bytes_to_write) w)\<rparr>))"

definition write_buf :: "builder_io \<Rightarrow> u64 \<Rightarrow> u8 \<Rightarrow> builder_io cres" where
  "write_buf st info bits =
     (let info = shr64 (reverse_bits_64 info) (64 - unat bits);
          clean = bits_clean st
      in
      if bits = 0 then
        let bytes_to_write = word_of_int (((64 - uint clean + 7) div 8 + 3) AND NOT 3);
            buf = reverse_bits_byte_64 (bswap_64 (bbuf st))
        in cbind (write_buf_item_and_hash (st\<lparr>bbuf := buf\<rparr>) buf bytes_to_write) (\<lambda>st.
             Inr (st\<lparr>bits_clean := 64, bbuf := 0\<rparr>))
      else if clean \<ge> bits then
        Inr (st\<lparr>bbuf := bbuf st OR shl64 info (unat (clean - bits)), bits_clean := clean - bits\<rparr>)
      else
        let bits_after_write = bits - clean;
            buf = reverse_bits_byte_64 (bswap_64 (bbuf st OR shr64 info (unat bits_after_write)))
        in cbind (write_buf_item_and_hash (st\<lparr>bbuf := buf\<rparr>) buf 8) (\<lambda>st.
             let clean = 64 - bits_after_write
             in Inr (st\<lparr>bits_clean := clean,
                        bbuf := shl64 (info AND int_mask (unat bits_after_write + 1)) (unat clean)\<rparr>)))"

definition builder_append_auth_hash :: "builder_io \<Rightarrow> builder_io cres" where
  "builder_append_auth_hash st =
     cbind (write_buf st (ucast (hash_val st)) 32) (\<lambda>st. write_buf st 0 0)"

section \<open>The configuration and its file\<close>

record bfilter_t =
  b_srcMACBW :: "1 word"
  b_srcMACLength :: "2 word"
  b_srcMACList :: "mac_addr_t list"
  b_dstMACBW :: "1 word"
  b_dstMACLength :: "2 word"
  b_dstMACList :: "mac_addr_t list"
  b_srcIPBW :: "1 word"
  b_srcIPLength :: "2 word"
  b_srcIPList :: "ip_addr_t list"
  b_dstIPBW :: "1 word"
  b_dstIPLength :: "2 word"
  b_dstIPList :: "ip_addr_t list"
  b_srcPortBW :: "1 word"
  b_srcPortLength :: "2 word"
  b_srcPortList :: "udp_port_t list"
  b_dstPortBW :: "1 word"
  b_dstPortLength :: "2 word"
  b_dstPortList :: "udp_port_t list"
  b_dnsBW :: "1 word"
  b_dnsLength :: "2 word"
  b_dnsItemEndPtr :: "u8 list"
  b_dnsList :: "dns_filter_item_t list"

definition raw_port_calls :: "udp_port_t list \<Rightarrow> (u64 \<times> u8) list" where
  "raw_port_calls ps = map (\<lambda>p. (ucast (port p), 16)) ps"

definition builder_calls :: "bfilter_t \<Rightarrow> (u64 \<times> u8) list" where
  "builder_calls f =
     [(ucast (b_srcMACBW f), 1), (ucast (b_srcMACLength f), 2)] @
       concat (map (\<lambda>m. byte_calls (byte m)) (b_srcMACList f)) @
     [(ucast (b_dstMACBW f), 1), (ucast (b_dstMACLength f), 2)] @
       concat (map (\<lambda>m. byte_calls (byte m)) (b_dstMACList f)) @
     [(ucast (b_srcIPBW f), 1), (ucast (b_srcIPLength f), 2)] @
       concat (map (\<lambda>a. byte_calls (num a)) (b_srcIPList f)) @
     [(ucast (b_dstIPBW f), 1), (ucast (b_dstIPLength f), 2)] @
       concat (map (\<lambda>a. byte_calls (num a)) (b_dstIPList f)) @
     [(ucast (b_srcPortBW f), 1), (ucast (b_srcPortLength f), 2)] @ raw_port_calls (b_srcPortList f) @
     [(ucast (b_dstPortBW f), 1), (ucast (b_dstPortLength f), 2)] @ raw_port_calls (b_dstPortList f) @
     [(ucast (b_dnsBW f), 1), (ucast (b_dnsLength f), 2)] @ byte_calls (b_dnsItemEndPtr f) @
       concat (map (\<lambda>d. byte_calls (dns_c d)) (b_dnsList f))"

definition write_to_file :: "bool \<Rightarrow> builder_io \<Rightarrow> bfilter_t \<Rightarrow> builder_io cres" where
  "write_to_file fopen_ok st f =
     (let st = st\<lparr>bfile := (if fopen_ok then Some [] else None), hash_val := builder_key\<rparr>
      in cbind (cfold (\<lambda>st c. write_buf st (fst c) (snd c)) st (builder_calls f)) (\<lambda>st.
         cbind (write_buf st 0 0) (\<lambda>st.
         builder_append_auth_hash st)))"

text \<open>The configuration of \<open>main\<close>.\<close>

definition builder_configuration :: bfilter_t where
  "builder_configuration = \<lparr>
     b_srcMACBW = 1, b_srcMACLength = 1,
     b_srcMACList = [\<lparr>byte = [0x00, 0x0c, 0x29, 0x5f, 0x29, 0xaf]\<rparr>, mac_zero],
     b_dstMACBW = 0, b_dstMACLength = 1,
     b_dstMACList = [\<lparr>byte = [0x00, 0x0a, 0x35, 0x11, 0x11, 0x11]\<rparr>, mac_zero],
     b_srcIPBW = 1, b_srcIPLength = 2,
     b_srcIPList = [\<lparr>num = [0, 1, 2, 3]\<rparr>, \<lparr>num = [192, 168, 127, 127]\<rparr>],
     b_dstIPBW = 0, b_dstIPLength = 2,
     b_dstIPList = [\<lparr>num = [2, 3, 4, 5]\<rparr>, \<lparr>num = [250, 250, 250, 250]\<rparr>],
     b_srcPortBW = 0, b_srcPortLength = 2,
     b_srcPortList = [\<lparr>port = bswap_16 12345\<rparr>, \<lparr>port = bswap_16 55553\<rparr>],
     b_dstPortBW = 0, b_dstPortLength = 0,
     b_dstPortList = [\<lparr>port = bswap_16 0\<rparr>, \<lparr>port = bswap_16 0\<rparr>],
     b_dnsBW = 1, b_dnsLength = 2, b_dnsItemEndPtr = [10 * 8, 13 * 8],
     b_dnsList = [\<lparr>dns_c = map of_char ''google.com'' @ replicate 6 0\<rparr>,
                  \<lparr>dns_c = map of_char ''microsoft.com'' @ replicate 3 0\<rparr>]\<rparr>"

text \<open>\<open>parse_args_builder\<close>, over the results of \<open>getopt\<close>: the file name, or the text before \<open>exit(0)\<close>.\<close>

fun parse_args_builder :: "string option \<Rightarrow> (char \<times> string) list \<Rightarrow> console list + string option" where
  "parse_args_builder name [] = Inr name"
| "parse_args_builder name ((c, optarg) # opts) =
     (if c = CHR ''w'' then parse_args_builder (Some optarg) opts
      else Inl [Stdout (''Unrecognised argument'' @ [NL]), Stdout (''Usage:'' @ NL # ''./admin-builder.out -w admin.bin'')])"

text \<open>\<open>main\<close>: the name and the contents of the file written; \<open>fopen\<close> of a null name is a fault.\<close>

definition builder_main ::
  "(string \<Rightarrow> bool) \<Rightarrow> (char \<times> string) list \<Rightarrow> (console list + string \<times> u8 list) cres" where
  "builder_main openable opts =
     (case parse_args_builder None opts of
        Inl out \<Rightarrow> Inr (Inl out)
      | Inr None \<Rightarrow> Inl NullPointer
      | Inr (Some name) \<Rightarrow>
          cbind (write_to_file (openable name) builder_io_init builder_configuration) (\<lambda>st.
          Inr (Inr (name, case bfile st of None \<Rightarrow> [] | Some fl \<Rightarrow> fl))))"

section \<open>Simulation by the writer of the client\<close>

definition bfile_bytes :: "builder_io \<Rightarrow> u8 list" where
  "bfile_bytes st = (case bfile st of None \<Rightarrow> [] | Some fl \<Rightarrow> fl)"

text \<open>The state of the client's writer with the same file and buffer.\<close>

definition as_admin :: "builder_io \<Rightarrow> admin_io" where
  "as_admin st = \<lparr>admin_pkt = bfile st, admin_buf = bbuf st, admin_buf_bits_clean = bits_clean st,
     admin_buf_data_ptr = length (bfile_bytes st),
     admin_buf_data = bfile_bytes st @ replicate (128 - length (bfile_bytes st)) 0\<rparr>"

text \<open>The exclusive or of the two halves of a word, and of the little-endian words of a file.\<close>

definition halves :: "u64 \<Rightarrow> u32" where "halves w = ucast w XOR ucast (drop_bit 32 w)"

fun xor_words :: "u8 list \<Rightarrow> u32" where
  "xor_words (a # b # c # d # bs) = le_word [a, b, c, d] XOR xor_words bs"
| "xor_words bs = 0"

lemma as_admin_simps [simp]:
  "admin_pkt (as_admin st) = bfile st" "admin_buf (as_admin st) = bbuf st"
  "admin_buf_bits_clean (as_admin st) = bits_clean st" "admin_file (as_admin st) = bfile_bytes st"
  "(as_admin st)\<lparr>admin_buf := x\<rparr> = as_admin (st\<lparr>bbuf := x\<rparr>)"
  "(as_admin st)\<lparr>admin_buf_bits_clean := c\<rparr> = as_admin (st\<lparr>bits_clean := c\<rparr>)"
  by (simp_all add: as_admin_def admin_file_def bfile_bytes_def)

lemma low_half: "ucast (w AND 0xffffffff) = (ucast w :: u32)"
  and high_half: "ucast (drop_bit 32 (w AND 0xffffffff00000000)) = (ucast (drop_bit 32 w) :: u32)" for w :: u64
proof -
  have m: "0xffffffff = (mask 32 :: u64)" by (simp add: mask_eq_exp_minus_1)
  show "ucast (w AND 0xffffffff) = (ucast w :: u32)"
    by (rule bit_word_eqI) (simp add: m bit_unsigned_iff bit_and_iff bit_mask_iff)
  have h: "0xffffffff00000000 = (push_bit 32 (mask 32) :: u64)" by (simp add: mask_eq_exp_minus_1)
  show "ucast (drop_bit 32 (w AND 0xffffffff00000000)) = (ucast (drop_bit 32 w) :: u32)"
    by (rule bit_word_eqI) (auto simp: h bit_unsigned_iff bit_drop_bit_eq bit_and_iff bit_push_bit_iff bit_mask_iff)
qed

lemma item_sim:
  assumes "write_admin_buf_item_and_hash (as_admin st) w b = Inr u"
  shows "\<exists>t. write_buf_item_and_hash st w b = Inr t \<and> as_admin t = u \<and>
    hash_val t = hash_val st XOR halves w \<and> bfile_bytes t = bfile_bytes st @ le_bytes (unat b) w"
proof -
  obtain fl where fl: "bfile st = Some fl" "unat b \<le> 8" "length fl + unat b \<le> length fl + (128 - length fl)"
    using assms by (auto simp: write_admin_buf_item_and_hash_def Let_def cblit_def cbind_def as_admin_def bfile_bytes_def
        split: option.splits if_splits)
  let ?t = "st\<lparr>hash_val := hash_val st XOR halves w, bfile := Some (fl @ le_bytes (unat b) w)\<rparr>"
  have "write_buf_item_and_hash st w b = Inr ?t"
    using fl by (simp add: write_buf_item_and_hash_def Let_def low_half high_half halves_def xor.assoc)
  moreover have "as_admin ?t = u"
    using assms fl by (simp add: write_admin_buf_item_and_hash_def Let_def cblit_def as_admin_def bfile_bytes_def)
  ultimately show ?thesis using fl(1) by (auto simp: bfile_bytes_def)
qed

text \<open>Flushing a word and refilling the buffer.\<close>

lemma flush_sim:
  assumes "write_admin_buf_item_and_hash (as_admin (st\<lparr>bbuf := w\<rparr>)) w n = Inr u"
    and "a = u\<lparr>admin_buf_bits_clean := c, admin_buf := r\<rparr>"
  obtains t where "write_buf_item_and_hash (st\<lparr>bbuf := w\<rparr>) w n = Inr t"
    "as_admin (t\<lparr>bits_clean := c, bbuf := r\<rparr>) = a"
    "hash_val (t\<lparr>bits_clean := c, bbuf := r\<rparr>) = hash_val st XOR halves w"
    "bfile_bytes (t\<lparr>bits_clean := c, bbuf := r\<rparr>) = bfile_bytes st @ le_bytes (unat n) w"
proof -
  obtain t where t: "write_buf_item_and_hash (st\<lparr>bbuf := w\<rparr>) w n = Inr t" "as_admin t = u"
      "hash_val t = hash_val st XOR halves w" "bfile_bytes t = bfile_bytes st @ le_bytes (unat n) w"
    using item_sim [OF assms(1)] by (auto simp: bfile_bytes_def)
  show thesis by (rule that [OF t(1)]) (use t assms(2) in \<open>simp_all add: bfile_bytes_def flip: t(2)\<close>)
qed

text \<open>A write of the client's writer is a write of the builder, and adds the flushed word to the check value.\<close>

lemma write_buf_sim:
  assumes "write_admin_buf (as_admin st) v b = Inr a"
  shows "\<exists>t. write_buf st v b = Inr t \<and> as_admin t = a \<and>
    (bfile_bytes t = bfile_bytes st \<and> hash_val t = hash_val st \<or>
     (\<exists>x n. (b \<noteq> 0 \<longrightarrow> n = 8) \<and> (b = 0 \<longrightarrow> x = bbuf st \<and>
          n = unat (word_of_int (((64 - uint (bits_clean st) + 7) div 8 + 3) AND NOT 3) :: u8)) \<and>
        bfile_bytes t = bfile_bytes st @ le_bytes n (reverse_bits_byte_64 (bswap_64 x)) \<and>
        hash_val t = hash_val st XOR halves (reverse_bits_byte_64 (bswap_64 x))))"
proof -
  let ?info = "shr64 (reverse_bits_64 v) (64 - unat b)"
  consider (close) "b = 0" | (normal) "b \<noteq> 0" "b \<le> bits_clean st" | (split) "b \<noteq> 0" "\<not> b \<le> bits_clean st" by blast
  then show ?thesis
  proof cases
    case close
    let ?n = "word_of_int (((64 - uint (bits_clean st) + 7) div 8 + 3) AND NOT 3) :: u8"
    let ?w = "reverse_bits_byte_64 (bswap_64 (bbuf st))"
    obtain u where u: "write_admin_buf_item_and_hash (as_admin (st\<lparr>bbuf := ?w\<rparr>)) ?w ?n = Inr u"
        "a = u\<lparr>admin_buf_bits_clean := 64, admin_buf := 0\<rparr>"
      using assms close by (auto simp: write_admin_buf_def Let_def cbind_def split: sum.splits)
    show ?thesis by (rule flush_sim [OF u]) (use close in \<open>auto simp: write_buf_def Let_def\<close>)
  next
    case normal
    let ?t = "st\<lparr>bbuf := bbuf st OR shl64 ?info (unat (bits_clean st - b)), bits_clean := bits_clean st - b\<rparr>"
    have "write_buf st v b = Inr ?t" using normal by (simp add: write_buf_def Let_def)
    moreover have "as_admin ?t = a" using assms normal by (auto simp: write_admin_buf_def Let_def)
    moreover have "bfile_bytes ?t = bfile_bytes st" by (simp add: bfile_bytes_def)
    ultimately show ?thesis by (intro exI [of _ ?t]) auto
  next
    case split
    let ?d = "b - bits_clean st"
    let ?w = "reverse_bits_byte_64 (bswap_64 (bbuf st OR shr64 ?info (unat ?d)))"
      and ?r = "shl64 (?info AND int_mask (unat ?d + 1)) (unat (64 - ?d))"
    obtain u where u: "write_admin_buf_item_and_hash (as_admin (st\<lparr>bbuf := ?w\<rparr>)) ?w 8 = Inr u"
        "a = u\<lparr>admin_buf_bits_clean := 64 - ?d, admin_buf := ?r\<rparr>"
      using assms split by (auto simp: write_admin_buf_def Let_def cbind_def split: sum.splits)
    show ?thesis by (rule flush_sim [OF u]) (use split in \<open>auto simp: write_buf_def Let_def\<close>)
  qed
qed

section \<open>The check value\<close>

lemma xor_words_append: "4 dvd length xs \<Longrightarrow> xor_words (xs @ ys) = xor_words xs XOR xor_words ys"
proof (induction xs rule: xor_words.induct)
  case (1 a b c d bs)
  then have "4 dvd length bs" by simp presburger
  with 1 show ?case by (simp add: xor.assoc)
qed (auto dest: dvd_imp_le)

lemma xor_words_word: "xor_words (le_bytes 4 w) = w" for w :: u32
  using le_word_le_bytes [of 4 w] by (simp add: le_bytes_def upt_rec)

text \<open>A flushed word is the buffer with its bits reversed.\<close>

lemma bit_flush: "k < 64 \<Longrightarrow> bit (reverse_bits_byte_64 (bswap_64 x)) k \<longleftrightarrow> bit x (63 - k)"
proof -
  assume k: "k < 64"
  have "word_bits 64 (reverse_bits_byte_64 (bswap_64 x)) = rev (word_bits 64 x)"
    using bytes_bits_flush [of x] bytes_bits_le_bytes [of 8 "reverse_bits_byte_64 (bswap_64 x)"] by simp
  then have "word_bits 64 (reverse_bits_byte_64 (bswap_64 x)) ! k = rev (word_bits 64 x) ! k" by simp
  with k show ?thesis by (simp add: rev_nth)
qed

lemma xor_words_le_bytes:
  assumes "n \<in> {0, 4, 8}" "\<And>k. 8 * n \<le> k \<Longrightarrow> \<not> bit w k"
  shows "xor_words (le_bytes n w) = halves w"
proof -
  have lw: "le_word [ucast w, ucast (drop_bit 8 w), ucast (drop_bit 16 w), ucast (drop_bit 24 w)] = (ucast w :: u32)" for w :: u64
  proof -
    have "le_bytes 4 (ucast w :: u32) = [ucast w, ucast (drop_bit 8 w), ucast (drop_bit 16 w), ucast (drop_bit 24 w)]"
      by (auto simp: le_bytes_def upt_rec bit_unsigned_iff bit_drop_bit_eq intro!: bit_word_eqI)
    then show ?thesis using le_word_le_bytes [of 4 "ucast w :: u32"] by simp
  qed
  have hi: "drop_bit 32 w = 0" if "n \<le> 4"
    by (rule bit_word_eqI) (use that assms(2) in \<open>simp add: bit_drop_bit_eq\<close>)
  have zero: "w = 0" if "n = 0" by (rule bit_word_eqI) (use that assms(2) in simp)
  consider "n = 0" "w = 0" | "n = 4" "drop_bit 32 w = 0" | "n = 8" using assms(1) hi zero by auto
  then show ?thesis
    by cases (use lw [of w] lw [of "drop_bit 32 w"] in \<open>simp_all add: le_bytes_def upt_rec halves_def\<close>)
qed

text \<open>The part of a flushed word that a closing write leaves out of the file is zero.\<close>

lemma flushed_halves:
  assumes "admin_ok (as_admin st)" "x = bbuf st"
    and "n = unat (word_of_int (((64 - uint (bits_clean st) + 7) div 8 + 3) AND NOT 3) :: u8)"
  shows "xor_words (le_bytes n (reverse_bits_byte_64 (bswap_64 x))) = halves (reverse_bits_byte_64 (bswap_64 x))"
proof -
  let ?c = "unat (bits_clean st)"
  have c: "?c \<le> 64" "\<forall>k < ?c. \<not> bit (bbuf st) k" using assms(1) by (simp_all add: admin_ok_def)
  have "64 - ?c \<le> 64" by simp
  then obtain n8 where n8: "((int (64 - ?c) + 7) div 8 + 3) AND NOT 3 = int n8" "8 * n8 = 64 - ?c + pad32 (64 - ?c)"
    "n8 \<le> 8" "4 dvd n8" "unat (word_of_nat n8 :: u8) = n8" by (rule close_count)
  have "int (64 - ?c) = 64 - uint (bits_clean st)" using c(1) by (simp add: of_nat_diff)
  then have n: "n = n8" using assms(3) n8(1,5) by simp
  have "n8 \<in> {0, 4, 8}" using n8(3,4) by (auto elim!: dvdE)
  moreover have "\<not> bit (reverse_bits_byte_64 (bswap_64 x)) k" if "8 * n8 \<le> k" for k
  proof (cases "k < 64")
    case True
    then have "63 - k < ?c" using that n8(2) c(1) by simp
    with True show ?thesis using c(2) by (simp add: bit_flush assms(2))
  qed (auto dest: bit_imp_le_length)
  ultimately show ?thesis unfolding n by (rule xor_words_le_bytes)
qed

section \<open>The builder's writer meets the contract\<close>

definition builder_stream :: "builder_io \<Rightarrow> bool list" where "builder_stream st = admin_stream (as_admin st)"

definition builder_ok :: "builder_io \<Rightarrow> bool" where
  "builder_ok st \<longleftrightarrow> admin_ok (as_admin st) \<and> hash_val st = builder_key XOR xor_words (bfile_bytes st)"

definition builder_flushed :: "builder_io \<Rightarrow> bool" where
  "builder_flushed st \<longleftrightarrow> bits_clean st = 64 \<and> bbuf st = 0"

definition builder_room :: "builder_io \<Rightarrow> nat \<Rightarrow> bool" where "builder_room st n \<longleftrightarrow> admin_room (as_admin st) n"

lemma write_buf_ok:
  assumes "write_admin_buf (as_admin st) v b = Inr a" "builder_ok st" "admin_ok a"
  shows "\<exists>t. write_buf st v b = Inr t \<and> as_admin t = a \<and> builder_ok t"
proof -
  have ok: "admin_ok (as_admin st)" "hash_val st = builder_key XOR xor_words (bfile_bytes st)"
    using assms(2) by (simp_all add: builder_ok_def)
  obtain t where t: "write_buf st v b = Inr t" "as_admin t = a" and
    cases: "bfile_bytes t = bfile_bytes st \<and> hash_val t = hash_val st \<or>
     (\<exists>x n. (b \<noteq> 0 \<longrightarrow> n = 8) \<and> (b = 0 \<longrightarrow> x = bbuf st \<and>
          n = unat (word_of_int (((64 - uint (bits_clean st) + 7) div 8 + 3) AND NOT 3) :: u8)) \<and>
        bfile_bytes t = bfile_bytes st @ le_bytes n (reverse_bits_byte_64 (bswap_64 x)) \<and>
        hash_val t = hash_val st XOR halves (reverse_bits_byte_64 (bswap_64 x)))"
    using write_buf_sim [OF assms(1)] by blast
  have "hash_val t = builder_key XOR xor_words (bfile_bytes t)"
    using cases
  proof (elim disjE exE conjE)
    assume "bfile_bytes t = bfile_bytes st" "hash_val t = hash_val st"
    then show ?thesis using ok(2) by simp
  next
    fix x n
    assume n: "b \<noteq> 0 \<longrightarrow> n = 8" "b = 0 \<longrightarrow> x = bbuf st \<and> n = unat (word_of_int (((64 - uint (bits_clean st) + 7) div 8 + 3) AND NOT 3) :: u8)"
      and fl: "bfile_bytes t = bfile_bytes st @ le_bytes n (reverse_bits_byte_64 (bswap_64 x))"
      and h: "hash_val t = hash_val st XOR halves (reverse_bits_byte_64 (bswap_64 x))"
    have "4 dvd length (bfile_bytes st)" using ok(1) by (simp add: admin_ok_def)
    moreover have "xor_words (le_bytes n (reverse_bits_byte_64 (bswap_64 x))) = halves (reverse_bits_byte_64 (bswap_64 x))"
    proof (cases "b = 0")
      case False
      with n show ?thesis by (intro xor_words_le_bytes) (auto dest: bit_imp_le_length)
    next
      case True
      show ?thesis by (rule flushed_halves [OF ok(1)]) (use n True in simp_all)
    qed
    ultimately show ?thesis using ok(2) by (simp add: h fl xor_words_append xor.assoc)
  qed
  with t assms(3) show ?thesis by (auto simp: builder_ok_def)
qed

interpretation builder_sink: bit_sink write_buf builder_stream builder_ok builder_flushed builder_room
proof unfold_locales
  fix s n and v :: u64 and b :: u8
  assume s: "builder_ok s" "0 < unat b" "unat b \<le> 30 \<or> unat b \<le> 64 \<and> (v = 0 \<or> builder_flushed s)"
    "builder_room s (unat b + n)"
  then obtain a where a: "write_admin_buf (as_admin s) v b = Inr a" "admin_ok a" "admin_room a n"
    "admin_stream a = admin_stream (as_admin s) @ word_bits (unat b) v"
    using admin_sink.put_field [of "as_admin s" b v n]
    by (auto simp: builder_ok_def builder_flushed_def builder_room_def admin_flushed_def)
  then show "\<exists>t. write_buf s v b = Inr t \<and> builder_ok t \<and> builder_room t n \<and>
      builder_stream t = builder_stream s @ word_bits (unat b) v"
    using write_buf_ok [OF a(1) s(1) a(2)] a(3,4) by (auto simp: builder_room_def builder_stream_def)
next
  fix s n and v :: u64
  assume s: "builder_ok s" "builder_room s (pad32 (length (builder_stream s)) + n)"
  then obtain a where a: "write_admin_buf (as_admin s) v 0 = Inr a" "admin_ok a" "admin_flushed a" "admin_room a n"
    "admin_stream a = admin_stream (as_admin s) @ replicate (pad32 (length (admin_stream (as_admin s)))) False"
    using admin_sink.put_close [of "as_admin s" n v] by (auto simp: builder_ok_def builder_room_def builder_stream_def)
  then show "\<exists>t. write_buf s v 0 = Inr t \<and> builder_ok t \<and> builder_flushed t \<and> builder_room t n \<and>
      builder_stream t = builder_stream s @ replicate (pad32 (length (builder_stream s))) False"
    using write_buf_ok [OF a(1) s(1) a(2)] a(3-5)
    by (auto simp: builder_room_def builder_stream_def builder_flushed_def admin_flushed_def)
qed

section \<open>The file\<close>

text \<open>The configuration as the client's type: ports in host order, reply type 0.\<close>

definition to_filter :: "bfilter_t \<Rightarrow> filter_t" where
  "to_filter f = \<lparr>
     srcMACBW = b_srcMACBW f, srcMACLength = b_srcMACLength f, srcMACList = b_srcMACList f,
     dstMACBW = b_dstMACBW f, dstMACLength = b_dstMACLength f, dstMACList = b_dstMACList f,
     srcIPBW = b_srcIPBW f, srcIPLength = b_srcIPLength f, srcIPList = b_srcIPList f,
     dstIPBW = b_dstIPBW f, dstIPLength = b_dstIPLength f, dstIPList = b_dstIPList f,
     srcPortBW = b_srcPortBW f, srcPortLength = b_srcPortLength f,
     srcPortList = map (\<lambda>p. \<lparr>port = bswap_16 (port p)\<rparr>) (b_srcPortList f),
     dstPortBW = b_dstPortBW f, dstPortLength = b_dstPortLength f,
     dstPortList = map (\<lambda>p. \<lparr>port = bswap_16 (port p)\<rparr>) (b_dstPortList f),
     dnsBW = b_dnsBW f, dnsLength = b_dnsLength f, dnsItemEndPtr = b_dnsItemEndPtr f, dnsList = b_dnsList f,
     replyType = 0\<rparr>"

lemma wf_builder_configuration: "wf_filter (to_filter builder_configuration)"
  by (simp add: wf_filter_def wf_array_def to_filter_def builder_configuration_def FILTER_DEPTH_def
      wf_mac_def wf_ip_def wf_dns_item_def mac_zero_def)

lemma narrow_builder_calls: "list_all narrow_call (builder_calls f)"
  by (auto simp: builder_calls_def byte_calls_def raw_port_calls_def narrow_call_def list_all_iff)

lemma calls_bits_raw_port_calls:
  "calls_bits (raw_port_calls ps) = concat (map (\<lambda>p. word_bits 16 (htons (port p))) (map (\<lambda>p. \<lparr>port = bswap_16 (port p)\<rparr>) ps))"
  by (induction ps) (simp_all add: raw_port_calls_def call_bits_def word_bits_ucast)

lemma builder_layout: "admin_layout (to_filter f) = calls_bits (builder_calls f) @ [False]"
  by (simp add: builder_calls_def admin_layout_def to_filter_def calls_bits_concat_byte_calls calls_bits_byte_calls
      calls_bits_raw_port_calls call_bits_def word_bits_ucast) (simp add: word_bits_def)

lemma builder_flushed_file:
  "builder_flushed st \<Longrightarrow> builder_stream st = bytes_bits (bfile_bytes st)"
  by (simp add: builder_stream_def admin_stream_def pending_def builder_flushed_def)

text \<open>The file: the configuration padded to 88 bytes, and the check value.\<close>

lemma write_to_file_ok:
  assumes wf: "wf_filter (to_filter f)" and idle: "bbuf st = 0" "bits_clean st = 64"
  obtains t body where "write_to_file True st f = Inr t" "bfile t = Some (body @ le_bytes 4 (builder_key XOR xor_words body))"
    "bytes_bits body = admin_layout (to_filter f) @ replicate 26 False" "bbuf t = 0" "bits_clean t = 64"
proof -
  let ?s = "st\<lparr>bfile := Some [], hash_val := builder_key\<rparr>" and ?l = "calls_bits (builder_calls f)"
  have len: "length ?l = 677" using length_admin_layout [OF wf] by (simp add: builder_layout)
  have s: "builder_ok ?s" "builder_stream ?s = []"
    using idle by (simp_all add: builder_ok_def admin_ok_def as_admin_def bfile_bytes_def admin_file_def builder_stream_def
        admin_stream_def pending_def)
  have "builder_room ?s (length ?l + 59)"
    using s(2) len by (simp add: builder_room_def admin_room_def builder_stream_def)
  then obtain t1 where t1: "cfold (\<lambda>st c. write_buf st (fst c) (snd c)) ?s (builder_calls f) = Inr t1" "builder_ok t1"
      "builder_room t1 59" "builder_stream t1 = ?l"
    using builder_sink.put_all [OF s(1) narrow_builder_calls] s(2) by auto
  have "pad32 (length (builder_stream t1)) = 27" by (simp add: t1(4) len pad32_def)
  then obtain t2 where t2: "write_buf t1 0 0 = Inr t2" "builder_ok t2" "builder_flushed t2" "builder_room t2 32"
      "builder_stream t2 = ?l @ replicate 27 False"
    using builder_sink.put_close [OF t1(2), of 32 0] t1(3,4) by auto
  define body where "body = bfile_bytes t2"
  have body: "bytes_bits body = ?l @ replicate 27 False" "hash_val t2 = builder_key XOR xor_words body"
    using builder_flushed_file [OF t2(3)] t2(2,5) by (simp_all add: body_def builder_ok_def)
  obtain t3 where t3: "write_buf t2 (ucast (hash_val t2)) 32 = Inr t3" "builder_ok t3" "builder_room t3 0"
      "builder_stream t3 = builder_stream t2 @ word_bits 32 (ucast (hash_val t2) :: u64)"
    using builder_sink.put_field [OF t2(2), of 32 "ucast (hash_val t2)" 0] t2(3,4) by auto
  have "length (builder_stream t3) = 736" by (simp add: t3(4) t2(5) len)
  then have "pad32 (length (builder_stream t3)) = 0" by (simp add: pad32_def)
  then obtain t where t: "write_buf t3 0 0 = Inr t" "builder_ok t" "builder_flushed t" "builder_stream t = builder_stream t3"
    using builder_sink.put_close [OF t3(2), of 0 0] t3(3) by auto
  have "word_bits 32 (ucast (hash_val t2) :: u64) = bytes_bits (le_bytes 4 (hash_val t2))"
    using bytes_bits_le_bytes [of 4 "hash_val t2"] by (simp add: word_bits_ucast)
  then have "bytes_bits (bfile_bytes t) = bytes_bits (body @ le_bytes 4 (hash_val t2))"
    using builder_flushed_file [OF t(3)] builder_flushed_file [OF t2(3)] t(4) t3(4) by (simp add: body_def)
  then have "bfile_bytes t = body @ le_bytes 4 (hash_val t2)" by (rule bytes_bits_inj)
  moreover have "bfile t \<noteq> None" using t(2) by (simp add: builder_ok_def admin_ok_def)
  ultimately have "bfile t = Some (body @ le_bytes 4 (hash_val t2))" by (auto simp: bfile_bytes_def)
  moreover have "write_to_file True st f = Inr t"
    using t1(1) t2(1) t3(1) t(1) by (simp add: write_to_file_def builder_append_auth_hash_def Let_def)
  moreover have "bbuf t = 0" "bits_clean t = 64" using t(3) by (simp_all add: builder_flushed_def)
  moreover have "bytes_bits body = admin_layout (to_filter f) @ replicate 26 False"
    by (simp add: body(1) builder_layout flip: replicate_Suc)
  ultimately show thesis using that body(2) by simp
qed

end
