(* ===== verification/Pkt_Sender.thy ===== *)
theory Pkt_Sender
  imports Sender Addr_Text
begin

text \<open>
  The stand-alone test sender: the argument parser of \<^verbatim>\<open>sw/fpga-prober/parser.hh\<close>, the globals of
  \<^verbatim>\<open>sw/fpga-prober/fpga-prober.hh\<close> and \<^verbatim>\<open>sw/fpga-prober/pkt-sender.cc\<close>. The arguments are the
  results of \<open>getopt\<close>, each with the object of its argument; the files and the results of \<open>sendto\<close>
  are parameters. A store outside one of the global arrays is a fault.
\<close>

unbundle bit_operations_syntax

section \<open>The globals\<close>

definition INTF_LENGTH :: nat where "INTF_LENGTH = 16"
definition SEC_IN_USEC :: u64 where "SEC_IN_USEC = 1000000"
definition TOOL_MS_IN_USEC :: u64 where "TOOL_MS_IN_USEC = 1000"

datatype packet_mode_t = UDP_TEST | FILE_TEST
datatype send_mode_t = CHANGING | DAEMON | ONCE

record tool =
  PACKET_MODE :: packet_mode_t
  SEND_MODE :: send_mode_t
  SEND_TIME :: u64
  INTF_NAME :: string
  MAC_ADDRS :: "mac_addr_t list"
  IP_ADDRS :: "ip_addr_t list"
  UDP_PORTS :: "udp_port_t list"
  PAYLOAD :: "u8 list"
  PAYLOAD_LENGTH :: nat
  PKTBUF :: "u8 list"

definition tool_init :: tool where
  "tool_init = \<lparr>PACKET_MODE = UDP_TEST, SEND_MODE = ONCE, SEND_TIME = SEC_IN_USEC,
     INTF_NAME = ''ens37'' @ replicate 11 NUL,
     MAC_ADDRS = [\<lparr>byte = [0x00, 0x0c, 0x29, 0x5f, 0x29, 0xae]\<rparr>, \<lparr>byte = [0x00, 0x0a, 0x35, 0x00, 0x00, 0x00]\<rparr>],
     IP_ADDRS = [\<lparr>num = [0, 0, 0, 0]\<rparr>, \<lparr>num = [192, 168, 5, 1]\<rparr>],
     UDP_PORTS = [\<lparr>port = 12345\<rparr>, \<lparr>port = 23456\<rparr>],
     PAYLOAD = replicate BUFFER_SIZE 0, PAYLOAD_LENGTH = 0, PKTBUF = replicate BUFFER_SIZE 0\<rparr>"

section \<open>The argument parsers\<close>

definition INT16_MAX :: nat where "INT16_MAX = 32767"

definition sender_parse_hex :: "char \<Rightarrow> u8" where
  "sender_parse_hex c = (if is_digit c then of_char c - 48 else of_char c - 87)"

definition store_mac :: "mac_addr_t list \<Rightarrow> nat \<Rightarrow> nat \<Rightarrow> u8 \<Rightarrow> mac_addr_t list cres" where
  "store_mac ms j k v = cbind (cread ms j) (\<lambda>m. cbind (cwrite (byte m) k v) (\<lambda>bs. cwrite ms j \<lparr>byte = bs\<rparr>))"

definition store_ip :: "ip_addr_t list \<Rightarrow> nat \<Rightarrow> nat \<Rightarrow> u8 \<Rightarrow> ip_addr_t list cres" where
  "store_ip as j k v = cbind (cread as j) (\<lambda>a. cbind (cwrite (num a) k v) (\<lambda>bs. cwrite as j \<lparr>num = bs\<rparr>))"

text \<open>The loops run over the text and the character after it, \<open>i <= len\<close>.\<close>

fun macs_loop :: "string \<Rightarrow> mac_addr_t list \<Rightarrow> u8 \<Rightarrow> nat \<Rightarrow> nat \<Rightarrow> mac_addr_t list cres" where
  "macs_loop [] ms cur j k = Inr ms"
| "macs_loop (c # cs) ms cur j k =
     (if c \<noteq> CHR '':'' \<and> c \<noteq> CHR '','' \<and> c \<noteq> NUL then
        macs_loop cs ms (push_bit 4 cur + sender_parse_hex c) j k
      else if c = CHR '':'' then
        cbind (store_mac ms j k cur) (\<lambda>ms. macs_loop cs ms 0 j (k + 1))
      else
        cbind (store_mac ms j k cur) (\<lambda>ms. macs_loop cs ms 0 (j + 1) 0))"

fun ips_loop :: "string \<Rightarrow> ip_addr_t list \<Rightarrow> u8 \<Rightarrow> nat \<Rightarrow> nat \<Rightarrow> ip_addr_t list cres" where
  "ips_loop [] as cur j k = Inr as"
| "ips_loop (c # cs) as cur j k =
     (if c \<noteq> CHR '','' \<and> c \<noteq> CHR ''.'' \<and> c \<noteq> NUL then
        ips_loop cs as (cur * 10 + (of_char c - 48)) j k
      else if c = CHR ''.'' then
        cbind (store_ip as j k cur) (\<lambda>as. ips_loop cs as 0 j (k + 1))
      else
        cbind (store_ip as j k cur) (\<lambda>as. ips_loop cs as 0 (j + 1) 0))"

fun ports_loop :: "string \<Rightarrow> udp_port_t list \<Rightarrow> u16 \<Rightarrow> nat \<Rightarrow> udp_port_t list cres" where
  "ports_loop [] ps cur j = Inr ps"
| "ports_loop (c # cs) ps cur j =
     (if c \<noteq> CHR '','' \<and> c \<noteq> NUL then
        ports_loop cs ps (cur * 10 + (scast (of_char c :: u8) - 48)) j
      else cbind (cwrite ps j \<lparr>port = cur\<rparr>) (\<lambda>ps. ports_loop cs ps 0 (j + 1)))"

text \<open>The characters \<open>str[0] .. str[len]\<close>.\<close>

definition scanned :: "string \<Rightarrow> string cres" where
  "scanned str =
     cbind (strnlen str INT16_MAX) (\<lambda>len. cbind (cread str len) (\<lambda>c. Inr (take len str @ [c])))"

definition sender_parse_mac :: "string \<Rightarrow> tool \<Rightarrow> tool cres" where
  "sender_parse_mac str t =
     cbind (scanned str) (\<lambda>cs. cbind (macs_loop cs (MAC_ADDRS t) 0 0 0) (\<lambda>ms. Inr (t\<lparr>MAC_ADDRS := ms\<rparr>)))"

definition sender_parse_ip :: "string \<Rightarrow> tool \<Rightarrow> tool cres" where
  "sender_parse_ip str t =
     cbind (scanned str) (\<lambda>cs. cbind (ips_loop cs (IP_ADDRS t) 0 0 0) (\<lambda>as. Inr (t\<lparr>IP_ADDRS := as\<rparr>)))"

definition sender_parse_udp :: "string \<Rightarrow> tool \<Rightarrow> tool cres" where
  "sender_parse_udp str t =
     cbind (scanned str) (\<lambda>cs. cbind (ports_loop cs (UDP_PORTS t) 0 0) (\<lambda>ps. Inr (t\<lparr>UDP_PORTS := ps\<rparr>)))"

text \<open>\<open>fopen\<close> of a missing file gives the null pointer that \<open>fseek\<close> then reads through.\<close>

definition sender_read_file :: "(string \<Rightarrow> u8 list option) \<Rightarrow> string \<Rightarrow> tool \<Rightarrow> tool cres" where
  "sender_read_file files name t =
     cbind (percent_s name) (\<lambda>name.
     case files name of
       None \<Rightarrow> Inl NullPointer
     | Some bs \<Rightarrow>
         let n = (if length bs > BUFFER_SIZE then BUFFER_SIZE else length bs)
         in cbind (cblit (PAYLOAD t) 0 (take n bs)) (\<lambda>pl. Inr (t\<lparr>PAYLOAD_LENGTH := n, PAYLOAD := pl\<rparr>)))"

text \<open>\<open>atoi\<close>: blanks, a sign, digits; undefined for a number outside \<open>int\<close>.\<close>

fun digits_value :: "string \<Rightarrow> int \<Rightarrow> int cres" where
  "digits_value [] n = Inl OutOfBounds"
| "digits_value (c # cs) n = (if is_digit c then digits_value cs (10 * n + (of_char c - 48)) else Inr n)"

definition atoi :: "string \<Rightarrow> int cres" where
  "atoi s =
     cbind (skip_space s) (\<lambda>k.
     cbind (cread s k) (\<lambda>c.
     cbind (digits_value (drop (if c = CHR ''-'' \<or> c = CHR ''+'' then k + 1 else k) s) 0) (\<lambda>n.
     let n = (if c = CHR ''-'' then - n else n)
     in if - (2 ^ 31) \<le> n \<and> n < 2 ^ 31 then Inr n else Inl IntOverflow)))"

definition sender_usage :: string where
  "sender_usage = ''Usage:'' @ NL # ''./pkt-sender.out -f en0 -r dnspacket.bin -t 500 -s daemon '' @
     ''-m 0a:0b:0c:0d:0e:0f,1a:1b:1c:1d:1e:1f -i 10.0.1.14,192.168.5.1 '' @ ''-u 12345,23456'' @ [NL]"

text \<open>One option, and all of them; the left result is the output before \<open>exit(0)\<close>.\<close>

definition sender_option :: "(string \<Rightarrow> u8 list option) \<Rightarrow> char \<Rightarrow> string \<Rightarrow> tool \<Rightarrow> (console list + tool) cres" where
  "sender_option files c optarg t =
     (let continue = \<lambda>r. cbind r (\<lambda>t. Inr (Inr t)) in
      if c = CHR ''r'' then continue (sender_read_file files optarg (t\<lparr>PACKET_MODE := FILE_TEST\<rparr>))
      else if c = CHR ''t'' then
        continue (cbind (atoi optarg) (\<lambda>n. Inr (t\<lparr>SEND_TIME := word_of_int n * TOOL_MS_IN_USEC\<rparr>)))
      else if c = CHR ''s'' then
        continue (cbind (strncmp_eq optarg (cstr ''daemon'') 7) (\<lambda>d.
          if d then Inr (t\<lparr>SEND_MODE := DAEMON\<rparr>)
          else cbind (strncmp_eq optarg (cstr ''once'') 5) (\<lambda>once.
            if once then Inr (t\<lparr>SEND_MODE := ONCE\<rparr>) else Inr t)))
      else if c = CHR ''f'' then
        continue (cbind (strnlen optarg INTF_LENGTH) (\<lambda>n.
          cbind (strncpy (INTF_NAME t) optarg (n + 1)) (\<lambda>nm. Inr (t\<lparr>INTF_NAME := nm\<rparr>))))
      else if c = CHR ''m'' then continue (sender_parse_mac optarg t)
      else if c = CHR ''i'' then continue (sender_parse_ip optarg t)
      else if c = CHR ''u'' then continue (sender_parse_udp optarg t)
      else Inr (Inl ((if c = CHR ''h'' then [] else [Stdout (''Unrecognised argument'' @ [NL])]) @ [Stdout sender_usage])))"

fun parse_args_sender ::
  "(string \<Rightarrow> u8 list option) \<Rightarrow> tool \<Rightarrow> (char \<times> string) list \<Rightarrow> (console list + tool) cres" where
  "parse_args_sender files t [] = Inr (Inr t)"
| "parse_args_sender files t ((c, optarg) # opts) =
     cbind (sender_option files c optarg t) (\<lambda>r.
     case r of Inl out \<Rightarrow> Inr (Inl out) | Inr t \<Rightarrow> parse_args_sender files t opts)"

section \<open>Forming and sending\<close>

definition sender_text ::
  "mac_addr_t \<Rightarrow> mac_addr_t \<Rightarrow> ip_addr_t \<Rightarrow> ip_addr_t \<Rightarrow> udp_port_t \<Rightarrow> udp_port_t \<Rightarrow> console list" where
  "sender_text sm dm si di sp dp =
     (let mac = \<lambda>m. join CHR '':'' (map hex2 (byte m)); ip = \<lambda>a. join CHR ''.'' (map (\<lambda>b. dec (unat b)) (num a));
          pt = \<lambda>q. dec (unat (ntohs (htons (port q))))
      in [Stdout (''src MAC: '' @ mac sm @ [NL]), Stdout (''dst MAC: '' @ mac dm @ [NL]),
          Stdout (''src IP: '' @ ip si @ [NL]), Stdout (''dst IP: '' @ ip di @ [NL]),
          Stdout (''src Port: '' @ pt sp @ [NL]), Stdout (''dst Port: '' @ pt dp @ [NL])])"

definition test_payload :: "u8 list" where "test_payload = map of_char (cstr ''test01'')"

text \<open>\<open>form_packet\<close>: the stores are those of the client's sender, on \<open>PKTBUF\<close>.\<close>

definition sender_form_packet :: "tool \<Rightarrow> (tool \<times> console list) cres" where
  "sender_form_packet t =
     cbind (cread (MAC_ADDRS t) 0) (\<lambda>sm. cbind (cread (MAC_ADDRS t) 1) (\<lambda>dm.
     cbind (cread (IP_ADDRS t) 0) (\<lambda>si. cbind (cread (IP_ADDRS t) 1) (\<lambda>di.
     cbind (cread (UDP_PORTS t) 0) (\<lambda>sp. cbind (cread (UDP_PORTS t) 1) (\<lambda>dp.
     let n = (if PACKET_MODE t = UDP_TEST then 7 else PAYLOAD_LENGTH t);
         payload = (if PACKET_MODE t = UDP_TEST then test_payload else PAYLOAD t)
     in if n > length payload then Inl OutOfBounds else
     cbind (do_stores (PKTBUF t) (packet_stores sm dm si di sp dp (take n payload))) (\<lambda>buf.
     cbind (IPchecksum (ip_words buf) 10) (\<lambda>c.
     cbind (cblit buf 24 (store16 (htons c))) (\<lambda>buf.
     Inr (t\<lparr>PKTBUF := buf, PAYLOAD_LENGTH := n\<rparr>, sender_text sm dm si di sp dp))))))))))"

text \<open>
  \<open>trigger_send\<close>: the bytes given to \<open>sendto\<close>, and the time slept or, for an error number, the
  reports before \<open>exit(1)\<close>. The argument of \<open>usleep\<close> has 32 bits.
\<close>

datatype send_end = Slept u32 | Exit_1 "console list"

definition sender_trigger_send :: "(nat \<Rightarrow> string) \<Rightarrow> tool \<Rightarrow> nat option \<Rightarrow> (u8 list \<times> send_end) cres" where
  "sender_trigger_send strerror t errno =
     (let n = PAYLOAD_LENGTH t + 8 + 20 + 14
      in if n > length (PKTBUF t) then Inl OutOfBounds
         else Inr (take n (PKTBUF t),
           case errno of
             None \<Rightarrow> Slept (ucast (SEND_TIME t))
           | Some e \<Rightarrow> Exit_1 [Stdout (''ERROR in sending, sendlen=-1, errno='' @ dec e @ [NL]),
                               Stderr (''Socket:: '' @ strerror e @ [NL])]))"

text \<open>
  The three send modes, over the results of the next calls of \<open>sendto\<close>: the packets handed over,
  the output, and whether the program is still running when the results are used up.
\<close>

fun daemon_loop :: "(nat \<Rightarrow> string) \<Rightarrow> tool \<Rightarrow> nat option list \<Rightarrow> (u8 list list \<times> console list \<times> bool) cres" where
  "daemon_loop strerror t [] = Inr ([], [], True)"
| "daemon_loop strerror t (e # es) =
     cbind (sender_trigger_send strerror t e) (\<lambda>(pkt, r).
     case r of
       Exit_1 out \<Rightarrow> Inr ([pkt], out, False)
     | Slept _ \<Rightarrow> cbind (daemon_loop strerror t es) (\<lambda>(ps, out, b). Inr (pkt # ps, out, b)))"

fun changing_loop :: "(nat \<Rightarrow> string) \<Rightarrow> tool \<Rightarrow> nat option list \<Rightarrow> (u8 list list \<times> console list \<times> bool) cres" where
  "changing_loop strerror t [] = Inr ([], [], True)"
| "changing_loop strerror t (e # es) =
     cbind (sender_trigger_send strerror t e) (\<lambda>(pkt, r).
     case r of
       Exit_1 out \<Rightarrow> Inr ([pkt], out, False)
     | Slept _ \<Rightarrow>
         cbind (sender_form_packet t) (\<lambda>(t, out1).
         cbind (changing_loop strerror t es) (\<lambda>(ps, out, b). Inr (pkt # ps, out1 @ out, b))))"

fun sender_once :: "(nat \<Rightarrow> string) \<Rightarrow> tool \<Rightarrow> nat option list \<Rightarrow> (u8 list list \<times> console list \<times> bool) cres" where
  "sender_once strerror t [] = Inr ([], [], True)"
| "sender_once strerror t (e # es) =
     cbind (sender_trigger_send strerror t e) (\<lambda>(pkt, r).
     Inr ([pkt], case r of Exit_1 out \<Rightarrow> out | Slept _ \<Rightarrow> [], False))"

text \<open>Which of the calls before the loop succeed, and \<open>ifr_name\<close> of the two requests.\<close>

record tool_env =
  tool_socket_ok :: bool
  tool_index_ok :: bool
  tool_hwaddr_ok :: bool

definition sender_setup :: "tool_env \<Rightarrow> tool \<Rightarrow> (string \<times> string \<times> console list) cres" where
  "sender_setup e t =
     cbind (strnlen (INTF_NAME t) INTF_LENGTH) (\<lambda>n.
     cbind (strncpy (replicate 16 NUL) (INTF_NAME t) n) (\<lambda>ni.
     cbind (strncpy (replicate 16 NUL) (INTF_NAME t) n) (\<lambda>nc.
     Inr (ni, nc,
       (if tool_socket_ok e then [] else [Stdout (''ERROR in socket'' @ [NL])]) @
       (if tool_index_ok e then [] else [Stdout ''ERROR in index ioctl reading'']) @
       (if tool_hwaddr_ok e then [] else [Stdout (''ERROR in SIOCGIFHWADDR ioctl reading'' @ [NL])])))))"

text \<open>\<open>main\<close>: the packets sent, the output, and whether it is still in its loop.\<close>

definition sender_main ::
  "(string \<Rightarrow> u8 list option) \<Rightarrow> tool_env \<Rightarrow> (nat \<Rightarrow> string) \<Rightarrow> (char \<times> string) list \<Rightarrow> nat option list \<Rightarrow>
   (u8 list list \<times> console list \<times> bool) cres" where
  "sender_main files e strerror opts results =
     cbind (parse_args_sender files tool_init opts) (\<lambda>r.
     case r of
       Inl out \<Rightarrow> Inr ([], out, False)
     | Inr t \<Rightarrow>
         cbind (sender_setup e t) (\<lambda>(_, _, out1).
         cbind (sender_form_packet t) (\<lambda>(t, out2).
         cbind (case SEND_MODE t of
                  DAEMON \<Rightarrow> daemon_loop strerror t results
                | ONCE \<Rightarrow> sender_once strerror t results
                | CHANGING \<Rightarrow> changing_loop strerror t results) (\<lambda>(ps, out, b).
         Inr (ps, out1 @ out2 @ out, b)))))"

section \<open>Lists of addresses\<close>

definition ends_entry :: "char \<Rightarrow> bool" where "ends_entry c \<longleftrightarrow> c = CHR '','' \<or> c = NUL"

text \<open>The loops of \<open>parse_mac\<close> and \<open>parse_ip\<close> fill a table of byte arrays.\<close>

locale entry_parser =
  fixes get :: "'a \<Rightarrow> u8 list"
    and mk :: "u8 list \<Rightarrow> 'a"
    and acc :: "u8 \<Rightarrow> char \<Rightarrow> u8"
    and sep :: char
    and store :: "'a list \<Rightarrow> nat \<Rightarrow> nat \<Rightarrow> u8 \<Rightarrow> 'a list cres"
    and loop :: "string \<Rightarrow> 'a list \<Rightarrow> u8 \<Rightarrow> nat \<Rightarrow> nat \<Rightarrow> 'a list cres"
  assumes get_mk [simp]: "get (mk bs) = bs"
    and store: "store tab j k v =
      (if j < length tab \<and> k < length (get (tab ! j)) then Inr (tab[j := mk ((get (tab ! j))[k := v])]) else Inl OutOfBounds)"
    and sep: "\<not> ends_entry sep"
    and loop_Nil: "loop [] tab cur j k = Inr tab"
    and loop_plain: "c \<noteq> sep \<Longrightarrow> \<not> ends_entry c \<Longrightarrow> loop (c # cs) tab cur j k = loop cs tab (acc cur c) j k"
    and loop_sep: "loop (sep # cs) tab cur j k = cbind (store tab j k cur) (\<lambda>tab. loop cs tab 0 j (k + 1))"
    and loop_end: "ends_entry c \<Longrightarrow> loop (c # cs) tab cur j k = cbind (store tab j k cur) (\<lambda>tab. loop cs tab 0 (j + 1) 0)"
begin

definition plain :: "char \<Rightarrow> bool" where "plain c \<longleftrightarrow> c \<noteq> sep \<and> \<not> ends_entry c"

text \<open>A run keeps the shape of the table.\<close>

lemma store_shape: "store tab j k v = Inr tab' \<Longrightarrow> map (length \<circ> get) tab' = map (length \<circ> get) tab"
  by (auto simp: store map_update split: if_splits intro!: list_eq_iff_nth_eq [THEN iffD2]) (simp add: nth_list_update)

lemma loop_shape: "loop cs tab cur j k = Inr tab' \<Longrightarrow> map (length \<circ> get) tab' = map (length \<circ> get) tab"
proof (induction cs arbitrary: tab cur j k)
  case (Cons c cs)
  consider "plain c" | "c = sep" | "ends_entry c" by (auto simp: plain_def)
  then show ?case
  proof cases
    case 1
    with Cons show ?thesis by (simp add: loop_plain plain_def)
  next
    case 2
    then obtain tab1 where "store tab j k cur = Inr tab1" "loop cs tab1 0 j (k + 1) = Inr tab'"
      using Cons.prems by (auto simp: loop_sep cbind_eq_Inr)
    then show ?thesis using Cons.IH store_shape by metis
  next
    case 3
    then obtain tab1 where "store tab j k cur = Inr tab1" "loop cs tab1 0 (j + 1) 0 = Inr tab'"
      using Cons.prems by (auto simp: loop_end cbind_eq_Inr)
    then show ?thesis using Cons.IH store_shape by metis
  qed
qed (simp add: loop_Nil)

lemma loop_word: "list_all plain w \<Longrightarrow> loop (w @ cs) tab cur j k = loop cs tab (foldl acc cur w) j k"
  by (induction w arbitrary: cur) (simp_all add: loop_plain plain_def)

lemma loop_entry:
  assumes "ws \<noteq> []" "list_all (list_all plain) ws" "ends_entry c" "j < length tab" "k + length ws = length (get (tab ! j))"
  shows "loop (join sep ws @ c # cs) tab 0 j k =
    loop cs (tab[j := mk (take k (get (tab ! j)) @ map (foldl acc 0) ws)]) 0 (j + 1) 0"
  using assms
proof (induction ws arbitrary: tab k rule: induct_list012)
  case (2 w)
  then have "k < length (get (tab ! j))" "(get (tab ! j))[k := foldl acc 0 w] = take k (get (tab ! j)) @ [foldl acc 0 w]"
    by (simp_all add: upd_conv_take_nth_drop)
  with 2 show ?case by (simp add: loop_word loop_end store)
next
  case (3 w v ws)
  let ?e = "get (tab ! j)"
  let ?tab = "tab[j := mk (?e[k := foldl acc 0 w])]"
  have "k < length ?e" using "3.prems" by simp
  then have "loop (join sep (w # v # ws) @ c # cs) tab 0 j k = loop (join sep (v # ws) @ c # cs) ?tab 0 j (Suc k)"
    using "3.prems" by (simp add: loop_word loop_sep store)
  also have "\<dots> = loop cs (?tab[j := mk (take (Suc k) (get (?tab ! j)) @ map (foldl acc 0) (v # ws))]) 0 (j + 1) 0"
    using "3.prems" by (intro "3.IH"(2)) simp_all
  also have "take (Suc k) (get (?tab ! j)) = take k ?e @ [foldl acc 0 w]"
    using "3.prems" \<open>k < length ?e\<close> by (simp add: take_Suc_conv_app_nth)
  finally show ?case by simp
qed simp

text \<open>Entries for at most as many slots as the table has are stored from its start.\<close>

lemma loop_entries:
  assumes "wss \<noteq> []" "list_all (list_all (list_all plain)) wss" "j + length wss \<le> length tab" "0 < n"
    "\<And>ws. ws \<in> set wss \<Longrightarrow> length ws = n" "\<And>x. x \<in> set tab \<Longrightarrow> length (get x) = n"
  shows "loop (join CHR '','' (map (join sep) wss) @ [NUL]) tab 0 j 0 =
    Inr (take j tab @ map (\<lambda>ws. mk (map (foldl acc 0) ws)) wss @ drop (j + length wss) tab)"
  using assms
proof (induction wss arbitrary: tab j rule: induct_list012)
  case (2 ws)
  then have "ws \<noteq> []" "length (get (tab ! j)) = n" by auto
  then have "loop (join sep ws @ NUL # []) tab 0 j 0 = loop [] (tab[j := mk (take 0 (get (tab ! j)) @ map (foldl acc 0) ws)]) 0 (j + 1) 0"
    using "2.prems" by (intro loop_entry) (simp_all add: ends_entry_def)
  with "2.prems" show ?case by (simp add: loop_Nil upd_conv_take_nth_drop)
next
  case (3 ws vs wss)
  let ?tab = "tab[j := mk (map (foldl acc 0) ws)]"
  have j: "j < length tab" using "3.prems"(3) by simp
  then have e: "ws \<noteq> []" "length (get (tab ! j)) = n" using "3.prems" by auto
  have shape: "length (get x) = n" if "x \<in> set ?tab" for x
    using that set_update_subset_insert [of tab j "mk (map (foldl acc 0) ws)"] "3.prems"(5) [of ws] "3.prems"(6) by auto
  have "loop (join CHR '','' (map (join sep) (ws # vs # wss)) @ [NUL]) tab 0 j 0 =
      loop (join CHR '','' (map (join sep) (vs # wss)) @ [NUL]) (tab[j := mk (take 0 (get (tab ! j)) @ map (foldl acc 0) ws)]) 0 (j + 1) 0"
    using loop_entry [OF e(1), of "CHR '',''" j tab 0] "3.prems" e j by (simp add: ends_entry_def)
  also have "\<dots> = Inr (take (j + 1) ?tab @ map (\<lambda>ws. mk (map (foldl acc 0) ws)) (vs # wss) @ drop (j + 1 + length (vs # wss)) ?tab)"
    using "3.prems" shape by (simp only: take0 append_Nil) (intro "3.IH"(2), auto)
  finally show ?case using j by (simp add: take_Suc_conv_app_nth)
qed simp

lemma loop_outside: "length tab \<le> j \<Longrightarrow> c \<in> set cs \<Longrightarrow> \<not> plain c \<Longrightarrow> loop cs tab cur j k = Inl OutOfBounds"
proof (induction cs arbitrary: cur k)
  case (Cons d cs)
  consider "plain d" | "d = sep" | "ends_entry d" by (auto simp: plain_def)
  then show ?case
    by cases (use Cons in \<open>auto simp: loop_plain plain_def loop_sep loop_end store\<close>)
qed simp

end

definition sender_mac_acc :: "u8 \<Rightarrow> char \<Rightarrow> u8" where "sender_mac_acc cur c = push_bit 4 cur + sender_parse_hex c"

interpretation mac_list: entry_parser byte "\<lambda>bs. \<lparr>byte = bs\<rparr>" sender_mac_acc "CHR '':''" store_mac macs_loop
  by unfold_locales (auto simp: store_mac_def cread_def cwrite_def ends_entry_def sender_mac_acc_def)

interpretation ip_list: entry_parser num "\<lambda>bs. \<lparr>num = bs\<rparr>" ip_acc "CHR ''.''" store_ip ips_loop
  by unfold_locales (auto simp: store_ip_def cread_def cwrite_def ends_entry_def)

section \<open>The texts of addresses and ports\<close>

definition hex_low :: "nat \<Rightarrow> char" where
  "hex_low n = (if n < 10 then char_of (48 + n) else char_of (87 + n))"

definition hex2_low :: "u8 \<Rightarrow> string" where
  "hex2_low b = [hex_low (unat (drop_bit 4 b)), hex_low (unat (b AND 0x0f))]"

definition macs_text :: "mac_addr_t list \<Rightarrow> string" where
  "macs_text ms = join CHR '','' (map (join CHR '':'') (map (\<lambda>m. map hex2_low (byte m)) ms)) @ [NUL]"

definition ips_text :: "ip_addr_t list \<Rightarrow> string" where
  "ips_text as = join CHR '','' (map (join CHR ''.'') (map (\<lambda>a. map (\<lambda>n. dec (unat n)) (num a)) as)) @ [NUL]"

definition ports_text :: "udp_port_t list \<Rightarrow> string" where
  "ports_text ps = join CHR '','' (map (\<lambda>p. dec (unat (port p))) ps) @ [NUL]"

lemma hex_low_ok:
  assumes "n < 16"
  shows "mac_list.plain (hex_low n)" "hex_low n \<noteq> NUL" "sender_parse_hex (hex_low n) = word_of_nat n"
proof -
  have code: "(of_char (hex_low n) :: nat) = (if n < 10 then 48 + n else 87 + n)"
    using assms by (auto simp: hex_low_def of_char_code simp del: of_char_of)
  have ne: "hex_low n \<noteq> c" if "(of_char c :: nat) \<notin> {48..57} \<union> {97..102}" for c
    using code that assms by (auto split: if_splits)
  show "hex_low n \<noteq> NUL" "mac_list.plain (hex_low n)" by (auto simp: mac_list.plain_def ends_entry_def ne)
  show "sender_parse_hex (hex_low n) = word_of_nat n"
    using assms by (auto simp: sender_parse_hex_def hex_low_def in_range_def of_char_code simp del: of_char_of)
qed

lemma hex2_low_ok:
  "list_all mac_list.plain (hex2_low b)" "NUL \<notin> set (hex2_low b)" "foldl sender_mac_acc 0 (hex2_low b) = b" "length (hex2_low b) = 2"
  using nibbles [of b] hex_low_ok [of "unat (drop_bit 4 b)"] hex_low_ok [of "unat (b AND 0x0f)"]
  by (simp_all add: hex2_low_def sender_mac_acc_def)

lemma digit_plain: "is_digit c \<Longrightarrow> ip_list.plain c" "is_digit c \<Longrightarrow> c \<noteq> NUL \<and> c \<noteq> CHR '',''"
  by (auto simp: ip_list.plain_def ends_entry_def in_range_def)

lemma dec_plain: "list_all ip_list.plain (dec n)"
  using dec_digits [of n] digit_plain by (auto simp: list_all_iff)

lemma scanned_text: "NUL \<notin> set s \<Longrightarrow> length s \<le> INT16_MAX \<Longrightarrow> scanned (s @ [NUL]) = Inr (s @ [NUL])"
  by (simp add: scanned_def strnlen_text cread_Inr)

lemma nested_no_NUL:
  assumes "sep1 \<noteq> NUL" "sep2 \<noteq> NUL" "\<And>ws w. ws \<in> set wss \<Longrightarrow> w \<in> set ws \<Longrightarrow> NUL \<notin> set w"
  shows "NUL \<notin> set (join sep1 (map (join sep2) wss))"
proof (rule join_no_NUL [OF assms(1)])
  fix w assume "w \<in> set (map (join sep2) wss)"
  then obtain ws where "ws \<in> set wss" "w = join sep2 ws" by auto
  with assms show "NUL \<notin> set w" by (simp add: join_no_NUL)
qed

text \<open>Addresses for one or both slots are stored; the other slot is kept.\<close>

lemma macs_parsed:
  assumes "ms \<noteq> []" "length ms \<le> length (MAC_ADDRS t)" "length ms \<le> 1000"
    "\<And>m. m \<in> set ms \<union> set (MAC_ADDRS t) \<Longrightarrow> wf_mac m"
  shows "sender_parse_mac (macs_text ms) t = Inr (t\<lparr>MAC_ADDRS := ms @ drop (length ms) (MAC_ADDRS t)\<rparr>)"
proof -
  let ?wss = "map (\<lambda>m. map hex2_low (byte m)) ms"
  let ?s = "join CHR '','' (map (join CHR '':'') ?wss)"
  have one: "17 \<le> length (join CHR '':'' (map hex2_low (byte m)))" "length (join CHR '':'' (map hex2_low (byte m))) \<le> 17"
    if "m \<in> set ms" for m
    using join_bounds [of "map hex2_low (byte m)" 2 2 "CHR '':''"] that assms(4) [of m]
    by (force simp: hex2_low_ok(4) wf_mac_def)+
  have "Suc (length ?s) \<le> (17 + 1) * length (map (join CHR '':'') ?wss)"
    by (rule join_bounds(2) [where lo = 17]) (use assms(1) one in auto)
  then have "length ?s \<le> INT16_MAX" using assms(3) by (simp add: INT16_MAX_def)
  moreover have "NUL \<notin> set ?s" by (rule nested_no_NUL) (auto simp: hex2_low_ok(2))
  ultimately have "scanned (macs_text ms) = Inr (?s @ [NUL])" unfolding macs_text_def by (intro scanned_text)
  moreover have "macs_loop (?s @ [NUL]) (MAC_ADDRS t) 0 0 0 =
      Inr (take 0 (MAC_ADDRS t) @ map (\<lambda>ws. \<lparr>byte = map (foldl sender_mac_acc 0) ws\<rparr>) ?wss @ drop (0 + length ?wss) (MAC_ADDRS t))"
    by (rule mac_list.loop_entries [where n = 6])
      (use assms in \<open>auto simp: list_all_iff wf_mac_def hex2_low_ok(1) [unfolded list_all_iff]\<close>)
  moreover have "map (\<lambda>ws. \<lparr>byte = map (foldl sender_mac_acc 0) ws\<rparr>) ?wss = ms"
    by (simp add: comp_def hex2_low_ok(3) map_idI)
  ultimately show ?thesis by (simp add: sender_parse_mac_def)
qed

lemma ips_parsed:
  assumes "as \<noteq> []" "length as \<le> length (IP_ADDRS t)" "length as \<le> 1000"
    "\<And>a. a \<in> set as \<union> set (IP_ADDRS t) \<Longrightarrow> wf_ip a"
  shows "sender_parse_ip (ips_text as) t = Inr (t\<lparr>IP_ADDRS := as @ drop (length as) (IP_ADDRS t)\<rparr>)"
proof -
  let ?ws = "\<lambda>a. map (\<lambda>n. dec (unat n)) (num a)"
  let ?s = "join CHR '','' (map (join CHR ''.'') (map ?ws as))"
  have d: "1 \<le> length (dec (unat b))" "length (dec (unat b)) \<le> 3" for b :: u8
    using length_dec(1) [of "unat b" 3] length_dec(2) [of "unat b"] unsigned_less [of b, where 'a = nat] by simp_all
  have one: "7 \<le> length (join CHR ''.'' (?ws a))" "length (join CHR ''.'' (?ws a)) \<le> 15" if "a \<in> set as" for a
    using join_bounds [of "?ws a" 1 3 "CHR ''.''"] that assms(4) [of a] d by (force simp: wf_ip_def)+
  have "Suc (length ?s) \<le> (15 + 1) * length (map (join CHR ''.'') (map ?ws as))"
    by (rule join_bounds(2) [where lo = 7]) (use assms(1) one in auto)
  then have "length ?s \<le> INT16_MAX" using assms(3) by (simp add: INT16_MAX_def)
  moreover have "NUL \<notin> set ?s" by (rule nested_no_NUL) (auto simp: text_no_NUL)
  ultimately have "scanned (ips_text as) = Inr (?s @ [NUL])" unfolding ips_text_def by (intro scanned_text)
  moreover have "ips_loop (?s @ [NUL]) (IP_ADDRS t) 0 0 0 =
      Inr (take 0 (IP_ADDRS t) @ map (\<lambda>ws. \<lparr>num = map (foldl ip_acc 0) ws\<rparr>) (map ?ws as) @ drop (0 + length (map ?ws as)) (IP_ADDRS t))"
    by (rule ip_list.loop_entries [where n = 4])
      (use assms in \<open>auto simp: list_all_iff wf_ip_def dec_plain [unfolded list_all_iff]\<close>)
  moreover have "map (\<lambda>ws. \<lparr>num = map (foldl ip_acc 0) ws\<rparr>) (map ?ws as) = as"
    by (simp add: comp_def dec_value map_idI)
  ultimately show ?thesis by (simp add: sender_parse_ip_def)
qed

lemma ports_loop_word:
  "list_all is_digit w \<Longrightarrow> ports_loop (w @ cs) ps cur j = ports_loop cs ps (foldl (\<lambda>cur c. cur * 10 + (of_char c - 48)) cur w) j"
proof (induction w arbitrary: cur)
  case (Cons c w)
  have "(of_char c :: nat) \<le> 57" using Cons.prems by (simp add: in_range_def)
  then have "scast (of_char c :: u8) = (of_char c :: u16)"
    by (cases c) (auto simp: of_char_def simp del: of_char_Char)
  with Cons show ?case by (simp add: digit_plain)
qed simp

lemma ports_parsed:
  assumes "ps \<noteq> []" "length ps \<le> length (UDP_PORTS t)" "length ps \<le> 1000"
  shows "sender_parse_udp (ports_text ps) t = Inr (t\<lparr>UDP_PORTS := ps @ drop (length ps) (UDP_PORTS t)\<rparr>)"
proof -
  let ?w = "\<lambda>p. dec (unat (port p))"
  let ?s = "\<lambda>ps. join CHR '','' (map ?w ps)"
  have d: "1 \<le> length (?w p)" "length (?w p) \<le> 5" for p :: udp_port_t
    using length_dec(1) [of "unat (port p)" 5] length_dec(2) [of "unat (port p)"] unsigned_less [of "port p", where 'a = nat] by simp_all
  have "Suc (length (?s ps)) \<le> (5 + 1) * length (map ?w ps)"
    by (rule join_bounds(2) [where lo = 1]) (use assms(1) d in auto)
  then have "length (?s ps) \<le> INT16_MAX" using assms(3) by (simp add: INT16_MAX_def)
  moreover have "NUL \<notin> set (?s ps)" by (intro join_no_NUL) (auto simp: text_no_NUL)
  ultimately have "scanned (ports_text ps) = Inr (?s ps @ [NUL])" unfolding ports_text_def by (intro scanned_text)
  moreover have "ports_loop (?s ps @ [NUL]) tab 0 j = Inr (take j tab @ ps @ drop (j + length ps) tab)"
    if "ps \<noteq> []" "j + length ps \<le> length tab" for tab j
    using that
  proof (induction ps arbitrary: tab j rule: induct_list012)
    case (2 p)
    then show ?case
      using ports_loop_word [OF dec_digits, of "unat (port p)" "[NUL]" tab 0 j]
      by (simp add: dec_value cwrite_Inr upd_conv_take_nth_drop)
  next
    case (3 p q ps)
    have "ports_loop (?s (p # q # ps) @ [NUL]) tab 0 j = ports_loop (?s (q # ps) @ [NUL]) (tab[j := p]) 0 (Suc j)"
      using "3.prems" by (cases p) (simp add: ports_loop_word dec_digits dec_value cwrite_Inr)
    also have "\<dots> = Inr (take (Suc j) (tab[j := p]) @ (q # ps) @ drop (Suc j + length (q # ps)) (tab[j := p]))"
      using "3.prems" by (intro "3.IH"(2)) simp_all
    finally show ?case using "3.prems" by (simp add: take_Suc_conv_app_nth)
  qed simp
  ultimately show ?thesis using assms by (simp add: sender_parse_udp_def)
qed

section \<open>The globals after the arguments\<close>

definition wf_tool :: "tool \<Rightarrow> bool" where
  "wf_tool t \<longleftrightarrow> SEND_MODE t \<noteq> CHANGING \<and> length (INTF_NAME t) = INTF_LENGTH \<and>
     map (length \<circ> byte) (MAC_ADDRS t) = [6, 6] \<and> map (length \<circ> num) (IP_ADDRS t) = [4, 4] \<and>
     length (UDP_PORTS t) = 2 \<and> length (PAYLOAD t) = BUFFER_SIZE \<and> PAYLOAD_LENGTH t \<le> BUFFER_SIZE \<and>
     PKTBUF t = replicate BUFFER_SIZE 0"

lemma wf_tool_init: "wf_tool tool_init"
  by (simp add: wf_tool_def tool_init_def INTF_LENGTH_def)

lemma cblit_length: "cblit xs p ys = Inr zs \<Longrightarrow> length zs = length xs"
  by (auto simp: cblit_def split: if_splits)

lemma strncpy_length: "strncpy d s n = Inr d' \<Longrightarrow> length d' = length d"
  by (auto simp: strncpy_def cbind_eq_Inr cblit_length)

lemma ports_loop_length: "ports_loop cs ps cur j = Inr ps' \<Longrightarrow> length ps' = length ps"
  by (induction cs ps cur j rule: ports_loop.induct) (auto simp: cbind_eq_Inr cwrite_def split: if_splits)

lemma sender_option_result:
  assumes "sender_option files c a t = Inr (Inr t')"
  obtains (payload) "sender_read_file files a (t\<lparr>PACKET_MODE := FILE_TEST\<rparr>) = Inr t'"
    | (time) n where "t' = t\<lparr>SEND_TIME := n\<rparr>"
    | (mode) m where "t' = t\<lparr>SEND_MODE := m\<rparr>" "m \<noteq> CHANGING" | (same) "t' = t"
    | (name) nm where "t' = t\<lparr>INTF_NAME := nm\<rparr>" "length nm = length (INTF_NAME t)"
    | (mac) "sender_parse_mac a t = Inr t'" | (ip) "sender_parse_ip a t = Inr t'" | (udp) "sender_parse_udp a t = Inr t'"
proof -
  consider "c = CHR ''r''" | "c = CHR ''t''" | "c = CHR ''s''" | "c = CHR ''f''" | "c = CHR ''m''" | "c = CHR ''i''" | "c = CHR ''u''"
    | "c \<notin> set ''rtsfmiu''" by auto
  then show thesis
  proof cases
    case 3
    with assms mode same show thesis
      by (auto simp: sender_option_def cbind_eq_Inr Let_def split: if_splits)
  next
    case 4
    with assms name strncpy_length show thesis by (simp add: sender_option_def cbind_eq_Inr Let_def) blast
  qed (use assms payload time mac ip udp in \<open>auto simp: sender_option_def cbind_eq_Inr Let_def\<close>)
qed

lemma sender_read_file_wf: "sender_read_file files a t = Inr t' \<Longrightarrow> wf_tool t \<Longrightarrow> wf_tool t'"
  by (auto simp: sender_read_file_def wf_tool_def cbind_eq_Inr Let_def cblit_length split: option.splits)

lemma sender_option_wf:
  assumes "sender_option files c a t = Inr (Inr t')" "wf_tool t"
  shows "wf_tool t'"
  using assms(1)
proof (cases rule: sender_option_result)
  case payload
  then show ?thesis by (rule sender_read_file_wf) (use assms(2) in \<open>simp add: wf_tool_def\<close>)
next
  case mac
  then show ?thesis using assms(2) by (auto simp: sender_parse_mac_def cbind_eq_Inr wf_tool_def dest: mac_list.loop_shape)
next
  case ip
  then show ?thesis using assms(2) by (auto simp: sender_parse_ip_def cbind_eq_Inr wf_tool_def dest: ip_list.loop_shape)
next
  case udp
  then show ?thesis using assms(2) by (auto simp: sender_parse_udp_def cbind_eq_Inr wf_tool_def ports_loop_length)
qed (use assms(2) in \<open>simp_all add: wf_tool_def\<close>)

lemma parse_args_sender_wf:
  "parse_args_sender files t opts = Inr (Inr t') \<Longrightarrow> wf_tool t \<Longrightarrow> wf_tool t'"
proof (induction files t opts rule: parse_args_sender.induct)
  case (2 files t c a opts)
  then obtain t1 where "sender_option files c a t = Inr (Inr t1)" "parse_args_sender files t1 opts = Inr (Inr t')"
    by (auto simp: cbind_eq_Inr split: sum.splits) (metis sum.exhaust)
  with 2 show ?case using sender_option_wf by blast
qed simp

section \<open>The packet\<close>

definition tool_payload :: "tool \<Rightarrow> u8 list" where
  "tool_payload t = (if PACKET_MODE t = UDP_TEST then test_payload else take (PAYLOAD_LENGTH t) (PAYLOAD t))"

lemma do_stores_outside:
  "(p, bs) \<in> set sts \<Longrightarrow> length buf < p + length bs \<Longrightarrow> do_stores buf sts = Inl OutOfBounds"
proof (induction sts arbitrary: buf)
  case (Cons st sts)
  then show ?case
    by (auto simp: do_stores_def cblit_def split: prod.splits)
qed simp

lemma wf_toolE:
  assumes "wf_tool t"
  obtains sm dm si di sp dp where "MAC_ADDRS t = [sm, dm]" "IP_ADDRS t = [si, di]" "UDP_PORTS t = [sp, dp]"
    "wf_mac sm" "wf_mac dm" "wf_ip si" "wf_ip di"
proof -
  obtain sp dp where "UDP_PORTS t = [sp, dp]" using assms list_2 unfolding wf_tool_def by blast
  moreover obtain sm dm where "MAC_ADDRS t = [sm, dm]" "length (byte sm) = 6" "length (byte dm) = 6"
    using assms by (auto simp: wf_tool_def map_eq_Cons_conv)
  moreover obtain si di where "IP_ADDRS t = [si, di]" "length (num si) = 4" "length (num di) = 4"
    using assms by (auto simp: wf_tool_def map_eq_Cons_conv)
  ultimately show thesis using that by (simp add: wf_mac_def wf_ip_def)
qed

lemma length_tool_payload: "wf_tool t \<Longrightarrow> length (tool_payload t) = (if PACKET_MODE t = UDP_TEST then 7 else PAYLOAD_LENGTH t)"
  by (simp add: tool_payload_def test_payload_def cstr_def wf_tool_def)

text \<open>The packet of the client's \<open>form_packet\<close>, in \<open>PKTBUF\<close>.\<close>

lemma sender_form_packet_eq:
  assumes "wf_tool t" "MAC_ADDRS t = [sm, dm]" "IP_ADDRS t = [si, di]" "UDP_PORTS t = [sp, dp]"
  defines "n \<equiv> length (tool_payload t)"
  shows "sender_form_packet t = cbind (form_packet (PKTBUF t) sm dm si di sp dp (tool_payload t) n) (\<lambda>(buf, n).
    Inr (t\<lparr>PKTBUF := buf, PAYLOAD_LENGTH := n\<rparr>, sender_text sm dm si di sp dp))"
proof -
  have "(if PACKET_MODE t = UDP_TEST then 7 else PAYLOAD_LENGTH t) = n" using length_tool_payload [OF assms(1)] by (simp add: n_def)
  moreover have "take n (if PACKET_MODE t = UDP_TEST then test_payload else PAYLOAD t) = tool_payload t"
    "n \<le> length (if PACKET_MODE t = UDP_TEST then test_payload else PAYLOAD t)"
    using assms(1) by (auto simp: n_def tool_payload_def wf_tool_def min_def)
  ultimately show ?thesis
    using assms(2-4) by (simp add: sender_form_packet_def form_packet_def cread_def Let_def cbind_assoc n_def del: length_tool_payload)
qed

lemma sender_form_packet_ok:
  assumes "wf_tool t" "MAC_ADDRS t = [sm, dm]" "IP_ADDRS t = [si, di]" "UDP_PORTS t = [sp, dp]"
  defines "n \<equiv> length (tool_payload t)"
  assumes n: "42 + n \<le> BUFFER_SIZE"
  obtains c where "IPchecksum (header_words n [0, 0] (store16 (htons c)) si di) 10 = Inr 0"
    "sender_form_packet t = Inr (t\<lparr>PKTBUF := frame [0, 0] (store16 (htons c)) sm dm si di sp dp (tool_payload t) @
        replicate (BUFFER_SIZE - (42 + n)) 0, PAYLOAD_LENGTH := n\<rparr>, sender_text sm dm si di sp dp)"
proof -
  have wf: "wf_mac sm" "wf_mac dm" "wf_ip si" "wf_ip di" using assms(1-4) by (auto elim!: wf_toolE)
  have buf: "PKTBUF t = replicate BUFFER_SIZE 0" using assms(1) by (simp add: wf_tool_def)
  have z: "take 2 (drop k (PKTBUF t)) = [0, 0]" if "k < 30" for k
    using that by (simp add: buf BUFFER_SIZE_def numeral_2_eq_2)
  obtain c where c: "IPchecksum (header_words n [0, 0] [0, 0] si di) 10 = Inr c"
    "form_packet (PKTBUF t) sm dm si di sp dp (tool_payload t) n =
      Inr (frame [0, 0] (store16 (htons c)) sm dm si di sp dp (tool_payload t) @ replicate (BUFFER_SIZE - (42 + n)) 0, n)"
    using form_packet_frame [OF wf, of n "tool_payload t" "PKTBUF t" sp dp] n by (auto simp: z n_def) (auto simp: buf)
  show thesis
  proof
    show "IPchecksum (header_words n [0, 0] (store16 (htons c)) si di) 10 = Inr 0"
      by (rule header_checksum_verifies [OF wf(3,4) _ c(1)]) simp
    show "sender_form_packet t = Inr (t\<lparr>PKTBUF := frame [0, 0] (store16 (htons c)) sm dm si di sp dp (tool_payload t) @
        replicate (BUFFER_SIZE - (42 + n)) 0, PAYLOAD_LENGTH := n\<rparr>, sender_text sm dm si di sp dp)"
      using c(2) by (simp add: sender_form_packet_eq [OF assms(1-4)] n_def)
  qed
qed

text \<open>Forming faults exactly for payloads that do not fit behind the headers.\<close>

lemma sender_form_packet_overrun:
  assumes "wf_tool t" "BUFFER_SIZE < 42 + length (tool_payload t)"
  shows "sender_form_packet t = Inl OutOfBounds"
proof -
  obtain sm dm si di sp dp where t: "MAC_ADDRS t = [sm, dm]" "IP_ADDRS t = [si, di]" "UDP_PORTS t = [sp, dp]"
    using assms(1) by (rule wf_toolE)
  have "do_stores (PKTBUF t) (packet_stores sm dm si di sp dp (tool_payload t)) = Inl OutOfBounds"
    by (rule do_stores_outside [of 42 "tool_payload t"]) (use assms in \<open>auto simp: packet_stores_def Let_def wf_tool_def\<close>)
  then show ?thesis by (simp add: sender_form_packet_eq [OF assms(1) t] form_packet_def)
qed

section \<open>Sending\<close>

text \<open>The calls of \<open>sendto\<close> up to and including the first that fails.\<close>

definition until_failure :: "nat option list \<Rightarrow> nat option list" where
  "until_failure es = takeWhile (\<lambda>e. e = None) es @ take 1 (dropWhile (\<lambda>e. e = None) es)"

lemma daemon_sends:
  assumes "42 + PAYLOAD_LENGTH t \<le> length (PKTBUF t)"
  shows "\<exists>out. daemon_loop strerror t es =
    Inr (map (\<lambda>_. take (42 + PAYLOAD_LENGTH t) (PKTBUF t)) (until_failure es), out, list_all (\<lambda>e. e = None) es)"
proof (induction es)
  case (Cons e es)
  then obtain out where "daemon_loop strerror t es =
      Inr (map (\<lambda>_. take (42 + PAYLOAD_LENGTH t) (PKTBUF t)) (until_failure es), out, list_all (\<lambda>e. e = None) es)" ..
  with assms show ?case
    by (cases e) (auto simp: sender_trigger_send_def Let_def until_failure_def add.commute add.left_commute)
qed (simp add: until_failure_def)

lemma once_sends:
  assumes "42 + PAYLOAD_LENGTH t \<le> length (PKTBUF t)"
  shows "\<exists>out. sender_once strerror t es = Inr (map (\<lambda>_. take (42 + PAYLOAD_LENGTH t) (PKTBUF t)) (take 1 es), out, es = [])"
  using assms by (cases es) (auto simp: sender_trigger_send_def Let_def add.commute add.left_commute)

section \<open>The options of a run\<close>

definition address_opts :: "mac_addr_t list \<Rightarrow> ip_addr_t list \<Rightarrow> udp_port_t list \<Rightarrow> (char \<times> string) list" where
  "address_opts ms as ps = [(CHR ''m'', macs_text ms), (CHR ''i'', ips_text as), (CHR ''u'', ports_text ps)]"

definition payload_opts :: "string option \<Rightarrow> (char \<times> string) list" where
  "payload_opts name = (case name of None \<Rightarrow> [] | Some nm \<Rightarrow> [(CHR ''r'', cstr nm)])"

lemma address_opts_parsed:
  assumes "wf_tool t" "wf_mac sm" "wf_mac dm" "wf_ip si" "wf_ip di"
  shows "parse_args_sender files t (address_opts [sm, dm] [si, di] [sp, dp] @ opts) =
    parse_args_sender files (t\<lparr>MAC_ADDRS := [sm, dm], IP_ADDRS := [si, di], UDP_PORTS := [sp, dp]\<rparr>) opts"
proof -
  let ?t1 = "t\<lparr>MAC_ADDRS := [sm, dm]\<rparr>" and ?t2 = "t\<lparr>MAC_ADDRS := [sm, dm], IP_ADDRS := [si, di]\<rparr>"
  obtain a b c d e f where t: "MAC_ADDRS t = [a, b]" "IP_ADDRS t = [c, d]" "UDP_PORTS t = [e, f]" "wf_mac a" "wf_mac b" "wf_ip c" "wf_ip d"
    using assms(1) by (rule wf_toolE)
  have "sender_parse_mac (macs_text [sm, dm]) t = Inr ?t1"
    using macs_parsed [of "[sm, dm]" t] t assms by auto
  moreover have "sender_parse_ip (ips_text [si, di]) ?t1 = Inr ?t2"
    using ips_parsed [of "[si, di]" ?t1] t assms by auto
  moreover have "sender_parse_udp (ports_text [sp, dp]) ?t2 = Inr (?t2\<lparr>UDP_PORTS := [sp, dp]\<rparr>)"
    using ports_parsed [of "[sp, dp]" ?t2] t by auto
  ultimately show ?thesis by (simp add: address_opts_def sender_option_def Let_def)
qed

definition load_payload :: "(string \<Rightarrow> u8 list option) \<Rightarrow> string option \<Rightarrow> tool \<Rightarrow> tool" where
  "load_payload files name t =
     (case Option.bind name files of
        None \<Rightarrow> t
      | Some bs \<Rightarrow>
          let bs = take BUFFER_SIZE bs
          in t\<lparr>PACKET_MODE := FILE_TEST, PAYLOAD_LENGTH := length bs, PAYLOAD := bs @ drop (length bs) (PAYLOAD t)\<rparr>)"

lemma payload_opts_parsed:
  assumes "wf_tool t" "\<And>nm. name = Some nm \<Longrightarrow> NUL \<notin> set nm \<and> files nm \<noteq> None"
  shows "parse_args_sender files t (payload_opts name @ opts) = parse_args_sender files (load_payload files name t) opts"
proof (cases name)
  case (Some nm)
  then obtain bs where bs: "NUL \<notin> set nm" "files nm = Some bs" using assms(2) by auto
  have "length (take BUFFER_SIZE bs) \<le> length (PAYLOAD t)" using assms(1) by (simp add: wf_tool_def)
  moreover have "take (if length bs > BUFFER_SIZE then BUFFER_SIZE else length bs) bs = take BUFFER_SIZE bs"
    "(if length bs > BUFFER_SIZE then BUFFER_SIZE else length bs) = length (take BUFFER_SIZE bs)" by auto
  moreover have "percent_s (cstr nm) = Inr nm" using bs(1) by (simp add: percent_s_ok cstr_of_cstr)
  ultimately show ?thesis
    by (simp add: payload_opts_def load_payload_def Some bs(2) sender_option_def sender_read_file_def Let_def cblit_def)
qed (simp add: payload_opts_def load_payload_def)

lemma load_payload_ok:
  assumes "wf_tool t" "PACKET_MODE t = UDP_TEST"
    and "case name of None \<Rightarrow> payload = test_payload
         | Some nm \<Rightarrow> NUL \<notin> set nm \<and> files nm = Some payload \<and> length payload \<le> 65494"
  shows "wf_tool (load_payload files name t)" "tool_payload (load_payload files name t) = payload"
    "INTF_NAME (load_payload files name t) = INTF_NAME t"
  using assms
  by (auto simp: load_payload_def tool_payload_def wf_tool_def Let_def BUFFER_SIZE_def split: option.splits)

lemma mode_parsed:
  assumes "mode = ''daemon'' \<or> mode = ''once''"
  shows "parse_args_sender files t [(CHR ''s'', cstr mode)] = Inr (Inr (t\<lparr>SEND_MODE := (if mode = ''daemon'' then DAEMON else ONCE)\<rparr>))"
  using assms by (auto simp: sender_option_def cstr_def Let_def eval_nat_numeral)

lemma sender_setup_ok:
  assumes "INTF_NAME t = INTF_NAME tool_init"
  obtains out where "sender_setup e t = Inr (INTF_NAME tool_init, INTF_NAME tool_init, out)"
  using assms by (auto simp: sender_setup_def tool_init_def INTF_LENGTH_def strncpy_def cblit_def eval_nat_numeral)

text \<open>A run that has parsed its arguments, formed its packet and is not in mode \<open>CHANGING\<close>.\<close>

lemma sender_main_sends:
  assumes "parse_args_sender files tool_init opts = Inr (Inr t)" "INTF_NAME t = INTF_NAME tool_init"
    and "sender_form_packet t = Inr (u, out2)" "SEND_MODE u = SEND_MODE t"
    and "42 + PAYLOAD_LENGTH u \<le> length (PKTBUF u)" "SEND_MODE t = (if daemon then DAEMON else ONCE)"
  shows "\<exists>out. sender_main files e strerror opts results =
    Inr (map (\<lambda>_. take (42 + PAYLOAD_LENGTH u) (PKTBUF u)) (if daemon then until_failure results else take 1 results), out,
      if daemon then list_all (\<lambda>e. e = None) results else results = [])"
proof -
  obtain out1 where "sender_setup e t = Inr (INTF_NAME tool_init, INTF_NAME tool_init, out1)"
    using assms(2) by (rule sender_setup_ok)
  then show ?thesis
    using assms(1,3,4,6) daemon_sends [OF assms(5), of strerror results] once_sends [OF assms(5), of strerror results]
    by (cases daemon) (auto simp: sender_main_def)
qed

text \<open>Texts that do not fit.\<close>

lemma interface_overrun:
  assumes "NUL \<notin> set nm" "INTF_LENGTH \<le> length nm" "wf_tool t"
  shows "parse_args_sender files t ((CHR ''f'', cstr nm) # opts) = Inl OutOfBounds"
proof -
  have "strnlen (cstr nm) INTF_LENGTH = Inr INTF_LENGTH" using assms by (simp add: strnlen_ok cstr_of_cstr)
  moreover have "strncpy (INTF_NAME t) (cstr nm) (INTF_LENGTH + 1) = Inl OutOfBounds"
    using assms by (simp add: strncpy_def strncpy_chars_ok cstr_of_cstr cblit_def wf_tool_def)
  ultimately show ?thesis by (simp add: sender_option_def Let_def)
qed

end
