(* ===== verification/Pkt_Receiver.thy ===== *)
theory Pkt_Receiver
  imports Pkt_Sender
begin

text \<open>
  The stand-alone packet monitor, \<^verbatim>\<open>sw/fpga-prober/pkt-receiver.cc\<close>, with its argument parser in
  \<^verbatim>\<open>sw/fpga-prober/parser.hh\<close>: it binds a raw socket to an interface and prints the source address
  and the size of every packet. The results of the system calls are parameters.
\<close>

section \<open>Arguments\<close>

fun parse_args_receiver :: "string \<Rightarrow> (char \<times> string) list \<Rightarrow> (console list + string) cres" where
  "parse_args_receiver intf [] = Inr (Inr intf)"
| "parse_args_receiver intf ((c, optarg) # opts) =
     (if c = CHR ''f'' then
        cbind (strnlen optarg INTF_LENGTH) (\<lambda>n.
        cbind (strncpy intf optarg n) (\<lambda>intf. parse_args_receiver intf opts))
      else Inr (Inl [Stdout (''Unrecognised argument'' @ [NL]), Stdout (''Usage:'' @ NL # ''./pkt-receiver -f en0'' @ [NL])]))"

section \<open>The program\<close>

record recv_env =
  mon_socket :: "string option"
  mon_index_ok :: bool
  mon_bind :: "string option"

text \<open>The name asked for, or the reports before \<open>exit(-1)\<close>; an error is given by its text.\<close>

definition bind_raw_sock_to_intf :: "recv_env \<Rightarrow> string \<Rightarrow> (console list + string) cres" where
  "bind_raw_sock_to_intf e device =
     cbind (strncpy (replicate 16 NUL) device INTF_LENGTH) (\<lambda>name.
     Inr (if \<not> mon_index_ok e then Inl [Stdout (''Error getting Interface index !'' @ [NL])]
          else case mon_bind e of
                 Some err \<Rightarrow> Inl [Stderr (''Error binding raw socket to interface'' @ NL # '': '' @ err @ [NL])]
               | None \<Rightarrow> Inr name))"

definition packet_line :: "u8 list \<Rightarrow> int \<Rightarrow> console" where
  "packet_line buffer n =
     Stdout (join CHR ''.'' (map hex2 (take 6 (drop 6 buffer))) @ '', size = '' @
       (if n < 0 then CHR ''-'' # dec (nat (- n)) else dec (nat n)) @ [NL])"

text \<open>The loop, over the results of \<open>recvfrom\<close>: a packet, or an error, which leaves the buffer.\<close>

fun monitor_loop :: "u8 list \<Rightarrow> u8 list option list \<Rightarrow> console list" where
  "monitor_loop buffer [] = []"
| "monitor_loop buffer (None # rs) = packet_line buffer (- 1) # monitor_loop buffer rs"
| "monitor_loop buffer (Some pkt # rs) =
     (let got = take BUFFER_SIZE pkt; buffer = got @ drop (length got) buffer
      in packet_line buffer (int (length got)) # monitor_loop buffer rs)"

definition monitor_main ::
  "recv_env \<Rightarrow> u8 list \<Rightarrow> (char \<times> string) list \<Rightarrow> u8 list option list \<Rightarrow> (string option \<times> console list) cres" where
  "monitor_main e buffer opts rs =
     cbind (parse_args_receiver (INTF_NAME tool_init) opts) (\<lambda>r.
     case r of
       Inl out \<Rightarrow> Inr (None, out)
     | Inr intf \<Rightarrow>
         (case mon_socket e of
            Some err \<Rightarrow> Inr (None, [Stdout (''Error in opening raw socket'' @ [NL]), Stderr (''Socket:: '' @ err @ [NL])])
          | None \<Rightarrow>
              cbind (bind_raw_sock_to_intf e intf) (\<lambda>b.
              case b of
                Inl out \<Rightarrow> Inr (None, out)
              | Inr name \<Rightarrow> Inr (Some name, monitor_loop buffer rs))))"

section \<open>What is bound and printed\<close>

text \<open>The name copied over the default one, without a terminator.\<close>

definition bound_name :: "string \<Rightarrow> string" where
  "bound_name nm = take INTF_LENGTH nm @ drop (length nm) (INTF_NAME tool_init)"

lemma strncpy_over:
  assumes "NUL \<notin> set nm" "length d = INTF_LENGTH"
  shows "cbind (strnlen (cstr nm) INTF_LENGTH) (\<lambda>n. strncpy d (cstr nm) n) = Inr (take INTF_LENGTH nm @ drop (length nm) d)"
  using assms by (auto simp: strnlen_ok cstr_of_cstr strncpy_def strncpy_chars_ok cblit_def min_def)

lemma strncpy_chars_full: "strncpy_chars s (length s) = Inr (cstr_of s @ replicate (length s - length (cstr_of s)) NUL)"
  by (induction s) (auto simp: cstr_of_def)

lemma length_bound_name: "length (bound_name nm) = 16"
  by (simp add: bound_name_def tool_init_def INTF_LENGTH_def)

lemma cstr_of_pad: "NUL \<notin> set s \<Longrightarrow> cstr_of (s @ replicate n NUL) = s"
  by (induction s) (auto simp: cstr_of_def)

lemma cstr_of_bound_name:
  assumes "NUL \<notin> set nm" "length nm \<le> 16"
  shows "cstr_of (bound_name nm) = nm @ drop (length nm) ''ens37''"
proof -
  define d where "d = ''ens37''"
  have "NUL \<notin> set (nm @ drop (length nm) d)"
    using assms(1) set_drop_subset [of "length nm" d] by (auto simp: d_def)
  from cstr_of_pad [OF this] have "cstr_of (nm @ drop (length nm) (d @ replicate 11 NUL)) = nm @ drop (length nm) d"
    by (simp del: set_append)
  moreover have "bound_name nm = nm @ drop (length nm) (d @ replicate 11 NUL)"
    using assms(2) unfolding bound_name_def tool_init_def INTF_LENGTH_def d_def by simp
  ultimately show ?thesis by (simp only: d_def)
qed

lemma monitor_binds:
  assumes "NUL \<notin> set nm" "mon_socket e = None" "mon_index_ok e" "mon_bind e = None"
  obtains name where "monitor_main e buffer [(CHR ''f'', cstr nm)] rs = Inr (Some name, monitor_loop buffer rs)"
    "cstr_of name = cstr_of (bound_name nm)"
proof -
  let ?nm = "cstr_of (bound_name nm) @ replicate (16 - length (cstr_of (bound_name nm))) NUL"
  have "length (INTF_NAME tool_init) = INTF_LENGTH" by (simp add: tool_init_def INTF_LENGTH_def)
  then have "parse_args_receiver (INTF_NAME tool_init) [(CHR ''f'', cstr nm)] = Inr (Inr (bound_name nm))"
    using strncpy_over [OF assms(1)] by (auto simp: bound_name_def cbind_eq_Inr)
  moreover have "strncpy (replicate 16 NUL) (bound_name nm) INTF_LENGTH = Inr ?nm"
    using strncpy_chars_full [of "bound_name nm"] length_bound_name [of nm] length_takeWhile_le [of _ "bound_name nm"]
    by (simp add: strncpy_def INTF_LENGTH_def cblit_def cstr_of_def)
  ultimately have "monitor_main e buffer [(CHR ''f'', cstr nm)] rs = Inr (Some ?nm, monitor_loop buffer rs)"
    using assms by (simp add: monitor_main_def bind_raw_sock_to_intf_def)
  moreover have "cstr_of ?nm = cstr_of (bound_name nm)"
    by (simp add: cstr_of_def takeWhile_append)
  ultimately show thesis by (rule that)
qed

lemma monitor_lines:
  assumes "\<And>r. r \<in> set rs \<Longrightarrow> \<exists>pkt. r = Some pkt \<and> 12 \<le> length pkt \<and> length pkt \<le> BUFFER_SIZE"
  shows "monitor_loop buffer rs = map (\<lambda>r. packet_line (the r) (int (length (the r)))) rs"
  using assms
proof (induction rs arbitrary: buffer)
  case (Cons r rs)
  then obtain pkt where "r = Some pkt" "12 \<le> length pkt" "length pkt \<le> BUFFER_SIZE" by auto
  with Cons show ?case by (simp add: packet_line_def Let_def)
qed simp

end
