(* ===== verification/Spartan_Tools.thy ===== *)
theory Spartan_Tools
  imports Pkt_Receiver
begin

text \<open>
  The tools for the earlier board, \<^verbatim>\<open>sw/DEPRECATED-spartan3e\<close>: two senders of counter packets
  (\<^verbatim>\<open>raw_sender.cc\<close>, \<^verbatim>\<open>raw_bdcast.cc\<close>), two senders of UDP packets (\<^verbatim>\<open>udp_sender.cc\<close>,
  \<^verbatim>\<open>rawsockinit/sender.cc\<close>) and two monitors. A send buffer is fresh memory whose contents are a
  parameter, as are the results of the system calls; the address structure of \<open>sendto\<close> selects the interface and
  leaves no trace in the packet of a raw socket. The senders store to \<open>h_dest[6]\<close>, one
  past the destination address; the header is packed, and the store is to the byte there, the first
  of the source address.
\<close>

unbundle bit_operations_syntax

section \<open>The senders\<close>

text \<open>The results of the calls before the first packet; a failed \<open>ioctl\<close> leaves the zeros of \<open>memset\<close>.\<close>

record spartan_env =
  sp_socket_ok :: bool
  sp_ifindex :: "u32 option"
  sp_hwaddr :: "u8 list option"
  sp_ifaddr :: "u8 list option"

definition sp_errors :: "spartan_env \<Rightarrow> console list" where
  "sp_errors e =
     (if sp_socket_ok e then [] else [Stdout (''ERROR in socket'' @ [NL])]) @
     (if sp_ifindex e \<noteq> None then [] else [Stdout ''ERROR in index ioctl reading'']) @
     (if sp_hwaddr e \<noteq> None then [] else [Stdout (''ERROR in SIOCGIFHWADDR ioctl reading'' @ [NL])])"

definition sp_source :: "spartan_env \<Rightarrow> u8 list" where
  "sp_source e = (case sp_hwaddr e of None \<Rightarrow> replicate 6 0 | Some hw \<Rightarrow> hw)"

definition dotted_hex :: "u8 list \<Rightarrow> string" where
  "dotted_hex bs = join CHR ''.'' (map hex2 bs)"

text \<open>The Ethernet header: \<open>h_source\<close>, \<open>h_dest[0] .. h_dest[4]\<close>, \<open>h_dest[6]\<close>, \<open>h_proto\<close>.\<close>

definition sp_eth_stores :: "u8 list \<Rightarrow> u8 list \<Rightarrow> u8 \<Rightarrow> u16 \<Rightarrow> (nat \<times> u8 list) list" where
  "sp_eth_stores hw dest5 dest_6 proto = [(6, hw), (0, dest5), (6, [dest_6]), (12, store16 proto)]"

text \<open>A failed send: the reports before \<open>return -1\<close>.\<close>

definition sp_send_error :: "(nat \<Rightarrow> string) \<Rightarrow> nat \<Rightarrow> console list" where
  "sp_send_error strerror n =
     [Stdout (''ERROR in sending, sendlen=-1, errno='' @ dec n @ [NL]), Stderr (''Socket:: '' @ strerror n @ [NL])]"

text \<open>
  The loop of \<open>raw_sender\<close>, over the results of \<open>sendto\<close>: version, channels and the counter \<open>data[7]\<close>
  are stored behind the Ethernet header and 32 bytes are sent.
\<close>

fun counter_loop ::
  "(nat \<Rightarrow> string) \<Rightarrow> u8 list \<Rightarrow> u16 \<Rightarrow> nat option list \<Rightarrow> (u8 list list \<times> console list \<times> bool) cres" where
  "counter_loop strerror buf c [] = Inr ([], [], True)"
| "counter_loop strerror buf c (r # rs) =
     (let c = (if c = 255 then 0 else c + 1) in
      cbind (do_stores buf [(14, [0x10]), (15, [0xFF]), (30, store16 (htons c))]) (\<lambda>buf.
      case r of
        Some n \<Rightarrow> Inr ([take (18 + 14) buf], sp_send_error strerror n, False)
      | None \<Rightarrow> cbind (counter_loop strerror buf c rs) (\<lambda>(ps, out, b). Inr (take (18 + 14) buf # ps, out, b))))"

definition counter_main ::
  "u8 list \<Rightarrow> u8 \<Rightarrow> spartan_env \<Rightarrow> (nat \<Rightarrow> string) \<Rightarrow> u8 list \<Rightarrow> nat option list \<Rightarrow>
   (u8 list list \<times> console list \<times> bool) cres" where
  "counter_main dest5 dest_6 e strerror sendbuf rs =
     cbind (do_stores sendbuf (sp_eth_stores (sp_source e) dest5 dest_6 0)) (\<lambda>buf.
     cbind (counter_loop strerror buf 0 rs) (\<lambda>(ps, out, b).
     Inr (ps, sp_errors e @ [Stdout (dotted_hex (sp_source e) @ [NL])] @ out, b)))"

definition raw_sender_main ::
  "spartan_env \<Rightarrow> (nat \<Rightarrow> string) \<Rightarrow> u8 list \<Rightarrow> nat option list \<Rightarrow> (u8 list list \<times> console list \<times> bool) cres" where
  "raw_sender_main = counter_main [0x00, 0x0A, 0x35, 0x00, 0x00] 0x00"

definition raw_bdcast_main ::
  "spartan_env \<Rightarrow> (nat \<Rightarrow> string) \<Rightarrow> u8 list \<Rightarrow> nat option list \<Rightarrow> (u8 list list \<times> console list \<times> bool) cres" where
  "raw_bdcast_main = counter_main [0xFF, 0xFF, 0xFF, 0xFF, 0xFF] 0xFF"

text \<open>The UDP packet of the two UDP senders, in the order of its stores.\<close>

definition sp_udp_stores ::
  "u8 list \<Rightarrow> u8 list \<Rightarrow> u8 \<Rightarrow> u8 list \<Rightarrow> u8 list \<Rightarrow> u8 list \<Rightarrow> (nat \<times> u8 list) list" where
  "sp_udp_stores hw dest5 dest_6 saddr daddr payload =
     (let n = length payload in
      sp_eth_stores hw dest5 dest_6 (htons (ethertype_code IPv4)) @
      [(14, [0x45]), (15, [16]), (18, store16 (htons 10201)), (22, [64]), (23, [17]), (26, saddr), (30, daddr),
       (34, store16 (htons 12345)), (36, store16 (htons 23456)), (40, store16 0), (42, payload),
       (38, store16 (htons (word_of_nat (n + 8)))), (16, store16 (htons (word_of_nat (n + 8 + 20))))])"

definition sp_udp_packet ::
  "u8 list \<Rightarrow> u8 list \<Rightarrow> u8 \<Rightarrow> u8 list \<Rightarrow> u8 list \<Rightarrow> u8 list \<Rightarrow> u8 list \<Rightarrow> u8 list cres" where
  "sp_udp_packet hw dest5 dest_6 saddr daddr payload buf =
     cbind (do_stores buf (sp_udp_stores hw dest5 dest_6 saddr daddr payload)) (\<lambda>buf.
     cbind (IPchecksum (ip_words buf) 10) (\<lambda>c. cblit buf 24 (store16 (htons c))))"

text \<open>
  \<open>udp_sender\<close> takes its source address from the request that was answered with the interface
  index. The two share their storage: the index is its first four bytes, \<open>sin_addr\<close> the next four.
\<close>

definition index_request_addr :: "spartan_env \<Rightarrow> u8 list" where
  "index_request_addr e =
     take 4 (drop 4 (le_bytes 4 (case sp_ifindex e of None \<Rightarrow> 0 | Some i \<Rightarrow> i) @ replicate 12 0))"

definition ip_text :: "u8 list \<Rightarrow> string" where "ip_text bs = join CHR ''.'' (map (\<lambda>b. dec (unat b)) bs)"

fun same_packet_loop :: "(nat \<Rightarrow> string) \<Rightarrow> u8 list \<Rightarrow> nat option list \<Rightarrow> u8 list list \<times> console list \<times> bool" where
  "same_packet_loop strerror pkt [] = ([], [], True)"
| "same_packet_loop strerror pkt (Some n # rs) = ([pkt], sp_send_error strerror n, False)"
| "same_packet_loop strerror pkt (None # rs) =
     (case same_packet_loop strerror pkt rs of (ps, out, b) \<Rightarrow> (pkt # ps, out, b))"

definition udp_sender_main ::
  "spartan_env \<Rightarrow> (nat \<Rightarrow> string) \<Rightarrow> u8 list \<Rightarrow> nat option list \<Rightarrow> (u8 list list \<times> console list \<times> bool) cres" where
  "udp_sender_main e strerror sendbuf rs =
     cbind (sp_udp_packet (sp_source e) [0x00, 0x0A, 0x35, 0x00, 0x00] 0x00 (index_request_addr e) [192, 168, 5, 1]
              (map of_char (cstr ''test12'')) sendbuf) (\<lambda>buf.
     case same_packet_loop strerror (take (7 + 8 + 20 + 14) buf) rs of (ps, out, b) \<Rightarrow>
     Inr (ps, sp_errors e @ [Stdout (dotted_hex (sp_source e) @ [NL]), Stdout (ip_text (index_request_addr e) @ [NL])] @ out, b))"

text \<open>\<open>rawsockinit/sender\<close> sends once, with the address of the interface.\<close>

definition sockinit_sender_main ::
  "spartan_env \<Rightarrow> (nat \<Rightarrow> string) \<Rightarrow> u8 list \<Rightarrow> nat option \<Rightarrow> (u8 list \<times> console list) cres" where
  "sockinit_sender_main e strerror sendbuf r =
     (let saddr = (case sp_ifaddr e of None \<Rightarrow> replicate 4 0 | Some a \<Rightarrow> a) in
      cbind (sp_udp_packet (sp_source e) [0x00, 0x50, 0x56, 0xC0, 0x00] 0x08 saddr [192, 168, 249, 1]
               (map of_char (cstr ''test'')) sendbuf) (\<lambda>buf.
      Inr (take (5 + 8 + 20 + 14) buf,
        (if sp_socket_ok e then [] else [Stdout (''ERROR in socket'' @ [NL])]) @
        (if sp_ifindex e \<noteq> None then [] else [Stdout ''ERROR in index ioctl reading'']) @
        [Stdout (''index='' @ (let i = sint (case sp_ifindex e of None \<Rightarrow> 0 | Some i \<Rightarrow> i)
                                in if i < 0 then CHR ''-'' # dec (nat (- i)) else dec (nat i)) @ [NL])] @
        (if sp_hwaddr e \<noteq> None then [] else [Stdout (''ERROR in SIOCGIFHWADDR ioctl reading'' @ [NL])]) @
        (if sp_ifaddr e \<noteq> None then [] else [Stdout (''ERROR in SIOCGIFADDR'' @ [NL])]) @
        [Stdout (dotted_hex (sp_source e) @ [NL]), Stdout (ip_text saddr @ [NL])] @
        (case r of None \<Rightarrow> [] | Some n \<Rightarrow> sp_send_error strerror n))))"

section \<open>The monitors\<close>

text \<open>\<open>raw_receiver\<close> prints the source address of every packet, over the results of \<open>recvfrom\<close>.\<close>

fun raw_receiver_loop :: "u8 list \<Rightarrow> u8 list option list \<Rightarrow> console list" where
  "raw_receiver_loop buffer [] = []"
| "raw_receiver_loop buffer (r # rs) =
     (let buffer = (case r of None \<Rightarrow> buffer | Some pkt \<Rightarrow> take BUFFER_SIZE pkt @ drop (length (take BUFFER_SIZE pkt)) buffer)
      in Stdout (dotted_hex (take 6 (drop 6 buffer)) @ [NL]) # raw_receiver_loop buffer rs)"

definition raw_receiver_main :: "bool \<Rightarrow> u8 list \<Rightarrow> u8 list option list \<Rightarrow> console list" where
  "raw_receiver_main socket_ok buffer rs =
     (if \<not> socket_ok then [Stdout (''Error in opening raw socket'' @ [NL])] else raw_receiver_loop buffer rs)"

text \<open>The fields that \<open>rawsockinit/receiver\<close> reads: 16-bit fields as the machine loads them.\<close>

definition load16 :: "u8 list \<Rightarrow> nat \<Rightarrow> u16" where "load16 buf p = le_word (take 2 (drop p buf))"
definition load8 :: "u8 list \<Rightarrow> nat \<Rightarrow> u8" where "load8 buf p = le_word (take 1 (drop p buf))"

definition hex4 :: "u16 \<Rightarrow> string" where "hex4 w = hex2 (ucast (drop_bit 8 w)) @ hex2 (ucast w)"

definition dashed_hex :: "u8 list \<Rightarrow> string" where "dashed_hex bs = join CHR ''-'' (map hex2 bs)"

definition report_line :: "string \<Rightarrow> string \<Rightarrow> console" where
  "report_line label v = Stdout (TAB # ''|-'' @ label @ '' : '' @ v @ [NL])"

definition udp_report :: "u8 list \<Rightarrow> console list" where
  "udp_report buf =
     (let num8 = \<lambda>b. dec (unat (b :: u8)); num16 = \<lambda>w. dec (unat (w :: u16)); ihl = load8 buf 14 AND 0x0f
      in [Stdout (NL # ''Ethernet Header'' @ [NL]),
          report_line ''Source Address'' (dashed_hex (take 6 (drop 6 buf))),
          report_line ''Destination Address'' (dashed_hex (take 6 buf)),
          report_line ''Protocol'' (''0x'' @ hex4 (ntohs (load16 buf 12))),
          Stdout (''IP Header'' @ [NL]),
          report_line ''Version'' (num8 (drop_bit 4 (load8 buf 14))),
          report_line ''Internet Header Length'' (num8 ihl @ '' DWORDS or '' @ dec (unat ihl * 4) @ '' Bytes''),
          report_line ''Type Of Service'' (num8 (load8 buf 15)),
          report_line ''Total Length'' (num16 (ntohs (load16 buf 16)) @ '' Bytes''),
          report_line ''Identification'' (num16 (ntohs (load16 buf 18))),
          report_line ''Time To Live'' (num8 (load8 buf 22)),
          report_line ''Protocol'' (num8 (load8 buf 23)),
          report_line ''Header Checksum'' (num16 (ntohs (load16 buf 24))),
          report_line ''Source IP'' (ip_text (take 4 (drop 26 buf))),
          report_line ''Destination IP'' (ip_text (take 4 (drop 30 buf))),
          Stdout (''UDP Header'' @ [NL]),
          report_line ''Source Port'' (num16 (load16 buf 34)),
          report_line ''Dst Port'' (num16 (load16 buf 36)),
          report_line ''Length'' (num16 (load16 buf 38)),
          report_line ''Checksum'' (num16 (load16 buf 40))])"

definition header_report :: "u8 list \<Rightarrow> console list" where
  "header_report buf =
     (if ntohs (load16 buf 12) = ethertype_code IPv4 then
        if load8 buf 23 = ip_proto_code TCP then []
        else if load8 buf 23 = ip_proto_code UDP then udp_report buf else []
      else [])"

fun sockinit_receiver_loop :: "u8 list \<Rightarrow> u8 list option list \<Rightarrow> console list" where
  "sockinit_receiver_loop buffer [] = []"
| "sockinit_receiver_loop buffer (r # rs) =
     (let buffer = (case r of None \<Rightarrow> buffer | Some pkt \<Rightarrow> take BUFFER_SIZE pkt @ drop (length (take BUFFER_SIZE pkt)) buffer)
      in header_report buffer @ sockinit_receiver_loop buffer rs)"

definition sockinit_receiver_main :: "bool \<Rightarrow> u8 list \<Rightarrow> u8 list option list \<Rightarrow> console list" where
  "sockinit_receiver_main socket_ok buffer rs =
     (if \<not> socket_ok then [Stdout (''Error in opening raw socket'' @ [NL])] else sockinit_receiver_loop buffer rs)"

section \<open>The counter packets\<close>

text \<open>The packet with counter \<open>c\<close>, given the first 14 bytes and the stale bytes between.\<close>

definition counter_packet :: "u8 list \<Rightarrow> u8 list \<Rightarrow> nat \<Rightarrow> u8 list" where
  "counter_packet header stale c = header @ [0x10, 0xFF] @ stale @ store16 (htons (word_of_nat c))"

lemma counter_stores:
  assumes "32 \<le> length buf"
  shows "do_stores buf [(14, [0x10]), (15, [0xFF]), (30, store16 (htons (word_of_nat c)))] =
    Inr (counter_packet (take 14 buf) (take 14 (drop 16 buf)) c @ drop 32 buf)"
  using assms by (auto simp: do_stores_def cblit_def counter_packet_def store16_def add.commute take_drop)

lemma length_counter_packet: "length h = 14 \<Longrightarrow> length st = 14 \<Longrightarrow> length (counter_packet h st c) = 32"
  by (simp add: counter_packet_def store16_def)

lemma counter_loop_sends:
  assumes "32 \<le> length buf" "c < 256"
  shows "\<exists>out. counter_loop strerror buf (word_of_nat c) rs =
    Inr (map (\<lambda>k. counter_packet (take 14 buf) (take 14 (drop 16 buf)) ((c + k) mod 256)) [1..<Suc (length (until_failure rs))], out,
      list_all (\<lambda>e. e = None) rs)"
  using assms
proof (induction rs arbitrary: buf c)
  case (Cons r rs)
  let ?h = "take 14 buf" and ?s = "take 14 (drop 16 buf)" and ?c = "(c + 1) mod 256"
  let ?b = "counter_packet ?h ?s ?c @ drop 32 buf"
  have c: "(if word_of_nat c = (255 :: u16) then 0 else word_of_nat c + 1) = (word_of_nat ?c :: u16)"
  proof (cases "c = 255")
    case False
    have "unat (word_of_nat c :: u16) = c"
      using Cons.prems(2) by (simp add: unsigned_of_nat take_bit_nat_eq_self)
    then have "(word_of_nat c = (255 :: u16)) \<longleftrightarrow> c = 255" by auto
    with False Cons.prems(2) show ?thesis by simp
  qed simp
  have l: "length (counter_packet ?h ?s ?c) = 32" using Cons.prems by (intro length_counter_packet) simp_all
  have b: "take 14 ?b = ?h" "take 14 (drop 16 ?b) = ?s" "32 \<le> length ?b" "take 32 ?b = counter_packet ?h ?s ?c"
    using Cons.prems l by (simp_all add: counter_packet_def store16_def)
  obtain out where IH: "counter_loop strerror ?b (word_of_nat ?c) rs =
      Inr (map (\<lambda>k. counter_packet ?h ?s ((?c + k) mod 256)) [1..<Suc (length (until_failure rs))], out, list_all (\<lambda>e. e = None) rs)"
    using Cons.IH [OF b(3), of ?c] unfolding b by auto
  show ?case
  proof (cases r)
    case None
    have "map (\<lambda>k. counter_packet ?h ?s ((c + k) mod 256)) [1..<Suc (Suc (length (until_failure rs)))] =
        counter_packet ?h ?s ?c # map (\<lambda>k. counter_packet ?h ?s ((?c + k) mod 256)) [1..<Suc (length (until_failure rs))]"
    proof -
      have "[1..<Suc (Suc n)] = 1 # map Suc [1..<Suc n]" for n by (simp only: map_Suc_upt) (simp add: upt_conv_Cons del: upt_Suc)
      then show ?thesis by (simp only: list.map map_map comp_def) (simp add: mod_simps del: upt_Suc)
    qed
    moreover have "until_failure (r # rs) = r # until_failure rs" using None by (simp add: until_failure_def)
    ultimately show ?thesis
      using None IH b(4) counter_stores [OF Cons.prems(1), of ?c] by (simp add: c del: upt_Suc)
  next
    case (Some n)
    then show ?thesis
      using b(4) counter_stores [OF Cons.prems(1), of ?c] by (simp add: c until_failure_def)
  qed
qed (simp add: until_failure_def)

section \<open>The UDP packets\<close>

text \<open>The addresses in the packet: the last byte of the destination is stale, the first of the source overwritten.\<close>

definition sent_source :: "u8 list \<Rightarrow> u8 \<Rightarrow> mac_addr_t" where "sent_source hw dest_6 = \<lparr>byte = dest_6 # tl hw\<rparr>"
definition sent_dest :: "u8 list \<Rightarrow> u8 list \<Rightarrow> mac_addr_t" where "sent_dest dest5 buf = \<lparr>byte = dest5 @ [buf ! 5]\<rparr>"

lemma eth_stores:
  assumes "length hw = 6" "length dest5 = 5" "14 \<le> length buf"
  shows "do_stores buf (sp_eth_stores hw dest5 dest_6 p) =
    Inr (byte (sent_dest dest5 buf) @ byte (sent_source hw dest_6) @ store16 p @ drop 14 buf)"
proof -
  obtain h hs where hw: "hw = h # hs" "length hs = 5" using assms(1) by (cases hw) auto
  have "take (Suc 0) (drop 5 buf) = [buf ! 5]" using assms(3) by (simp add: take_Suc_conv_app_nth hd_drop_conv_nth take_Suc)
  moreover have "take 6 (drop 0 buf) = take 5 buf @ [buf ! 5]" using assms(3) take_Suc_conv_app_nth [of 5 buf] by simp
  ultimately show ?thesis
    using assms hw by (simp add: do_stores_def sp_eth_stores_def cblit_def sent_dest_def sent_source_def store16_def)
qed

lemma do_stores_append: "do_stores buf (xs @ ys) = cbind (do_stores buf xs) (\<lambda>buf. do_stores buf ys)"
  by (simp add: do_stores_def cfold_append)

lemma wf_sent:
  "length hw = 6 \<Longrightarrow> wf_mac (sent_source hw dest_6)" "length dest5 = 5 \<Longrightarrow> wf_mac (sent_dest dest5 buf)"
  by (auto simp: wf_mac_def sent_source_def sent_dest_def)

text \<open>The packet is the one that the client's \<open>form_packet\<close> makes for these addresses.\<close>

lemma sp_udp_packet_eq:
  assumes "length hw = 6" "length dest5 = 5" "42 + length payload \<le> length buf"
  shows "sp_udp_packet hw dest5 dest_6 (num si) (num di) payload buf =
    cbind (form_packet buf (sent_source hw dest_6) (sent_dest dest5 buf) si di \<lparr>port = 12345\<rparr> \<lparr>port = 23456\<rparr> payload (length payload))
      (\<lambda>(buf, n). Inr buf)"
proof -
  let ?s = "sent_source hw dest_6" and ?d = "sent_dest dest5 buf"
  have l: "length (byte ?s) = 6" "length (byte ?d) = 6" using wf_sent assms(1,2) by (simp_all add: wf_mac_def)
  define rest where "rest = drop 3 (packet_stores ?s ?d si di \<lparr>port = 12345\<rparr> \<lparr>port = 23456\<rparr> payload)"
  have "do_stores buf [(6, byte ?s), (0, byte ?d), (12, store16 (htons (ethertype_code IPv4)))] =
      Inr (byte ?d @ byte ?s @ store16 (htons (ethertype_code IPv4)) @ drop 14 buf)"
    using assms(3) l by (simp add: do_stores_def cblit_def store16_def)
  moreover have "packet_stores ?s ?d si di \<lparr>port = 12345\<rparr> \<lparr>port = 23456\<rparr> payload =
      [(6, byte ?s), (0, byte ?d), (12, store16 (htons (ethertype_code IPv4)))] @ rest"
    by (simp add: rest_def packet_stores_def Let_def)
  moreover have "sp_udp_stores hw dest5 dest_6 (num si) (num di) payload =
      sp_eth_stores hw dest5 dest_6 (htons (ethertype_code IPv4)) @ rest"
    by (simp add: rest_def packet_stores_def sp_udp_stores_def Let_def)
  moreover have "do_stores buf (sp_eth_stores hw dest5 dest_6 (htons (ethertype_code IPv4))) =
      Inr (byte ?d @ byte ?s @ store16 (htons (ethertype_code IPv4)) @ drop 14 buf)"
    using assms by (intro eth_stores) simp_all
  ultimately have "do_stores buf (sp_udp_stores hw dest5 dest_6 (num si) (num di) payload) =
      do_stores buf (packet_stores ?s ?d si di \<lparr>port = 12345\<rparr> \<lparr>port = 23456\<rparr> payload)"
    by (simp only: do_stores_append cbind_Inr)
  then show ?thesis by (simp add: sp_udp_packet_def form_packet_def cbind_assoc)
qed

text \<open>
  The bytes that the UDP senders send over fresh memory: the fragment bytes and the last byte of the
  destination are what the memory held, and the checksum is taken over what it held in its place.
\<close>

lemma sp_udp_sent:
  assumes "length hw = 6" "length db = 5" "wf_ip si" "wf_ip di" "42 + length payload \<le> length mem"
  defines "frag \<equiv> take 2 (drop 20 mem)" and "stale \<equiv> take 2 (drop 24 mem)"
  obtains c buf where "IPchecksum (header_words (length payload) frag stale si di) 10 = Inr c"
    "stale = [0, 0] \<longrightarrow> IPchecksum (header_words (length payload) frag (store16 (htons c)) si di) 10 = Inr 0"
    "sp_udp_packet hw db lb (num si) (num di) payload mem = Inr buf"
    "take (42 + length payload) buf =
      frame frag (store16 (htons c)) \<lparr>byte = lb # tl hw\<rparr> \<lparr>byte = db @ [mem ! 5]\<rparr> si di \<lparr>port = 12345\<rparr> \<lparr>port = 23456\<rparr> payload"
proof -
  note wf = wf_sent(1) [OF assms(1), of lb] wf_sent(2) [OF assms(2), of mem] assms(3,4)
  let ?frame = "\<lambda>c. frame frag (store16 (htons c)) (sent_source hw lb) (sent_dest db mem) si di \<lparr>port = 12345\<rparr> \<lparr>port = 23456\<rparr> payload"
  obtain c where c: "IPchecksum (header_words (length payload) frag stale si di) 10 = Inr c"
    "form_packet mem (sent_source hw lb) (sent_dest db mem) si di \<lparr>port = 12345\<rparr> \<lparr>port = 23456\<rparr> payload (length payload) =
      Inr (?frame c @ drop (42 + length payload) mem, length payload)"
    using form_packet_frame [OF wf order_refl assms(5), of "\<lparr>port = 12345\<rparr>" "\<lparr>port = 23456\<rparr>"]
    unfolding frag_def stale_def by auto
  have frag: "length frag = 2" using assms(5) by (simp add: frag_def)
  show thesis
  proof
    show "stale = [0, 0] \<longrightarrow> IPchecksum (header_words (length payload) frag (store16 (htons c)) si di) 10 = Inr 0"
      using header_checksum_verifies [OF assms(3,4) frag] c(1) by auto
    show "sp_udp_packet hw db lb (num si) (num di) payload mem = Inr (?frame c @ drop (42 + length payload) mem)"
      by (simp add: sp_udp_packet_eq [OF assms(1,2,5)] c(2))
    show "take (42 + length payload) (?frame c @ drop (42 + length payload) mem) =
        frame frag (store16 (htons c)) \<lparr>byte = lb # tl hw\<rparr> \<lparr>byte = db @ [mem ! 5]\<rparr> si di \<lparr>port = 12345\<rparr> \<lparr>port = 23456\<rparr> payload"
      using length_frame [OF wf frag, of "store16 (htons c)"] by (simp add: store16_def sent_source_def sent_dest_def)
  qed (rule c(1))
qed

lemma same_packet_sends:
  "\<exists>out. same_packet_loop strerror pkt rs = (map (\<lambda>_. pkt) (until_failure rs), out, list_all (\<lambda>e. e = None) rs)"
  by (induction rs rule: same_packet_loop.induct [where P = "\<lambda>_ pkt rs. \<exists>out. same_packet_loop strerror pkt rs = (map (\<lambda>_. pkt) (until_failure rs), out, list_all (\<lambda>e. e = None) rs)"])
    (auto simp: until_failure_def)

lemma index_request_addr: "index_request_addr e = replicate 4 0"
  by (simp add: index_request_addr_def)

section \<open>The report on a frame\<close>

text \<open>The fields that are read from a frame of the senders.\<close>

lemma load_frame:
  assumes "wf_mac s" "wf_mac d" "wf_ip si" "wf_ip di" "length frag = 2" "length chk = 2"
    and buf: "buf = frame frag chk s d si di sp dp py @ rest"
  shows "take 6 buf = byte d" "take 6 (drop 6 buf) = byte s" "take 4 (drop 26 buf) = num si" "take 4 (drop 30 buf) = num di"
    "load16 buf 12 = htons (ethertype_code IPv4)" "load8 buf 14 = 0x45" "load8 buf 15 = 16"
    "load16 buf 16 = htons (word_of_nat (length py + 8 + 20))" "load16 buf 18 = htons 10201" "load8 buf 22 = 64" "load8 buf 23 = 17"
    "load16 buf 24 = le_word chk" "load16 buf 34 = htons (port sp)" "load16 buf 36 = htons (port dp)"
    "load16 buf 38 = htons (word_of_nat (length py + 8))" "load16 buf 40 = 0"
proof -
  have one: "le_word [b] = b" for b :: u8 using le_word_le_bytes [of 1 b] by (simp add: le_bytes_def)
  have two: "le_word [ucast w, ucast (drop_bit 8 w)] = w" for w :: u16 
    using le_word_le_bytes [of 2 w] by (simp add: store16_bytes flip: store16_def)
  show "take 6 buf = byte d" "take 6 (drop 6 buf) = byte s" "take 4 (drop 26 buf) = num si" "take 4 (drop 30 buf) = num di"
    "load16 buf 12 = htons (ethertype_code IPv4)" "load8 buf 14 = 0x45" "load8 buf 15 = 16"
    "load16 buf 16 = htons (word_of_nat (length py + 8 + 20))" "load16 buf 18 = htons 10201" "load8 buf 22 = 64" "load8 buf 23 = 17"
    "load16 buf 24 = le_word chk" "load16 buf 34 = htons (port sp)" "load16 buf 36 = htons (port dp)"
    "load16 buf 38 = htons (word_of_nat (length py + 8))" "load16 buf 40 = 0"
    using assms(1-6) two [of "htons (port sp)"] two [of "htons (port dp)"] two [of 0]
    by (simp_all add: buf frame_def ip_header_def wf_mac_def wf_ip_def load16_def load8_def store16_bytes one two)
qed

text \<open>What the monitor prints for a frame: the ports and the UDP length as they lie in memory, bytes swapped.\<close>

definition frame_report ::
  "u8 list \<Rightarrow> mac_addr_t \<Rightarrow> mac_addr_t \<Rightarrow> ip_addr_t \<Rightarrow> ip_addr_t \<Rightarrow> udp_port_t \<Rightarrow> udp_port_t \<Rightarrow> nat \<Rightarrow> console list" where
  "frame_report chk s d si di sp dp n =
     [Stdout (NL # ''Ethernet Header'' @ [NL]),
      report_line ''Source Address'' (dashed_hex (byte s)), report_line ''Destination Address'' (dashed_hex (byte d)),
      report_line ''Protocol'' ''0x0800'', Stdout (''IP Header'' @ [NL]), report_line ''Version'' ''4'',
      report_line ''Internet Header Length'' ''5 DWORDS or 20 Bytes'', report_line ''Type Of Service'' ''16'',
      report_line ''Total Length'' (dec (unat (word_of_nat (n + 8 + 20) :: u16)) @ '' Bytes''), report_line ''Identification'' ''10201'',
      report_line ''Time To Live'' ''64'', report_line ''Protocol'' ''17'', report_line ''Header Checksum'' (dec (unat (ntohs (le_word chk)))),
      report_line ''Source IP'' (ip_text (num si)), report_line ''Destination IP'' (ip_text (num di)),
      Stdout (''UDP Header'' @ [NL]),
      report_line ''Source Port'' (dec (unat (bswap_16 (port sp)))), report_line ''Dst Port'' (dec (unat (bswap_16 (port dp)))),
      report_line ''Length'' (dec (unat (bswap_16 (word_of_nat (n + 8))))), report_line ''Checksum'' ''0'']"

lemma header_report_frame:
  assumes "wf_mac s" "wf_mac d" "wf_ip si" "wf_ip di" "length frag = 2" "length chk = 2"
  shows "header_report (frame frag chk s d si di sp dp py @ rest) = frame_report chk s d si di sp dp (length py)"
proof -
  note fields = load_frame [OF assms refl, of sp dp py rest]
  have digit: "char_of (48 :: nat) = CHR ''0''" "char_of (49 :: nat) = CHR ''1''" "char_of (50 :: nat) = CHR ''2''"
    "char_of (52 :: nat) = CHR ''4''" "char_of (53 :: nat) = CHR ''5''" "char_of (54 :: nat) = CHR ''6''" "char_of (55 :: nat) = CHR ''7''"
    by code_simp+
  have num: "dec 4 = ''4''" "dec 5 = ''5''" "dec 20 = ''20''" "dec 16 = ''16''" "dec 10201 = ''10201''" "dec 64 = ''64''" "dec 17 = ''17''" "dec 0 = ''0''"
    by (simp_all add: dec.simps digit)
  have bits: "drop_bit 4 (0x45 :: u8) = 4" "(0x45 :: u8) AND 0x0f = 5" "''0x'' @ hex4 (ethertype_code IPv4) = ''0x0800''"
    by code_simp+
  show ?thesis
    unfolding header_report_def udp_report_def Let_def fields bswap_16_bswap_16 bits frame_report_def
    by (simp add: num)
qed

lemma sockinit_receiver_frames:
  assumes "\<And>r. r \<in> set rs \<Longrightarrow> \<exists>pkt. r = Some pkt \<and> length pkt \<le> BUFFER_SIZE \<and> (\<forall>rest. header_report (pkt @ rest) = rep pkt)"
  shows "sockinit_receiver_loop buffer rs = concat (map (\<lambda>r. rep (the r)) rs)"
  using assms
proof (induction rs arbitrary: buffer)
  case (Cons r rs)
  obtain pkt where "r = Some pkt" "length pkt \<le> BUFFER_SIZE" "\<forall>rest. header_report (pkt @ rest) = rep pkt"
    using Cons.prems [of r] by auto
  with Cons show ?case by (simp add: Let_def)
qed simp

end
