(* ===== verification/Validation.thy ===== *)
theory Validation
  imports Session
begin

text \<open>
  The command \<open>test\<close>, \<^verbatim>\<open>sw/admin-cli/commands/test.hh\<close>, and the validation suites it runs,
  \<^verbatim>\<open>commands/tests/*.hh\<close>. A test draws endpoints, configures the board and checks the answer to a probe;
  then it sends ten packets per stage and waits for each to come back or not to. The tests of the
  six address suites are one program over the field under test: the draw of that field is
  replaced by one that avoids the listed entries or takes a listed entry.
\<close>

section \<open>Drawing packets\<close>

type_synonym 'a draw = "nat list \<Rightarrow> ('a \<times> nat list) cres"

text \<open>
  \<open>do { x = draw(); } while (bad(x));\<close> A draw that used no random number would repeat for ever and is
  \<open>Unfinished\<close>, like a loop that uses up the given numbers.
\<close>

function redraw :: "'a draw \<Rightarrow> ('a \<Rightarrow> bool) \<Rightarrow> 'a draw" where
  "redraw draw bad rs =
     (case draw rs of
        Inl e \<Rightarrow> Inl e
      | Inr (x, rs') \<Rightarrow>
          if bad x then if length rs' < length rs then redraw draw bad rs' else Inl Unfinished
          else Inr (x, rs'))"
  by pat_completeness auto

termination by (relation "measure (\<lambda>(_, _, rs). length rs)") auto

declare redraw.simps [simp del]

definition rand :: "nat draw" where
  "rand rs = (case rs of [] \<Rightarrow> Inl Unfinished | r # rs \<Rightarrow> Inr (r, rs))"

text \<open>A listed entry: the only one, or \<open>list[rand() % 2]\<close>.\<close>

definition pick :: "'a list \<Rightarrow> 'a draw" where
  "pick items rs =
     (if length items = 1 then cbind (cread items 0) (\<lambda>x. Inr (x, rs))
      else cbind (rand rs) (\<lambda>(r, rs). cbind (cread items (r mod 2)) (\<lambda>x. Inr (x, rs))))"

text \<open>
  How a stage makes its packets: the draws of the six endpoints in the order of the source, the
  payload with its length from the round and the contents of the local array, and what is expected to
  come back.
\<close>

record plan =
  d_srcmac :: "mac_addr_t draw"
  d_dstmac :: "mac_addr_t \<Rightarrow> mac_addr_t draw"
  d_srcip :: "ip_addr_t draw"
  d_dstip :: "ip_addr_t draw"
  d_srcport :: "udp_port_t draw"
  d_dstport :: "udp_port_t draw"
  d_payload :: "nat \<Rightarrow> u8 list \<Rightarrow> (u8 list \<times> nat) draw"
  response :: "u8 list \<times> nat \<Rightarrow> u8 list \<times> nat"

text \<open>\<open>uint64_t payload = i + rand()\<close>.\<close>

definition counter_payload :: "nat \<Rightarrow> u8 list \<Rightarrow> (u8 list \<times> nat) draw" where
  "counter_payload i mem rs = cbind (rand rs) (\<lambda>(r, rs). Inr ((le_bytes 8 (word_of_nat (i + r) :: u64), 8), rs))"

definition any_packet :: plan where
  "any_packet = \<lparr>d_srcmac = random_mac, d_dstmac = \<lambda>_. random_mac, d_srcip = random_local_ip, d_dstip = random_local_ip,
     d_srcport = random_unused_port, d_dstport = random_unused_port, d_payload = counter_payload, response = id\<rparr>"

record test_packet =
  tp_srcmac :: mac_addr_t
  tp_dstmac :: mac_addr_t
  tp_srcip :: ip_addr_t
  tp_dstip :: ip_addr_t
  tp_srcport :: udp_port_t
  tp_dstport :: udp_port_t
  tp_payload :: "u8 list"
  tp_length :: nat

definition draw_packet :: "plan \<Rightarrow> nat \<Rightarrow> u8 list \<Rightarrow> test_packet draw" where
  "draw_packet p i mem rs =
     cbind (d_srcmac p rs) (\<lambda>(srcmac, rs).
     cbind (d_dstmac p srcmac rs) (\<lambda>(dstmac, rs).
     cbind (d_srcip p rs) (\<lambda>(srcip, rs).
     cbind (d_dstip p rs) (\<lambda>(dstip, rs).
     cbind (d_srcport p rs) (\<lambda>(srcport, rs).
     cbind (d_dstport p rs) (\<lambda>(dstport, rs).
     cbind (d_payload p i mem rs) (\<lambda>((payload, n), rs).
     Inr (\<lparr>tp_srcmac = srcmac, tp_dstmac = dstmac, tp_srcip = srcip, tp_dstip = dstip,
           tp_srcport = srcport, tp_dstport = dstport, tp_payload = payload, tp_length = n\<rparr>, rs))))))))"

section \<open>Running a test\<close>

definition print_not_recv_msg :: console where
  "print_not_recv_msg = Stdout (''FPGA validation failed, expect packet not received.'' @ [NL])"
definition print_not_block_msg :: console where
  "print_not_block_msg = Stdout (''FPGA validation failed, block not successful.'' @ [NL])"
definition print_admin_mismatch_msg :: console where
  "print_admin_mismatch_msg = Stdout (''FPGA validation failed, admin packet and FPGA configuration mismatch'' @ [NL])"

text \<open>A stage: its packets, whether they are expected back, and the message when it fails.\<close>

record stage =
  st_plan :: plan
  st_receive :: bool
  st_message :: console

text \<open>\<open>usleep(100)\<close>: the daemon works on.\<close>

definition nap :: "cli \<Rightarrow> cli" where
  "nap st = st\<lparr>rcv := daemon_rounds (rcv st) (net st (net_pos st)), net_pos := Suc (net_pos st)\<rparr>"

text \<open>
  One round. The payload array of the DNS tests is not initialised: \<open>stack k\<close> is its contents when \<open>k\<close>
  frames have been sent.
\<close>

definition validation_round :: "(nat \<Rightarrow> u8 list) \<Rightarrow> stage \<Rightarrow> nat \<Rightarrow> cli \<Rightarrow> (cli \<times> int) cres" where
  "validation_round stack s i st =
     cbind (draw_packet (st_plan s) i (stack (length (sent st))) (rands st)) (\<lambda>(t, rs).
     cbind (form_payload_packet (st\<lparr>rands := rs\<rparr>) (tp_srcmac t) (tp_dstmac t) (tp_srcip t) (tp_dstip t)
              (tp_srcport t) (tp_dstport t) (tp_payload t) (tp_length t)) (\<lambda>st.
     cbind (send_now st) (\<lambda>st.
     case response (st_plan s) (tp_payload t, tp_length t) of (payload, n) \<Rightarrow>
     (case (if st_receive s then expect_receive else expect_block) (net st) (net_pos st) (rcv st) payload n 1000 of
        (ok, r, k) \<Rightarrow>
          let st = st\<lparr>rcv := r, net_pos := k\<rparr> in
          if \<not> ok then Inr (say [st_message s] st, - 1) else Inr (nap st, 0)))))"

text \<open>Steps in a row, up to the first that returns \<open>-1\<close>.\<close>

fun in_turn :: "(cli \<Rightarrow> (cli \<times> int) cres) list \<Rightarrow> cli \<Rightarrow> (cli \<times> int) cres" where
  "in_turn [] st = Inr (st, 0)"
| "in_turn (g # gs) st = cbind (g st) (\<lambda>(st, ret). if ret = - 1 then Inr (st, - 1) else in_turn gs st)"

definition run_stages :: "(nat \<Rightarrow> u8 list) \<Rightarrow> stage list \<Rightarrow> cli \<Rightarrow> (cli \<times> int) cres" where
  "run_stages stack stages = in_turn (concat (map (\<lambda>s. map (validation_round stack s) [0..<10]) stages))"

text \<open>A test: \<open>draw_conf\<close> draws the listed entries into the configuration, which was zero.\<close>

definition run_test :: "(nat \<Rightarrow> u8 list) \<Rightarrow> filter_t draw \<Rightarrow> (filter_t \<Rightarrow> stage list) \<Rightarrow> cli \<Rightarrow> (cli \<times> int) cres" where
  "run_test stack draw_conf stages st =
     cbind (random_endpoints st) (\<lambda>(srcmac, srcip, dstip, srcport, dstport, st).
     cbind (draw_conf (rands st)) (\<lambda>(f, rs).
     cbind (save_filter (st\<lparr>rands := rs\<rparr>) f ADMIN_PKT_TMP_FILENAME) (\<lambda>st.
     cbind (send_file_and_check st srcmac srcip dstip srcport dstport f) (\<lambda>(st, ok).
     if \<not> ok then Inr (say [print_admin_mismatch_msg] st, - 1) else run_stages stack (stages f) st))))"

section \<open>The address suites\<close>

text \<open>The entries of a test: none, one or two draws.\<close>

fun draw_items :: "'a draw \<Rightarrow> nat \<Rightarrow> 'a list draw" where
  "draw_items draw 0 rs = Inr ([], rs)"
| "draw_items draw (Suc n) rs =
     cbind (draw rs) (\<lambda>(x, rs). cbind (draw_items draw n rs) (\<lambda>(xs, rs). Inr (x # xs, rs)))"

text \<open>
  The stages of a test. With the list empty all packets are treated alike; otherwise packets that
  avoid the entries come first, packets that have one after them. A black list lets the first pass and
  blocks the second, a white list the other way round.
\<close>

definition filter_stages :: "bool \<Rightarrow> console \<Rightarrow> 'a list \<Rightarrow> plan \<Rightarrow> plan \<Rightarrow> stage list" where
  "filter_stages white empty_msg items avoid hit =
     (let msg = \<lambda>receive. if receive then print_not_recv_msg else print_not_block_msg in
      if items = [] then [\<lparr>st_plan = any_packet, st_receive = \<not> white, st_message = empty_msg\<rparr>]
      else [\<lparr>st_plan = avoid, st_receive = \<not> white, st_message = msg (\<not> white)\<rparr>,
            \<lparr>st_plan = hit, st_receive = white, st_message = msg white\<rparr>])"

text \<open>\<open>f.xBW = white; f.xLength = n; f.xList[0] = ..; f.xList[1] = ..\<close>.\<close>

definition bw :: "bool \<Rightarrow> 1 word" where "bw white = (if white then 1 else 0)"

definition put_items :: "'a list \<Rightarrow> 'a list \<Rightarrow> 'a list" where
  "put_items items old = items @ drop (length items) old"

definition list_setup :: "'a draw \<Rightarrow> nat \<Rightarrow> ('a list \<Rightarrow> filter_t) \<Rightarrow> filter_t draw" where
  "list_setup draw n conf rs = cbind (draw_items draw n rs) (\<lambda>(items, rs). Inr (conf items, rs))"

definition test_mac_srcmac :: "(nat \<Rightarrow> u8 list) \<Rightarrow> bool \<Rightarrow> nat \<Rightarrow> cli \<Rightarrow> (cli \<times> int) cres" where
  "test_mac_srcmac stack white n =
     run_test stack
       (list_setup random_mac n (\<lambda>items. filter_zero\<lparr>srcMACBW := bw white, srcMACLength := word_of_nat n,
          srcMACList := put_items items (srcMACList filter_zero)\<rparr>))
       (\<lambda>f. let items = take n (srcMACList f) in
        filter_stages white print_not_recv_msg items
          (any_packet\<lparr>d_srcmac := redraw random_mac (\<lambda>m. m \<in> set items)\<rparr>) (any_packet\<lparr>d_srcmac := pick items\<rparr>))"

text \<open>The black list test with one entry compares the source address in its loop.\<close>

definition dstmac_avoid :: "bool \<Rightarrow> mac_addr_t list \<Rightarrow> mac_addr_t \<Rightarrow> mac_addr_t draw" where
  "dstmac_avoid white items srcmac = redraw random_mac
     (if length items = 1 \<and> \<not> white then (\<lambda>_. srcmac \<in> set items) else (\<lambda>m. m \<in> set items))"

definition test_mac_dstmac :: "(nat \<Rightarrow> u8 list) \<Rightarrow> bool \<Rightarrow> nat \<Rightarrow> cli \<Rightarrow> (cli \<times> int) cres" where
  "test_mac_dstmac stack white n =
     run_test stack
       (list_setup random_mac n (\<lambda>items. filter_zero\<lparr>dstMACBW := bw white, dstMACLength := word_of_nat n,
          dstMACList := put_items items (dstMACList filter_zero)\<rparr>))
       (\<lambda>f. let items = take n (dstMACList f) in
        filter_stages white (if white then print_not_block_msg else print_not_recv_msg) items
          (any_packet\<lparr>d_dstmac := dstmac_avoid white items\<rparr>)
          (any_packet\<lparr>d_dstmac := \<lambda>_. pick items\<rparr>))"

definition test_ip_srcip :: "(nat \<Rightarrow> u8 list) \<Rightarrow> bool \<Rightarrow> nat \<Rightarrow> cli \<Rightarrow> (cli \<times> int) cres" where
  "test_ip_srcip stack white n =
     run_test stack
       (list_setup random_local_ip n (\<lambda>items. filter_zero\<lparr>srcIPBW := bw white, srcIPLength := word_of_nat n,
          srcIPList := put_items items (srcIPList filter_zero)\<rparr>))
       (\<lambda>f. let items = take n (srcIPList f) in
        filter_stages white (if white then print_not_block_msg else print_not_recv_msg) items
          (any_packet\<lparr>d_srcip := redraw random_local_ip (\<lambda>a. a \<in> set items)\<rparr>) (any_packet\<lparr>d_srcip := pick items\<rparr>))"

definition test_ip_dstip :: "(nat \<Rightarrow> u8 list) \<Rightarrow> bool \<Rightarrow> nat \<Rightarrow> cli \<Rightarrow> (cli \<times> int) cres" where
  "test_ip_dstip stack white n =
     run_test stack
       (list_setup random_local_ip n (\<lambda>items. filter_zero\<lparr>dstIPBW := bw white, dstIPLength := word_of_nat n,
          dstIPList := put_items items (dstIPList filter_zero)\<rparr>))
       (\<lambda>f. let items = take n (dstIPList f) in
        filter_stages white (if white then print_not_block_msg else print_not_recv_msg) items
          (any_packet\<lparr>d_dstip := redraw random_local_ip (\<lambda>a. a \<in> set items)\<rparr>) (any_packet\<lparr>d_dstip := pick items\<rparr>))"

definition test_udp_srcport :: "(nat \<Rightarrow> u8 list) \<Rightarrow> bool \<Rightarrow> nat \<Rightarrow> cli \<Rightarrow> (cli \<times> int) cres" where
  "test_udp_srcport stack white n =
     run_test stack
       (list_setup random_unused_port n (\<lambda>items. filter_zero\<lparr>srcPortBW := bw white, srcPortLength := word_of_nat n,
          srcPortList := put_items items (srcPortList filter_zero)\<rparr>))
       (\<lambda>f. let items = take n (srcPortList f) in
        filter_stages white (if white then print_not_block_msg else print_not_recv_msg) items
          (any_packet\<lparr>d_srcport := redraw random_unused_port (\<lambda>q. q \<in> set items)\<rparr>) (any_packet\<lparr>d_srcport := pick items\<rparr>))"

definition test_udp_dstport :: "(nat \<Rightarrow> u8 list) \<Rightarrow> bool \<Rightarrow> nat \<Rightarrow> cli \<Rightarrow> (cli \<times> int) cres" where
  "test_udp_dstport stack white n =
     run_test stack
       (list_setup random_unused_port n (\<lambda>items. filter_zero\<lparr>dstPortBW := bw white, dstPortLength := word_of_nat n,
          dstPortList := put_items items (dstPortList filter_zero)\<rparr>))
       (\<lambda>f. let items = take n (dstPortList f) in
        filter_stages white (if white then print_not_block_msg else print_not_recv_msg) items
          (any_packet\<lparr>d_dstport := redraw random_unused_port (\<lambda>q. q \<in> set items)\<rparr>) (any_packet\<lparr>d_dstport := pick items\<rparr>))"

text \<open>The six tests of a suite: black list and white list, with no, one and two entries.\<close>

definition six_tests :: "(bool \<Rightarrow> nat \<Rightarrow> cli \<Rightarrow> (cli \<times> int) cres) \<Rightarrow> cli \<Rightarrow> (cli \<times> int) cres" where
  "six_tests t = in_turn [t False 0, t False 1, t False 2, t True 0, t True 1, t True 2]"

definition test_srcmac_filters :: "(nat \<Rightarrow> u8 list) \<Rightarrow> cli \<Rightarrow> (cli \<times> int) cres" where
  "test_srcmac_filters stack = six_tests (test_mac_srcmac stack)"
definition test_dstmac_filters :: "(nat \<Rightarrow> u8 list) \<Rightarrow> cli \<Rightarrow> (cli \<times> int) cres" where
  "test_dstmac_filters stack = six_tests (test_mac_dstmac stack)"
definition test_srcip_filters :: "(nat \<Rightarrow> u8 list) \<Rightarrow> cli \<Rightarrow> (cli \<times> int) cres" where
  "test_srcip_filters stack = six_tests (test_ip_srcip stack)"
definition test_dstip_filters :: "(nat \<Rightarrow> u8 list) \<Rightarrow> cli \<Rightarrow> (cli \<times> int) cres" where
  "test_dstip_filters stack = six_tests (test_ip_dstip stack)"
definition test_srcport_filters :: "(nat \<Rightarrow> u8 list) \<Rightarrow> cli \<Rightarrow> (cli \<times> int) cres" where
  "test_srcport_filters stack = six_tests (test_udp_srcport stack)"
definition test_dstport_filters :: "(nat \<Rightarrow> u8 list) \<Rightarrow> cli \<Rightarrow> (cli \<times> int) cres" where
  "test_dstport_filters stack = six_tests (test_udp_dstport stack)"

section \<open>The DNS and reply suites\<close>

text \<open>
  The payload of the DNS tests: the name at a random position of the 20 bytes, random bytes before it,
  the old contents behind it; in a packet that is to avoid the entry one byte of the name is incremented.
\<close>

definition dns_payload :: "bool \<Rightarrow> u8 list \<Rightarrow> nat \<Rightarrow> nat \<Rightarrow> u8 list \<Rightarrow> (u8 list \<times> nat) draw" where
  "dns_payload spoil item m i mem rs =
     cbind (rand rs) (\<lambda>(r, rs).
     let pos = r mod (20 - m) in
     cbind (draw_items rand pos rs) (\<lambda>(xs, rs).
     cbind (cblit mem 0 (map (\<lambda>x. word_of_nat (x mod 255)) xs)) (\<lambda>mem.
     cbind (cblit mem pos (take m item)) (\<lambda>mem.
     if spoil then
       cbind (rand rs) (\<lambda>(r, rs).
       cbind (cread mem (pos + r mod m)) (\<lambda>b.
       cbind (cwrite mem (pos + r mod m) (b + 1)) (\<lambda>mem. Inr ((mem, 20), rs))))
     else Inr ((mem, 20), rs)))))"

text \<open>The packets of the tests with two names that have an entry carry just that entry.\<close>

definition entry_payload :: "filter_t \<Rightarrow> nat \<Rightarrow> u8 list \<Rightarrow> (u8 list \<times> nat) draw" where
  "entry_payload f i mem rs =
     cbind (rand rs) (\<lambda>(r, rs).
     cbind (cread (dnsList f) (r mod 2)) (\<lambda>item.
     cbind (cread (dnsItemEndPtr f) (r mod 2)) (\<lambda>e. Inr ((dns_c item, unat e div 8), rs))))"

text \<open>\<open>memcpy\<close> of a name into a cleared entry.\<close>

definition dns_name_item :: "string \<Rightarrow> dns_filter_item_t" where
  "dns_name_item name = \<lparr>dns_c = map of_char name @ drop (length name) (dns_c dns_item_zero)\<rparr>"

definition dns_names :: "nat \<Rightarrow> string list" where
  "dns_names n = (if n = 0 then [] else if n = 1 then [''apple.com''] else [''patrickwu.uk'', ''zitongli.mepaloa''])"

definition dns_conf :: "bool \<Rightarrow> nat \<Rightarrow> filter_t" where
  "dns_conf white n = filter_zero\<lparr>dnsBW := bw white, dnsLength := word_of_nat n,
     dnsItemEndPtr := put_items (map (\<lambda>s. word_of_nat (8 * length s)) (dns_names n)) (dnsItemEndPtr filter_zero),
     dnsList := put_items (map dns_name_item (dns_names n)) (dnsList filter_zero)\<rparr>"

definition test_dns :: "(nat \<Rightarrow> u8 list) \<Rightarrow> bool \<Rightarrow> nat \<Rightarrow> cli \<Rightarrow> (cli \<times> int) cres" where
  "test_dns stack white n =
     run_test stack (\<lambda>rs. Inr (dns_conf white n, rs))
       (\<lambda>f. let last = n - 1; item = dns_c (dnsList f ! last); m = unat (dnsItemEndPtr f ! last) div 8 in
        filter_stages white (if white then print_not_block_msg else print_not_recv_msg) (dns_names n)
          (any_packet\<lparr>d_payload := dns_payload True item m\<rparr>)
          (any_packet\<lparr>d_payload := (if n = 1 then dns_payload False item m else entry_payload f)\<rparr>))"

definition test_dns_filters :: "(nat \<Rightarrow> u8 list) \<Rightarrow> cli \<Rightarrow> (cli \<times> int) cres" where
  "test_dns_filters stack = six_tests (test_dns stack)"

definition dns_response :: "u8 list \<times> nat \<Rightarrow> u8 list \<times> nat" where
  "dns_response p = ([fst p ! 0, fst p ! 1, 0x84, 0x33] @ replicate 8 0, 12)"

definition test_reply_dns :: "(nat \<Rightarrow> u8 list) \<Rightarrow> cli \<Rightarrow> (cli \<times> int) cres" where
  "test_reply_dns stack =
     run_test stack (\<lambda>rs. Inr (filter_zero\<lparr>replyType := 1\<rparr>, rs))
       (\<lambda>f. [\<lparr>st_plan = any_packet\<lparr>response := dns_response\<rparr>, st_receive = True, st_message = print_not_recv_msg\<rparr>])"

definition test_reply :: "(nat \<Rightarrow> u8 list) \<Rightarrow> cli \<Rightarrow> (cli \<times> int) cres" where
  "test_reply stack = in_turn [test_reply_dns stack]"

section \<open>The command\<close>

definition index_to_test_type :: "nat \<Rightarrow> string" where
  "index_to_test_type i =
     (if i < 8 then [''srcmac'', ''dstmac'', ''srcip'', ''dstip'', ''srcport'', ''dstport'', ''dns'', ''reply''] ! i else ''UNKNOWN'')"

definition print_fail_test_suite :: "nat \<Rightarrow> console" where
  "print_fail_test_suite i = Stdout (''test suite ['' @ index_to_test_type i @ ''] failed'' @ [NL])"

definition suites :: "(nat \<Rightarrow> u8 list) \<Rightarrow> (cli \<Rightarrow> (cli \<times> int) cres) list" where
  "suites stack = [test_srcmac_filters stack, test_dstmac_filters stack, test_srcip_filters stack, test_dstip_filters stack,
     test_srcport_filters stack, test_dstport_filters stack, test_dns_filters stack, test_reply stack]"

text \<open>The suites with the given numbers, in order; \<open>result\<close> is an array of eight zeros.\<close>

fun collect :: "(cli \<Rightarrow> (cli \<times> int) cres) list \<Rightarrow> nat list \<Rightarrow> int list \<Rightarrow> cli \<Rightarrow> (cli \<times> int list) cres" where
  "collect ss [] result st = Inr (st, result)"
| "collect ss (i # is) result st =
     cbind (cread ss i) (\<lambda>g. cbind (g st) (\<lambda>(st, ret). cbind (cwrite result i ret) (\<lambda>result. collect ss is result st)))"

text \<open>The reports: the failed suites, then the verdict, from the disjunction of the results.\<close>

definition verdict :: "string \<Rightarrow> int list \<Rightarrow> console list" where
  "verdict kind result =
     map print_fail_test_suite (filter (\<lambda>i. result ! i = - 1) [0..<8]) @
     [Stdout (if foldl or 0 result = 0 then kind @ '' completed. SUCCESSFUL!'' @ [NL]
              else kind @ '' failed. UNSUCCESSFUL!'' @ [NL])]"

definition run_suites :: "(nat \<Rightarrow> u8 list) \<Rightarrow> string \<Rightarrow> nat list \<Rightarrow> handler" where
  "run_suites stack kind is st buf p =
     cbind (collect (suites stack) is (replicate 8 0) st) (\<lambda>(st, result). Inr (say (verdict kind result) st, buf, 0))"

definition com_test_all :: "(nat \<Rightarrow> u8 list) \<Rightarrow> handler" where
  "com_test_all stack = run_suites stack ''FPGA validation'' [0..<8]"
definition com_test_mac :: "(nat \<Rightarrow> u8 list) \<Rightarrow> handler" where
  "com_test_mac stack = run_suites stack ''FPGA partial validation'' [0, 1]"
definition com_test_ip :: "(nat \<Rightarrow> u8 list) \<Rightarrow> handler" where
  "com_test_ip stack = run_suites stack ''FPGA partial validation'' [2, 3]"
definition com_test_udp :: "(nat \<Rightarrow> u8 list) \<Rightarrow> handler" where
  "com_test_udp stack = run_suites stack ''FPGA partial validation'' [4, 5]"
definition com_test_dns :: "(nat \<Rightarrow> u8 list) \<Rightarrow> handler" where
  "com_test_dns stack = run_suites stack ''FPGA partial validation'' [6]"
definition com_test_reply :: "(nat \<Rightarrow> u8 list) \<Rightarrow> handler" where
  "com_test_reply stack = run_suites stack ''FPGA partial validation'' [7]"

fun first_fail :: "nat \<Rightarrow> (cli \<Rightarrow> (cli \<times> int) cres) list \<Rightarrow> cli \<Rightarrow> (cli \<times> int) cres" where
  "first_fail i [] st = Inr (say [Stdout (''FPGA validation completed. SUCCESSFUL!'' @ [NL])] st, 0)"
| "first_fail i (g # gs) st =
     cbind (g st) (\<lambda>(st, ret). if ret = - 1 then Inr (say [print_fail_test_suite i] st, - 1) else first_fail (Suc i) gs st)"

definition com_test_first_fail :: "(nat \<Rightarrow> u8 list) \<Rightarrow> handler" where
  "com_test_first_fail stack st buf p = cbind (first_fail 0 (suites stack) st) (\<lambda>(st, ret). Inr (st, buf, ret))"

definition test_docs :: "(string \<times> string) list" where
  "test_docs =
     [(''all'', ''run all test cases regardless of failling, report all''), (''f-fail'', ''run all tests and stop at first fail''),
      (''mac'', ''run Ethernet MAC related tests''), (''ip'', ''run IPv4 related tests''), (''udp'', ''run UDP related tests''),
      (''dns'', ''run DNS related tests''), (''reply'', ''run reply-mode related tests''), (''help'', ''display this text''),
      (''?'', ''synonym for `help'' @ [CHR 0x27])]"

definition com_test_help :: handler where "com_test_help = help_handler test_docs"

definition test_commands :: "(nat \<Rightarrow> u8 list) \<Rightarrow> COMMAND list" where
  "test_commands stack = table_of test_docs
     [com_test_all stack, com_test_first_fail stack, com_test_mac stack, com_test_ip stack, com_test_udp stack,
      com_test_dns stack, com_test_reply stack, com_test_help, com_test_help]"

definition com_test :: "(nat \<Rightarrow> u8 list) \<Rightarrow> handler" where
  "com_test stack = nested test_docs (test_commands stack)"

end
