(* ===== verification/Validation_Verdict.thy ===== *)
theory Validation_Verdict
  imports Validation
begin

text \<open>
  What the verdicts of the validation command mean: when a packet counts as received, how the reports
  of \<open>test all\<close> and \<open>test f-fail\<close> are related, and that a silent board is always reported.
\<close>

section \<open>Waiting for a packet\<close>

text \<open>The receiver after \<open>j\<close> sleeps.\<close>

definition after_sleeps :: "schedule \<Rightarrow> nat \<Rightarrow> receiver \<Rightarrow> nat \<Rightarrow> receiver" where
  "after_sleeps env k r j = daemon_rounds r (concat (map env [k..<k + j]))"

lemma daemon_rounds_append: "daemon_rounds r (xs @ ys) = daemon_rounds (daemon_rounds r xs) ys"
  by (simp add: daemon_rounds_def)

lemma after_sleeps_0 [simp]: "after_sleeps env k r 0 = r"
  by (simp add: after_sleeps_def daemon_rounds_def)

lemma after_sleeps_Suc: "after_sleeps env k r (Suc j) = after_sleeps env (Suc k) (daemon_rounds r (env k)) j"
  by (simp add: after_sleeps_def upt_conv_Cons daemon_rounds_append del: upt_Suc)

text \<open>The loop finds the first poll at which the buffer matches.\<close>

lemma expect_receive_eq:
  "expect_receive env k r payload n c =
     (case find (\<lambda>j. packet_matches payload n (recv_pkt_buf (after_sleeps env k r j))) [0..<c] of
        Some j \<Rightarrow> (True, after_sleeps env k r j, k + j)
      | None \<Rightarrow> (False, after_sleeps env k r c, k + c))"
proof (induction c arbitrary: k r)
  case (Suc c)
  have upt: "[0..<Suc c] = 0 # map Suc [0..<c]" by (simp add: map_Suc_upt upt_conv_Cons del: upt_Suc)
  have find: "find P (map Suc xs) = map_option Suc (find (\<lambda>j. P (Suc j)) xs)" for P xs
    by (induction xs) auto
  show ?case
    by (simp only: expect_receive.simps Suc.IH upt find.simps find)
      (auto simp: after_sleeps_Suc split: option.splits)
qed simp

lemma expect_receive_iff:
  "fst (expect_receive env k r payload n c) \<longleftrightarrow>
     (\<exists>j<c. packet_matches payload n (recv_pkt_buf (after_sleeps env k r j)))"
  by (auto simp: expect_receive_eq find_None_iff find_Some_iff split: option.splits)

text \<open>Of the frames that arrive during one sleep only the last one can be seen.\<close>

lemma step_buffer:
  "recv_pkt_buf (probe_receiver_step r ev) =
     (case ev of None \<Rightarrow> recv_pkt_buf r | Some pkt \<Rightarrow> overlay (take BUFFER_SIZE pkt) (recv_pkt_buf r))"
  by (simp add: probe_receiver_step_def trigger_recv_def Let_def split: option.splits)

text \<open>
  What the packet buffer holds: every frame that arrives is written over the front of the old contents, so
  that a shorter frame leaves the end of an earlier one. A failed \<open>recvfrom\<close> and a sleep without an
  arrival leave everything.
\<close>

definition arrivals :: "schedule \<Rightarrow> nat \<Rightarrow> nat \<Rightarrow> u8 list list" where
  "arrivals env k j = concat (map (\<lambda>i. frames (env i)) [k..<k + j])"

definition delivered :: "u8 list \<Rightarrow> u8 list list \<Rightarrow> u8 list" where
  "delivered buf pkts = foldl (\<lambda>b p. take BUFFER_SIZE p @ drop (min (length p) BUFFER_SIZE) b) buf pkts"

lemma rounds_buffer: "recv_pkt_buf (daemon_rounds r evs) = delivered (recv_pkt_buf r) (frames evs)"
proof (induction evs arbitrary: r)
  case (Cons ev evs)
  have "daemon_rounds r (ev # evs) = daemon_rounds (probe_receiver_step r ev) evs" by (simp add: daemon_rounds_def)
  with Cons show ?case by (cases ev) (simp_all add: step_buffer overlay_def delivered_def)
qed (simp add: daemon_rounds_def delivered_def)

lemma sleeps_buffer: "recv_pkt_buf (after_sleeps env k r j) = delivered (recv_pkt_buf r) (arrivals env k j)"
proof -
  have "frames (concat evss) = concat (map frames evss)" for evss by (induction evss) (simp_all add: frames_def)
  then show ?thesis by (simp add: after_sleeps_def rounds_buffer arrivals_def comp_def)
qed

lemma length_delivered: "length buf = BUFFER_SIZE \<Longrightarrow> length (delivered buf pkts) = BUFFER_SIZE"
  by (induction pkts rule: rev_induct) (simp_all add: delivered_def)

text \<open>The packet that is waited for, byte by byte: the source address, the length in network order and the payload.\<close>

definition carries :: "u8 list \<Rightarrow> u8 list \<Rightarrow> bool" where
  "carries py buf \<longleftrightarrow> take 6 (drop 6 buf) = byte fpga_src_mac \<and>
     256 * unat (buf ! 38) + unat (buf ! 39) = length py + 8 \<and> take (length py) (drop 42 buf) = py"

lemma packet_matches_carries:
  assumes "length buf = BUFFER_SIZE" "n \<le> length payload" "n < 65528"
  shows "packet_matches payload n buf \<longleftrightarrow> carries (take n payload) buf"
proof -
  let ?w = "htons (le_word (take 2 (drop 38 buf)))"
  have "drop 38 buf = buf ! 38 # buf ! 39 # drop 40 buf"
    using Cons_nth_drop_Suc [of 38 buf] Cons_nth_drop_Suc [of 39 buf] assms(1) by (simp add: BUFFER_SIZE_def)
  then have "take 2 (drop 38 buf) = [buf ! 38, buf ! 39]" by simp
  then have w: "unat ?w = 256 * unat (buf ! 38) + unat (buf ! 39)" by (simp only: network_order)
  have u: "unat (ucast ?w :: u32) = unat ?w"
    by (simp add: unsigned_ucast_eq take_bit_nat_eq_self_iff order_less_trans [OF unsigned_less])
  have "unat (ucast ?w - (8 :: u32)) = n \<longleftrightarrow> unat ?w = n + 8"
  proof (cases "(8 :: u32) \<le> ucast ?w")
    case True
    then show ?thesis using u by (auto simp: unat_sub word_le_nat_alt)
  next
    case False
    then have "unat (ucast ?w - (8 :: u32)) = 2 ^ 32 + unat ?w - 8" "unat ?w < 8"
      using u by (simp_all add: unat_sub_if' word_le_nat_alt)
    then show ?thesis using assms(3) by simp
  qed
  then show ?thesis using assms(2) by (auto simp: packet_matches_def carries_def w)
qed

text \<open>A frame of the board matches exactly if it carries the payload.\<close>

lemma packet_matches_frame:
  assumes "wf_mac s" "wf_mac d" "wf_ip si" "wf_ip di" "length frag = 2" "length chk = 2" "length py + 8 < 65536"
  shows "packet_matches payload n (frame frag chk s d si di sp dp py @ rest) \<longleftrightarrow>
    s = fpga_src_mac \<and> n = length py \<and> take n payload = py"
proof -
  let ?w = "word_of_nat (length py + 8) :: u16" and ?b = "frame frag chk s d si di sp dp py @ rest"
  have b: "take 6 (drop 6 ?b) = byte s" "take 2 (drop 38 ?b) = store16 (htons ?w)" "drop 42 ?b = py @ rest"
    using assms(1-6) by (simp_all add: frame_def ip_header_def wf_mac_def wf_ip_def store16_def)
  have le: "le_word (store16 w) = w" for w :: u16 using le_word_le_bytes [of 2 w] by (simp add: store16_def)
  have u: "unat ?w = length py + 8" using assms(7) by (simp add: unsigned_of_nat take_bit_nat_eq_self del: of_nat_add)
  have "unat (ucast ?w - (8 :: u32)) = length py"
  proof -
    have "unat (ucast ?w :: u32) = length py + 8" using u assms(7) by (simp add: unsigned_ucast_eq take_bit_nat_eq_self_iff)
    moreover have "(8 :: u32) \<le> ucast ?w" using calculation by (simp add: word_le_nat_alt)
    ultimately show ?thesis by (simp add: unat_sub)
  qed
  then show ?thesis
    unfolding packet_matches_def b le bswap_16_bswap_16 by (cases s) (auto simp: fpga_src_mac_def)
qed

section \<open>The reports\<close>

text \<open>A step that returns 0 or -1, if it returns.\<close>

definition two_valued :: "(cli \<Rightarrow> (cli \<times> int) cres) \<Rightarrow> bool" where
  "two_valued g \<longleftrightarrow> (\<forall>st st' ret. g st = Inr (st', ret) \<longrightarrow> ret = 0 \<or> ret = - 1)"

lemma in_turn_two_valued: "two_valued (in_turn gs)"
proof -
  have "in_turn gs st = Inr (st', ret) \<Longrightarrow> ret = 0 \<or> ret = - 1" for st st' ret
    by (induction gs arbitrary: st) (auto simp: cbind_eq_Inr split: if_splits)
  then show ?thesis by (simp add: two_valued_def)
qed

lemma suites_two_valued: "g \<in> set (suites stack) \<Longrightarrow> two_valued g"
  by (auto simp: suites_def test_srcmac_filters_def test_dstmac_filters_def test_srcip_filters_def test_dstip_filters_def
      test_srcport_filters_def test_dstport_filters_def test_dns_filters_def test_reply_def six_tests_def in_turn_two_valued
      simp del: in_turn.simps)

text \<open>Running all suites: the states between them and the results.\<close>

lemma collect_trace:
  assumes "length result = length ss" "j \<le> length ss" "collect ss [j..<length ss] result st = Inr (st', res)"
  shows "\<exists>s. s j = st \<and> s (length ss) = st' \<and> length res = length ss \<and> take j res = take j result \<and>
    (\<forall>i\<in>{j..<length ss}. (ss ! i) (s i) = Inr (s (Suc i), res ! i))"
  using assms
proof (induction "length ss - j" arbitrary: j result st)
  case 0
  then show ?case by (auto intro!: exI [of _ "\<lambda>_. st"])
next
  case (Suc n)
  then have j: "j < length ss" by simp
  obtain st1 ret where g: "(ss ! j) st = Inr (st1, ret)"
    and c: "collect ss [Suc j..<length ss] (result[j := ret]) st1 = Inr (st', res)"
    using Suc.prems(1,3) j by (auto simp: upt_conv_Cons cbind_eq_Inr cread_Inr cwrite_Inr)
  obtain s where s: "s (Suc j) = st1" "s (length ss) = st'" "length res = length ss"
    "take (Suc j) res = take (Suc j) (result[j := ret])"
    "\<forall>i\<in>{Suc j..<length ss}. (ss ! i) (s i) = Inr (s (Suc i), res ! i)"
  proof -
    have "n = length ss - Suc j" "length (result[j := ret]) = length ss" "Suc j \<le> length ss"
      using Suc.hyps(2) Suc.prems(1) j by simp_all
    from Suc.hyps(1) [OF this c] that show thesis by blast
  qed
  have "take (Suc j) res ! j = ret" "take j (take (Suc j) res) = take j (take (Suc j) (result[j := ret]))"
    using s(4) j Suc.prems(1) by simp_all
  then have rj: "res ! j = ret" "take j res = take j result" by simp_all
  have "(ss ! i) ((s(j := st)) i) = Inr ((s(j := st)) (Suc i), res ! i)" if "i \<in> {j..<length ss}" for i
    using that s(1,5) g rj(1) by (cases "i = j") auto
  with s(2,3) rj(2) j show ?case by (intro exI [of _ "s(j := st)"]) auto
qed

text \<open>Stopping at the first failure: the suites that pass are skipped.\<close>

lemma first_fail_skip:
  assumes "i \<le> length ss" "\<forall>k<i. (ss ! k) (s k) = Inr (s (Suc k), 0)"
  shows "first_fail 0 ss (s 0) = first_fail i (drop i ss) (s i)"
  using assms by (induction i) (simp_all add: Suc_le_eq Cons_nth_drop_Suc [symmetric])

lemma filter_upt_first:
  assumes "filter P [0..<n] = i # xs"
  shows "i < n" "P i" "\<forall>k<i. \<not> P k"
proof -
  have i: "i \<in> set (filter P [0..<n])" using assms by simp
  then show "i < n" "P i" by auto
  have "sorted (i # xs)" unfolding assms [symmetric] by (simp add: sorted_wrt_filter)
  then have "i \<le> k" if "k \<in> set (filter P [0..<n])" for k using that assms by auto
  moreover have "k \<in> set (filter P [0..<n])" if "k < i" "P k" for k using that \<open>i < n\<close> by simp
  ultimately show "\<forall>k<i. \<not> P k" by (meson leD)
qed

lemma foldl_or_zero:
  "foldl or x res = (0 :: int) \<longleftrightarrow> x = 0 \<and> (\<forall>r\<in>set res. r = 0)"
  by (induction res arbitrary: x) (auto simp: or_eq_0_iff)

section \<open>A silent board\<close>

text \<open>The random numbers contain no reserved MAC address.\<close>

definition plain_rands :: "nat list \<Rightarrow> bool" where
  "plain_rands rs \<longleftrightarrow> (\<forall>i. i + 6 \<le> length rs \<longrightarrow> \<lparr>byte = map rand_byte (take 6 (drop i rs))\<rparr> \<notin> {admin_dst_mac, probe_dst_mac})"

lemma plain_rands_drop:
  assumes "plain_rands rs"
  shows "plain_rands (drop n rs)"
  unfolding plain_rands_def
proof (intro allI impI)
  fix i assume "i + 6 \<le> length (drop n rs)"
  then have "(i + n) + 6 \<le> length rs" by simp
  then show "\<lparr>byte = map rand_byte (take 6 (drop i (drop n rs)))\<rparr> \<notin> {admin_dst_mac, probe_dst_mac}"
    using assms unfolding plain_rands_def drop_drop by blast
qed

lemma plain_rands_first:
  "plain_rands rs \<Longrightarrow> 6 \<le> length rs \<Longrightarrow> \<lparr>byte = map rand_byte (take 6 rs)\<rparr> \<notin> {admin_dst_mac, probe_dst_mac}"
  unfolding plain_rands_def by (metis add_0 drop_0)

lemma plain_rands_mac:
  assumes "plain_rands rs" "6 \<le> length rs"
  shows "random_mac rs = Inr (\<lparr>byte = map rand_byte (take 6 rs)\<rparr>, drop 6 rs)"
  using assms plain_rands_first [OF assms] by (subst random_mac.simps) (simp add: Let_def)

lemma plain_rands_draws: "plain_rands rs \<Longrightarrow> 14 * n \<le> length rs \<Longrightarrow> plain_draws n rs"
proof (induction n arbitrary: rs)
  case (Suc n)
  have "\<lparr>byte = map rand_byte (take 6 rs)\<rparr> \<notin> {admin_dst_mac, probe_dst_mac}"
    using Suc.prems by (intro plain_rands_first) auto
  moreover have "plain_draws n (drop 14 rs)" using Suc by (intro Suc.IH plain_rands_drop) auto
  ultimately show ?case using Suc.prems(2) by simp
qed simp

text \<open>A packet of random addresses takes 21 random numbers.\<close>

lemma draw_any_packet:
  assumes "plain_rands rs" "21 \<le> length rs"
  obtains t where "draw_packet any_packet i mem rs = Inr (t, drop 21 rs)" "wf_mac (tp_srcmac t)" "wf_mac (tp_dstmac t)"
    "wf_ip (tp_srcip t)" "wf_ip (tp_dstip t)" "length (tp_payload t) = 8" "tp_length t = 8"
    "tp_dstmac t \<notin> {admin_dst_mac, probe_dst_mac}"
proof -
  have m: "random_mac rs = Inr (\<lparr>byte = map rand_byte (take 6 rs)\<rparr>, drop 6 rs)"
    "random_mac (drop 6 rs) = Inr (\<lparr>byte = map rand_byte (take 6 (drop 6 rs))\<rparr>, drop 12 rs)"
    using plain_rands_mac [OF assms(1)] plain_rands_mac [OF plain_rands_drop [OF assms(1)], of 6] assms(2) by simp_all
  have one: "drop k rs = rs ! k # drop (Suc k) rs" if "k < 21" for k using that assms(2) by (intro Cons_nth_drop_Suc [symmetric]) simp
  have r: "drop 18 rs = rs ! 18 # rs ! 19 # rs ! 20 # drop 21 rs" using one [of 18] one [of 19] one [of 20] by simp
  have "draw_packet any_packet i mem rs = Inr (\<lparr>tp_srcmac = \<lparr>byte = map rand_byte (take 6 rs)\<rparr>,
      tp_dstmac = \<lparr>byte = map rand_byte (take 6 (drop 6 rs))\<rparr>,
      tp_srcip = \<lparr>num = 10 # map rand_byte (take 3 (drop 12 rs))\<rparr>, tp_dstip = \<lparr>num = 10 # map rand_byte (take 3 (drop 15 rs))\<rparr>,
      tp_srcport = \<lparr>port = word_of_nat (rs ! 18 mod 55536 + 10000)\<rparr>, tp_dstport = \<lparr>port = word_of_nat (rs ! 19 mod 55536 + 10000)\<rparr>,
      tp_payload = le_bytes 8 (word_of_nat (i + rs ! 20) :: u64), tp_length = 8\<rparr>, drop 21 rs)"
  proof -
    have "\<not> length rs - 12 < 3" "\<not> length rs - 15 < 3" using assms(2) by simp_all
    then show ?thesis
      by (simp add: draw_packet_def any_packet_def m random_local_ip_def r random_unused_port_def counter_payload_def rand_def)
  qed
  then show thesis
    by (rule that) (use assms(2) plain_rands_first [OF plain_rands_drop [OF assms(1)], of 6] in \<open>simp_all add: wf_mac_def wf_ip_def\<close>)
qed

text \<open>No frame of the board arrives, neither a filtered packet nor a reply to a probe, and none is in the buffer.\<close>

definition quiet :: "schedule \<Rightarrow> bool" where
  "quiet env \<longleftrightarrow> (\<forall>j. \<forall>pkt \<in> set (frames (env j)). is_frame pkt \<and> take 6 (drop 6 pkt) \<notin> {byte fpga_src_mac, byte probe_dst_mac})"

definition unheard :: "receiver \<Rightarrow> bool" where
  "unheard r \<longleftrightarrow> take 6 (drop 6 (recv_pkt_buf r)) \<noteq> byte fpga_src_mac"

lemma quiet_board: "quiet env \<Longrightarrow> frames_ok env" "quiet env \<Longrightarrow> board_replies env g s" "quiet env \<Longrightarrow> \<not> board_heard env k k'"
  by (auto simp: quiet_def frames_ok_def board_replies_def board_heard_def list_all_iff list_ex_iff from_board_def)

lemma rounds_unheard:
  assumes "\<forall>pkt \<in> set (frames evs). is_frame pkt \<and> take 6 (drop 6 pkt) \<noteq> byte fpga_src_mac" "unheard r"
  shows "unheard (daemon_rounds r evs)"
  using assms
proof (induction evs arbitrary: r)
  case (Cons ev evs)
  have "unheard (probe_receiver_step r ev)"
    using Cons.prems by (cases ev) (auto simp: unheard_def step_buffer overlay_def is_frame_def)
  moreover have "set (frames evs) \<subseteq> set (frames (ev # evs))" by (cases ev) auto
  ultimately show ?case using Cons.IH Cons.prems(1) by (auto simp: daemon_rounds_def)
qed (simp add: daemon_rounds_def)

lemma quiet_unheard: "quiet env \<Longrightarrow> unheard r \<Longrightarrow> unheard (daemon_rounds r (env j))"
  by (rule rounds_unheard) (auto simp: quiet_def)

lemma probe_wait_keeps:
  assumes "probe_wait env us_timeout k t r = Some (r', k')" "\<And>r j. P r \<Longrightarrow> P (daemon_rounds r (env j))" "P r"
  shows "P r'"
proof -
  have "env = env \<longrightarrow> (\<forall>r'' k''. y = (r'', k'') \<longrightarrow> P r \<longrightarrow> P r'')" if "probe_wait env us_timeout k t r = Some y" for y
    by (rule probe_wait.raw_induct [where P = "\<lambda>env' to k t r y. env' = env \<longrightarrow> (\<forall>r'' k''. y = (r'', k'') \<longrightarrow> P r \<longrightarrow> P r'')", OF _ that])
      (use assms(2) in \<open>auto split: if_splits\<close>)
  with assms(1,3) show ?thesis by blast
qed

lemma expect_receive_unheard:
  assumes "quiet env" "unheard r"
  shows "\<exists>r' k'. expect_receive env k r payload n c = (False, r', k') \<and> unheard r' \<and> (wf_receiver r \<longrightarrow> wf_receiver r')"
  using assms(2)
proof (induction c arbitrary: k r)
  case (Suc c)
  have "\<not> packet_matches payload n (recv_pkt_buf r)" using Suc.prems by (simp add: packet_matches_def unheard_def)
  with Suc.IH [OF quiet_unheard [OF assms(1) Suc.prems], of "Suc k" k] rounds_wf show ?case by auto
qed simp

lemma steps_keep_receiver:
  "random_endpoints st = Inr (m, a, b, p, q, st') \<Longrightarrow> rcv st' = rcv st \<and> net st' = net st"
  "fake_file st py n = Inr st' \<Longrightarrow> rcv st' = rcv st \<and> net st' = net st"
  "form_payload_packet st m d a b p q py n = Inr st' \<Longrightarrow> rcv st' = rcv st \<and> net st' = net st"
  "form_file_packet st m d a b p q = Inr st' \<Longrightarrow> rcv st' = rcv st \<and> net st' = net st"
  "send_now st = Inr st' \<Longrightarrow> rcv st' = rcv st \<and> net st' = net st"
  "rcv (fst (read_file st name)) = rcv st \<and> net (fst (read_file st name)) = net st"
  by (auto simp: random_endpoints_def fake_file_def form_file_packet_def form_payload_packet_def send_now_def say_def
      read_file_def Let_def cbind_eq_Inr split: if_splits option.splits)

lemma probe_unheard:
  assumes "probe_fpga st = Inr (st', pr)" "quiet (net st)" "unheard (rcv st)"
  shows "unheard (rcv st')"
proof -
  obtain m a b p q st1 n st2 st3 st4 where s: "random_endpoints st = Inr (m, a, b, p, q, st1)"
    "fake_file st1 (map of_char (cstr probe_payload)) n = Inr st2" "form_file_packet st2 m probe_dst_mac a b p q = Inr st3"
    "send_now (st3\<lparr>rcv := (rcv st3)\<lparr>probe_reply_received := False\<rparr>\<rparr>) = Inr st4"
    and rest: "(case probe_reply_recv (net st4) PROBE_TIMEOUT (net_pos st4) (rcv st4) of
       None \<Rightarrow> Inl Unfinished
     | Some (r, k) \<Rightarrow>
         let st = st4\<lparr>rcv := r, net_pos := k\<rparr> in
         if \<not> probe_reply_received r then
           Inr (say [Stderr (''ERROR no probe reply received within timeout '' @ dec (unat PROBE_TIMEOUT) @ '' set'' @ [NL])] st,
                probe_response_zero)
         else cbind (parse_probe_pkt (f_curr st) (probe_pkt_buf r) (word_of_int (probe_pkt_length r))) (\<lambda>pr.
              Inr (say (parse_probe_report (word_of_int (probe_pkt_length r))) st, pr))) = Inr (st', pr)"
    using assms(1) unfolding probe_fpga_def cbind_eq_Inr Let_def by (auto simp: cbind_eq_Inr)
  have st4: "net st4 = net st" "rcv st4 = (rcv st)\<lparr>probe_reply_received := False\<rparr>"
    using steps_keep_receiver(1) [OF s(1)] steps_keep_receiver(2) [OF s(2)] steps_keep_receiver(4) [OF s(3)]
      steps_keep_receiver(5) [OF s(4)] by simp_all
  obtain r k where w: "probe_reply_recv (net st4) PROBE_TIMEOUT (net_pos st4) (rcv st4) = Some (r, k)" "rcv st' = r"
    using rest by (auto simp: Let_def say_def cbind_eq_Inr split: option.splits if_splits)
  have "unheard (rcv st4)" using st4(2) assms(3) by (simp add: unheard_def)
  with probe_wait_keeps [OF w(1) [unfolded probe_reply_recv_def], of unheard] quiet_unheard st4(1) assms(2) w(2)
  show ?thesis by simp
qed

lemma check_unheard:
  assumes "send_file_and_check st m a b p q f = Inr (st', ok)" "quiet (net st)" "unheard (rcv st)"
  shows "unheard (rcv st')"
proof -
  obtain st1 st2 st3 where s: "form_file_packet (fst (read_file st ADMIN_PKT_TMP_FILENAME)) m admin_dst_mac a b p q = Inr st1"
    "send_now st1 = Inr st2" "probe_fpga_update_local st2 = Inr st3" "st' = st3"
    using assms(1) by (auto simp: send_file_and_check_def check_fpga_filter_matches_def cbind_eq_Inr Let_def split: prod.splits)
  have st2: "rcv st2 = rcv st" "net st2 = net st"
    using steps_keep_receiver(4) [OF s(1)] steps_keep_receiver(5) [OF s(2)] steps_keep_receiver(6) [of st ADMIN_PKT_TMP_FILENAME] by simp_all
  let ?st2 = "say [Stdout (''probing FPGA for on-board configurations and stats...'' @ [NL])] st2"
  obtain st4 pr where "probe_fpga ?st2 = Inr (st4, pr)" "rcv st3 = rcv st4"
    using s(3) by (auto simp: probe_fpga_update_local_def cbind_eq_Inr say_def)
  then show ?thesis using probe_unheard [of ?st2 st4 pr] st2 assms(2,3) s(4) by (simp add: say_def)
qed

text \<open>The client beside a silent board.\<close>

definition disconnected :: "cli \<Rightarrow> bool" where
  "disconnected st \<longleftrightarrow> wf_cli st \<and> writable st ADMIN_PKT_TMP_FILENAME \<and> plain_rands (rands st) \<and>
     quiet (net st) \<and> unheard (rcv st)"

text \<open>
  The frames that a step sends, each described by a predicate: the two of a configuration that is sent and probed,
  and a packet of a test round.
\<close>

definition sends :: "(u8 list \<Rightarrow> bool) list \<Rightarrow> cli \<Rightarrow> cli \<Rightarrow> bool" where
  "sends Ps st st' \<longleftrightarrow> (\<exists>pkts. sent st' = sent st @ pkts \<and> list_all2 (\<lambda>P pkt. P pkt) Ps pkts)"

definition configuration_frames :: "filter_t \<Rightarrow> (u8 list \<Rightarrow> bool) list" where
  "configuration_frames f = [frame_to admin_dst_mac (admin_packet f), frame_to probe_dst_mac (map of_char probe_payload)]"

definition test_frame :: "u8 list \<Rightarrow> bool" where
  "test_frame pkt \<longleftrightarrow> (\<exists>d py. d \<notin> {admin_dst_mac, probe_dst_mac} \<and> length py = 8 \<and> frame_to d py pkt)"

lemma sends_trans: "sends Ps st u \<Longrightarrow> sends Qs u v \<Longrightarrow> sends (Ps @ Qs) st v"
  unfolding sends_def by (metis append.assoc list_all2_appendI)

lemma round_disconnected:
  assumes "disconnected st" "21 \<le> length (rands st)" "st_plan s = any_packet" "st_receive s"
  obtains st' where "validation_round stack s i st = Inr (say [st_message s] st', - 1)" "disconnected st'"
    "rands st' = drop 21 (rands st)" "sends [test_frame] st st'"
proof -
  have dc: "wf_cli st" "writable st ADMIN_PKT_TMP_FILENAME" "plain_rands (rands st)" "quiet (net st)" "unheard (rcv st)"
    using assms(1) by (simp_all add: disconnected_def)
  obtain t where t: "draw_packet any_packet i (stack (length (sent st))) (rands st) = Inr (t, drop 21 (rands st))"
    "wf_mac (tp_srcmac t)" "wf_mac (tp_dstmac t)" "wf_ip (tp_srcip t)" "wf_ip (tp_dstip t)" "length (tp_payload t) = 8" "tp_length t = 8"
    "tp_dstmac t \<notin> {admin_dst_mac, probe_dst_mac}"
    using dc(3) assms(2) by (rule draw_any_packet)
  let ?st1 = "st\<lparr>rands := drop 21 (rands st)\<rparr>"
  have wf1: "wf_cli ?st1" using dc(1) by (simp add: wf_cli_def)
  have n: "8 \<le> length (tp_payload t)" "42 + 8 \<le> BUFFER_SIZE" using t(6) by (simp_all add: BUFFER_SIZE_def)
  let ?out = "packet_text (tp_srcmac t) (tp_dstmac t) (tp_srcip t) (tp_dstip t) (tp_srcport t) (tp_dstport t)"
  obtain buf pkt where fs: "form_payload_packet ?st1 (tp_srcmac t) (tp_dstmac t) (tp_srcip t) (tp_dstip t) (tp_srcport t)
      (tp_dstport t) (tp_payload t) 8 = Inr (say ?out (?st1\<lparr>send_pkt_buf := buf, send_pkt_length := 8\<rparr>))"
    "length buf = BUFFER_SIZE" "trigger_send buf 8 = Inr pkt" "frame_to (tp_dstmac t) (take 8 (tp_payload t)) pkt"
    using form_payload_and_send [OF wf1 t(2-5) n, of "tp_srcport t" "tp_dstport t"] by blast
  obtain r' k' where e: "expect_receive (net st) (net_pos st) (rcv st) (tp_payload t) 8 1000 = (False, r', k')" "unheard r'" "wf_receiver r'"
    using expect_receive_unheard [OF dc(4,5), of "net_pos st" "tp_payload t" 8 1000] dc(1) by (auto simp: wf_cli_def)
  let ?st2 = "?st1\<lparr>send_pkt_buf := buf, send_pkt_length := 8, sent := sent st @ [pkt],
    console := console st @ ?out @ send_text (strerror st) (sendto_errno st (length (sent st))), rcv := r', net_pos := k'\<rparr>"
  have "response any_packet x = x" for x by (simp add: any_packet_def)
  then have "validation_round stack s i st = Inr (say [st_message s] ?st2, - 1)"
    using t(1,7) fs(1,3) e(1) assms(3,4)
    by (simp add: validation_round_def send_now_def say_def Let_def del: expect_receive.simps)
  moreover have "disconnected ?st2"
    using dc fs(2) e(2,3) plain_rands_drop by (simp add: disconnected_def wf_cli_def BUFFER_SIZE_def)
  moreover have "test_frame pkt" using fs(4) t(6,8) by (auto simp: test_frame_def)
  then have "sends [test_frame] st ?st2" by (auto simp: sends_def intro!: exI [of _ "[pkt]"])
  ultimately show thesis by - (rule that, simp_all)
qed

lemma disconnected_say: "disconnected (say out st) = disconnected st"
  by (simp add: disconnected_def wf_cli_def say_def)

lemma test_disconnected:
  assumes "disconnected st" "49 \<le> length (rands st)" "draw_conf (drop 14 (rands st)) = Inr (f, drop 14 (rands st))" "wf_filter f"
    and "f = filter_zero \<Longrightarrow> \<exists>s ss. stages f = s # ss \<and> st_plan s = any_packet \<and> st_receive s"
  obtains st' where "run_test stack draw_conf stages st = Inr (st', - 1)" "disconnected st'"
    "length (rands st) \<le> length (rands st') + 49"
    "sends (configuration_frames f @ (if f = filter_zero then [test_frame] else [])) st st'"
proof -
  have dc: "wf_cli st" "writable st ADMIN_PKT_TMP_FILENAME" "plain_rands (rands st)" "quiet (net st)" "unheard (rcv st)"
    using assms(1) by (simp_all add: disconnected_def)
  have draws: "plain_draws (Suc 1) (rands st)" using plain_rands_draws [OF dc(3), of 2] assms(2) by (simp add: numeral_2_eq_2)
  obtain m a b p q where ep: "random_endpoints st = Inr (m, a, b, p, q, st\<lparr>rands := drop 14 (rands st)\<rparr>)"
    and mab: "wf_mac m" "wf_ip a" "wf_ip b" using draws by (rule random_endpoints_ok)
  let ?st1 = "st\<lparr>rands := drop 14 (rands st)\<rparr>"
  have wf1: "wf_cli ?st1" "writable ?st1 ADMIN_PKT_TMP_FILENAME" using dc by (simp_all add: wf_cli_def)
  obtain t where sv: "save_filter ?st1 f ADMIN_PKT_TMP_FILENAME =
      Inr (?st1\<lparr>io := t, files := (files ?st1)(ADMIN_PKT_TMP_FILENAME := Some (admin_packet f))\<rparr>)" "admin_idle t"
    using wf1(1) assms(4) wf1(2) by (rule save_filter_ok)
  let ?st2 = "?st1\<lparr>io := t, files := (files ?st1)(ADMIN_PKT_TMP_FILENAME := Some (admin_packet f))\<rparr>"
  have st2: "wf_cli ?st2" "files ?st2 ADMIN_PKT_TMP_FILENAME = Some (admin_packet f)" "plain_draws (Suc 0) (rands ?st2)"
    using wf1(1) sv(2) draws by (simp_all add: wf_cli_def)
  have eq: "net ?st2 = net st" "net_pos ?st2 = net_pos st" "sent ?st2 = sent st" "f_curr ?st2 = f_curr st"
    "rands ?st2 = drop 14 (rands st)" "writable ?st2 = writable st" "rcv ?st2 = rcv st" by simp_all
  obtain st3 pkt1 pkt2 where c: "send_file_and_check ?st2 m a b p q f =
      Inr (st3, (if board_heard (net st) (net_pos st) (net_pos st3) then filter_zero else filter_zero) = f)"
    "wf_cli st3" "sent st3 = sent st @ [pkt1, pkt2]" "frame_to admin_dst_mac (admin_packet f) pkt1"
    "frame_to probe_dst_mac (map of_char probe_payload) pkt2" "rands st3 = drop 14 (drop 14 (rands st))" "net st3 = net st" "writable st3 = writable st"
    by (rule send_file_and_check_ok [OF st2(1,2) assms(4) mab st2(3), unfolded eq, OF quiet_board(1) [OF dc(4)]
          quiet_board(2) [OF dc(4), of filter_zero stats_zero] wf_filter_zero, of p q]) (rule that)
  have conf: "sends (configuration_frames f) st st3" using c(3-5) by (simp add: sends_def configuration_frames_def)
  have "unheard (rcv st3)" using check_unheard [OF c(1), unfolded eq] dc(4,5) by blast
  with c dc have d3: "disconnected st3" using plain_rands_drop by (simp add: disconnected_def del: drop_drop)
  have run: "run_test stack draw_conf stages st =
      (if f = filter_zero then run_stages stack (stages f) st3 else Inr (say [print_admin_mismatch_msg] st3, - 1))"
    using ep assms(3) sv(1) c(1) by (simp add: run_test_def eq_commute [of filter_zero])
  show thesis
  proof (cases "f = filter_zero")
    case True
    then obtain s ss where s: "stages f = s # ss" "st_plan s = any_packet" "st_receive s" using assms(5) by auto
    have l3: "21 \<le> length (rands st3)" using c(6) assms(2) by simp
    obtain st4 where r: "validation_round stack s 0 st3 = Inr (say [st_message s] st4, - 1)" "disconnected st4"
      "rands st4 = drop 21 (rands st3)" "sends [test_frame] st3 st4"
      using round_disconnected [OF d3 l3 s(2,3)] .
    have "[0..<10] = 0 # [1..<10 :: nat]" by (simp add: upt_conv_Cons)
    then have "run_test stack draw_conf stages st = Inr (say [st_message s] st4, - 1)"
      using run True r(1) by (simp add: run_stages_def s(1) [unfolded True] del: upt_Suc)
    then show thesis
      by (rule that) (use r c(6) True sends_trans [OF conf r(4)] in \<open>simp_all add: disconnected_say\<close>, simp_all add: say_def sends_def)
  next
    case False
    with run have "run_test stack draw_conf stages st = Inr (say [print_admin_mismatch_msg] st3, - 1)" by simp
    then show thesis by (rule that) (use d3 conf c(6) False in \<open>simp_all add: disconnected_say\<close>, simp_all add: say_def sends_def)
  qed
qed

text \<open>A suite that fails beside a silent board within 49 random numbers, having sent the frames \<open>Ps\<close>.\<close>

definition fails_fast :: "(u8 list \<Rightarrow> bool) list \<Rightarrow> (cli \<Rightarrow> (cli \<times> int) cres) \<Rightarrow> bool" where
  "fails_fast Ps g \<longleftrightarrow> (\<forall>st. disconnected st \<and> 49 \<le> length (rands st) \<longrightarrow>
     (\<exists>st'. g st = Inr (st', - 1) \<and> disconnected st' \<and> length (rands st) \<le> length (rands st') + 49 \<and> sends Ps st st'))"

lemma in_turn_fails_fast: "fails_fast Ps g \<Longrightarrow> fails_fast Ps (in_turn (g # gs))"
  unfolding fails_fast_def by fastforce

lemma test_fails_fast:
  assumes "\<And>rs. draw_conf rs = Inr (f, rs)" "wf_filter f"
    and "f = filter_zero \<Longrightarrow> \<exists>s ss. stages f = s # ss \<and> st_plan s = any_packet \<and> st_receive s"
  shows "fails_fast (configuration_frames f @ (if f = filter_zero then [test_frame] else [])) (run_test stack draw_conf stages)"
  unfolding fails_fast_def
proof (intro allI impI, elim conjE)
  fix st assume d: "disconnected st" "49 \<le> length (rands st)"
  show "\<exists>st'. run_test stack draw_conf stages st = Inr (st', - 1) \<and> disconnected st' \<and> length (rands st) \<le> length (rands st') + 49 \<and>
      sends (configuration_frames f @ (if f = filter_zero then [test_frame] else [])) st st'"
    by (rule test_disconnected [where f = f and draw_conf = draw_conf and stages = stages, OF d assms(1,2)]) (use assms(3) in blast)+
qed

text \<open>The frames of each suite: in the first seven, a test packet follows the unanswered probe.\<close>

definition suite_frames :: "(u8 list \<Rightarrow> bool) list list" where
  "suite_frames = replicate 7 (configuration_frames filter_zero @ [test_frame]) @ [configuration_frames (filter_zero\<lparr>replyType := 1\<rparr>)]"

lemma suites_fail_fast: "list_all2 fails_fast suite_frames (suites stack)"
proof -
  let ?Ps = "configuration_frames filter_zero @ [test_frame]"
  note zero = test_fails_fast [of _ filter_zero, OF _ wf_filter_zero, simplified]
  have ad: "fails_fast ?Ps (test_mac_srcmac stack False 0)" "fails_fast ?Ps (test_mac_dstmac stack False 0)"
    "fails_fast ?Ps (test_ip_srcip stack False 0)" "fails_fast ?Ps (test_ip_dstip stack False 0)"
    "fails_fast ?Ps (test_udp_srcport stack False 0)" "fails_fast ?Ps (test_udp_dstport stack False 0)" "fails_fast ?Ps (test_dns stack False 0)"
    unfolding test_mac_srcmac_def test_mac_dstmac_def test_ip_srcip_def test_ip_dstip_def test_udp_srcport_def test_udp_dstport_def test_dns_def
    by (rule zero; simp add: list_setup_def filter_stages_def dns_names_def dns_conf_def filter_zero_def bw_def put_items_def)+
  have "filter_zero\<lparr>replyType := 1\<rparr> \<noteq> filter_zero" "wf_filter (filter_zero\<lparr>replyType := 1\<rparr>)"
    using wf_filter_zero by (simp_all add: filter_zero_def wf_filter_def)
  then have "fails_fast (configuration_frames (filter_zero\<lparr>replyType := 1\<rparr>)) (test_reply_dns stack)"
    using test_fails_fast [of "\<lambda>rs. Inr (filter_zero\<lparr>replyType := 1\<rparr>, rs)" "filter_zero\<lparr>replyType := 1\<rparr>"]
    unfolding test_reply_dns_def by simp
  moreover have "replicate 7 x = [x, x, x, x, x, x, x]" for x :: "(u8 list \<Rightarrow> bool) list" by (simp add: eval_nat_numeral)
  ultimately show ?thesis
    using ad by (simp add: suite_frames_def suites_def test_srcmac_filters_def test_dstmac_filters_def test_srcip_filters_def
        test_dstip_filters_def test_srcport_filters_def test_dstport_filters_def test_dns_filters_def test_reply_def six_tests_def
        in_turn_fails_fast del: in_turn.simps)
qed

lemma collect_fails_fast:
  assumes "list_all2 fails_fast Pss ss" "disconnected st" "49 * length is \<le> length (rands st)"
    and "\<And>i. i \<in> set is \<Longrightarrow> i < length ss" "length result = length ss"
  shows "\<exists>st'. collect ss is result st = Inr (st', foldl (\<lambda>res i. res[i := - 1]) result is) \<and> disconnected st' \<and>
    sends (concat (map (\<lambda>i. Pss ! i) is)) st st'"
  using assms(2-)
proof (induction "is" arbitrary: st result)
  case (Cons i "is")
  have i: "i < length ss" "i < length result" using Cons.prems(3,4) by simp_all
  then have "fails_fast (Pss ! i) (ss ! i)" using assms(1) by (simp add: list_all2_conv_all_nth)
  then obtain st1 where g: "(ss ! i) st = Inr (st1, - 1)" "disconnected st1" "length (rands st) \<le> length (rands st1) + 49"
    "sends (Pss ! i) st st1"
    using Cons.prems(1,2) unfolding fails_fast_def by fastforce
  obtain st' where c: "collect ss is (result[i := - 1]) st1 = Inr (st', foldl (\<lambda>res i. res[i := - 1]) (result[i := - 1]) is)"
    "disconnected st'" "sends (concat (map (\<lambda>i. Pss ! i) is)) st1 st'"
    using Cons.IH [of st1 "result[i := - 1]"] Cons.prems g by auto
  with sends_trans [OF g(4) c(3)] i g show ?case by (intro exI [of _ st']) (simp add: cread_Inr cwrite_Inr)
qed (simp add: sends_def)

text \<open>All suites fail and are named.\<close>

lemma com_test_all_disconnected:
  assumes "disconnected st" "392 \<le> length (rands st)"
  obtains st' where "com_test_all stack st buf p = Inr (say
      (map print_fail_test_suite [0..<8] @ [Stdout (''FPGA validation failed. UNSUCCESSFUL!'' @ [NL])]) st', buf, 0)"
    "disconnected st'" "sends (concat suite_frames) st st'"
proof -
  have l: "length (suites stack) = 8" "length suite_frames = 8" by (simp_all add: suites_def suite_frames_def)
  have "concat (map (\<lambda>i. suite_frames ! i) [0..<8]) = concat suite_frames" using map_nth [of suite_frames] l(2) by simp
  then obtain st' where c: "collect (suites stack) [0..<8] (replicate 8 0) st =
      Inr (st', foldl (\<lambda>res i. res[i := - 1]) (replicate 8 0) [0..<8])" "disconnected st'" "sends (concat suite_frames) st st'"
    using collect_fails_fast [OF suites_fail_fast [of stack] assms(1), of "[0..<8]" "replicate 8 0"] assms(2) l(1) by (auto simp del: upt_Suc)
  have r: "foldl (\<lambda>res i. res[i := - 1]) (replicate 8 (0 :: int)) [0..<8] = replicate 8 (- 1)" by code_simp
  have f: "filter (\<lambda>i. replicate 8 (- 1 :: int) ! i = - 1) [0..<8] = [0..<8]" by (auto simp: filter_id_conv)
  have "verdict ''FPGA validation'' (replicate 8 (- 1)) =
      map print_fail_test_suite [0..<8] @ [Stdout (''FPGA validation failed. UNSUCCESSFUL!'' @ [NL])]"
    by (simp add: verdict_def f foldl_or_zero del: upt_Suc)
  then show thesis using that c r by (simp add: com_test_all_def run_suites_def del: upt_Suc)
qed

text \<open>The typed line \<open>test all\<close>; the bare \<open>all\<close> makes \<open>execute\<close> read the byte behind it.\<close>

lemma test_all_line:
  "\<exists>buf p. main_round (com_test stack) (NUL # slack) st ''test all'' =
     cbind (com_test_all stack (add_history ''test all'' st) buf p) (\<lambda>(st, _, _). Inr st)"
proof -
  let ?r = "NUL # slack" and ?st = "add_history ''test all'' st"
  have strip: "stripwhite (cstr ''test all'' @ ?r) = Inr (cstr ''test all'' @ ?r, 0)"
    by (simp add: stripwhite_def cstr_def isspace_def cread_def cwrite_def eval_nat_numeral)
  have outer: "execute (commands (com_test stack)) ?st (cstr ''test all'' @ ?r) 0 =
      com_test stack ?st (cstr ''test'' @ cstr ''all'' @ ?r) 5"
    by (simp add: execute_def cstr_def isspace_def cwrite_def commands_def commands_docs_def table_of_def eval_nat_numeral)
  have inner: "execute (test_commands stack) ?st (cstr ''test'' @ cstr ''all'' @ ?r) 5 =
      com_test_all stack ?st (cstr ''test'' @ cstr ''all'' @ ?r) 9"
    by (simp add: execute_def cstr_def isspace_def cwrite_def test_commands_def test_docs_def table_of_def eval_nat_numeral)
  have arg: "cread (cstr ''test'' @ cstr ''all'' @ ?r) 5 = Inr CHR ''a''" by (simp add: cread_def cstr_def)
  have "com_test stack ?st (cstr ''test'' @ cstr ''all'' @ ?r) 5 =
      cbind (com_test_all stack ?st (cstr ''test'' @ cstr ''all'' @ ?r) 9) (\<lambda>(st, buf, _). Inr (st, buf, 0))"
    by (simp add: com_test_def nested_def inner arg)
  then have "main_round (com_test stack) (NUL # slack) st ''test all'' =
      cbind (com_test_all stack ?st (cstr ''test'' @ cstr ''all'' @ ?r) 9) (\<lambda>(st, _, _). Inr st)"
    using strip outer
    by (simp add: main_round_def percent_s_ok strlen_ok cstr_of_cstr cbind_assoc split_def) (simp add: cstr_def cbind_assoc)
  then show ?thesis by blast
qed

section \<open>The broken loop\<close>

text \<open>
  Redrawing gives the first drawn value that is not to be avoided. In the black list test of the destination
  address with one entry the loop never ends if the source address is the entry, and otherwise takes
  any address, the entry too.
\<close>

lemma redraw_avoids: "redraw draw bad rs = Inr (x, rs') \<Longrightarrow> \<not> bad x"
proof (induction draw bad rs rule: redraw.induct)
  case (1 draw bad rs)
  show ?case
  proof (cases "draw rs")
    case (Inr ab)
    obtain a b where ab: "ab = (a, b)" by (cases ab)
    show ?thesis
    proof (cases "bad a \<and> length b < length rs")
      case True
      with "1.prems" Inr ab have "redraw draw bad b = Inr (x, rs')" by (subst (asm) redraw.simps) simp
      then show ?thesis using "1.IH" [OF Inr ab [symmetric]] True by blast
    next
      case False
      with "1.prems" Inr ab show ?thesis by (subst (asm) redraw.simps) (auto split: if_splits)
    qed
  qed (use "1.prems" in \<open>simp add: redraw.simps\<close>)
qed

lemma dstmac_avoid_ends_not: "\<exists>e. dstmac_avoid False [m] m rs = Inl e"
proof -
  have "\<exists>e. redraw random_mac (\<lambda>_. True) rs = Inl e"
    by (cases "redraw random_mac (\<lambda>_. True) rs") (use redraw_avoids [of random_mac "\<lambda>_. True" rs] in auto)
  then show ?thesis by (simp add: dstmac_avoid_def)
qed

lemma dstmac_avoid_any: "srcmac \<noteq> m \<Longrightarrow> dstmac_avoid False [m] srcmac rs = random_mac rs"
  by (simp add: dstmac_avoid_def redraw.simps split: sum.splits)

end
