(* ===== verification/Siphash_Checker.thy ===== *)
theory Siphash_Checker
  imports Admin_Packet Pkt_Sender
begin

text \<open>
  The digest checker, \<^verbatim>\<open>sw/siphash-checker/siphash-checker.cc\<close>: it prints the digest of one fixed
  message. The message is the body of the administration packet of the zero configuration with
  reply type 1, and the key is the client's, so that the printed value is the digest at the end
  of that packet.
\<close>

unbundle bit_operations_syntax

definition checker_key :: "u8 list" where
  "checker_key = le_bytes 8 (0xdecaface1eadf1a9 :: u64) @ le_bytes 8 (0x1713440219990927 :: u64)"

definition checker_data :: "u8 list" where "checker_data = (replicate 120 0)[84 := 0x20]"

text \<open>\<open>%016lx\<close>.\<close>

definition hex016 :: "u64 \<Rightarrow> string" where
  "hex016 w = map (\<lambda>i. hex_low (unat (drop_bit (60 - 4 * i) w AND 0x0f))) [0..<16]"

definition siphash_checker_main :: "console list cres" where
  "siphash_checker_main =
     cbind (siphash checker_data 120 checker_key 8) (\<lambda>out_data.
     Inr [Stdout (hex016 (le_word out_data) @ [NL])])"

definition reply_only :: filter_t where "reply_only = filter_zero\<lparr>replyType := 1\<rparr>"

lemma wf_reply_only: "wf_filter reply_only"
  using wf_filter_zero by (simp add: reply_only_def wf_filter_def)

lemma word_bits_zero: "word_bits n 0 = replicate n False"
  by (auto simp: word_bits_def intro: nth_equalityI)

lemma concat_twice: "concat (replicate 2 xs) = xs @ xs"
  by (simp add: numeral_2_eq_2)

lemma layout_reply_only: "admin_layout reply_only = replicate 677 False @ [True]"
proof -
  have "set (admin_layout filter_zero) \<subseteq> {False}"
    by (simp add: admin_layout_def filter_zero_def mac_zero_def ip_zero_def port_zero_def dns_item_zero_def word_bits_zero
        bytes_bits_replicate_0 concat_twice FILTER_DEPTH_def bswap_16_def flip: replicate_add)
  then have "admin_layout filter_zero = replicate 678 False"
    using length_admin_layout [OF wf_filter_zero] by (intro replicate_eqI) auto
  moreover have "take 677 (admin_layout reply_only) = take 677 (admin_layout filter_zero)"
    using length_admin_layout [OF wf_reply_only] length_admin_layout [OF wf_filter_zero]
    by (simp add: admin_layout_def reply_only_def)
  moreover have one: "word_bits (Suc 0) (1 :: 1 word) = [True]" by (simp add: word_bits_def)
  then have "drop 677 (admin_layout reply_only) = [True]"
    using length_admin_layout [OF wf_reply_only] by (simp add: admin_layout_def reply_only_def)
  ultimately show ?thesis using append_take_drop_id [of 677 "admin_layout reply_only"] by simp
qed

lemma body_reply_only: "admin_body reply_only = checker_data"
proof (rule bytes_bits_inj)
  have split: "checker_data = replicate 84 0 @ [0x20] @ replicate 35 0"
    by (simp add: checker_data_def upd_conv_take_nth_drop)
  have "bytes_bits [0x20] = replicate 5 False @ [True] @ replicate 2 False"
    by (simp add: bytes_bits_def word_bits_def upt_rec eval_nat_numeral)
  then have "bytes_bits checker_data =
      (replicate 672 False @ replicate 5 False) @ [True] @ (replicate 2 False @ replicate 280 False)"
    by (simp add: split bytes_bits_replicate_0)
  then have "bytes_bits checker_data = replicate 677 False @ [True] @ replicate 282 False"
    by (simp only: replicate_add [symmetric]) simp
  then show "bytes_bits (admin_body reply_only) = bytes_bits checker_data"
    by (simp add: bytes_bits_admin_body(1) [OF wf_reply_only] layout_reply_only)
qed

lemma siphash_checker_prints:
  "siphash_checker_main = Inr [Stdout (hex016 (le_word (auth_digest (admin_body reply_only))) @ [NL])]"
proof -
  have len: "length checker_data = 120" by (simp add: checker_data_def)
  have "checker_key = admin_buf_key" by (simp add: checker_key_def admin_buf_key_def)
  then have "siphash checker_data 120 checker_key 8 = Inr (auth_digest checker_data)"
    using auth_digest_siphash(1) [of checker_data] len by simp
  then show ?thesis by (simp add: siphash_checker_main_def body_reply_only)
qed

end
