(* ===== verification/Receiver_Threads.thy ===== *)
theory Receiver_Threads
  imports Receiver
begin

text \<open>
  The two threads around a probe: the receiver daemon of \<^verbatim>\<open>sw/admin-cli/receiver.hh\<close> and the thread
  that resets the flag, sends the probe and polls (\<open>probe_fpga\<close>, \<open>probe_reply_recv\<close>). They share the
  globals without a lock. Here each thread has a program counter, the daemon copies a reply byte
  by byte, and the moves of the threads interleave in any order, one at a time on one memory. The
  theory \<^verbatim>\<open>Receiver\<close> handles a packet in one step; the two models are related by a simulation.
\<close>

section \<open>The threads\<close>

datatype daemon_pc = Recv | Check | Copy nat | Set_Length | Set_Flag
datatype main_pc = Reset | Send | Poll u64 | Return | Answer bool

record threads =
  globals :: receiver
  daemon_at :: daemon_pc
  main_at :: main_pc

text \<open>The move of the daemon at its program counter; \<open>ev\<close> is what \<open>recvfrom\<close> delivers.\<close>

definition daemon_move :: "u8 list option \<Rightarrow> receiver \<times> daemon_pc \<Rightarrow> receiver \<times> daemon_pc" where
  "daemon_move ev = (\<lambda>(g, pc).
     case pc of
       Recv \<Rightarrow> (case trigger_recv g ev of (g, ret) \<Rightarrow> (g, if ret = 0 then Check else Recv))
     | Check \<Rightarrow> (g, if take 6 (drop 6 (recv_pkt_buf g)) = byte probe_dst_mac then Copy 0 else Recv)
     | Copy i \<Rightarrow>
         if i < nat (recv_pkt_length g)
         then (g\<lparr>probe_pkt_buf := (probe_pkt_buf g)[i := recv_pkt_buf g ! i]\<rparr>, Copy (Suc i))
         else (g, Set_Length)
     | Set_Length \<Rightarrow> (g\<lparr>probe_pkt_length := recv_pkt_length g\<rparr>, Set_Flag)
     | Set_Flag \<Rightarrow> (g\<lparr>probe_reply_received := True\<rparr>, Recv))"

text \<open>The move of the polling thread.\<close>

definition main_move :: "u64 \<Rightarrow> receiver \<times> main_pc \<Rightarrow> receiver \<times> main_pc" where
  "main_move us_timeout = (\<lambda>(g, pc).
     case pc of
       Reset \<Rightarrow> (g\<lparr>probe_reply_received := False\<rparr>, Send)
     | Send \<Rightarrow> (g, Poll 0)
     | Poll t \<Rightarrow> (g, if \<not> probe_reply_received g \<and> t \<le> us_timeout then Poll (t + 10) else Return)
     | Return \<Rightarrow> (g, Answer (probe_reply_received g))
     | Answer b \<Rightarrow> (g, Answer b))"

inductive thread_step :: "u64 \<Rightarrow> threads \<Rightarrow> threads \<Rightarrow> bool" for us_timeout where
  daemon: "daemon_move ev (globals s, daemon_at s) = (g, pc) \<Longrightarrow>
    thread_step us_timeout s (s\<lparr>globals := g, daemon_at := pc\<rparr>)"
| main: "main_move us_timeout (globals s, main_at s) = (g, pc) \<Longrightarrow>
    thread_step us_timeout s (s\<lparr>globals := g, main_at := pc\<rparr>)"

inductive_cases thread_stepE: "thread_step us_timeout s t"

text \<open>The same with a packet handled in one step.\<close>

inductive round_step :: "u64 \<Rightarrow> receiver \<times> main_pc \<Rightarrow> receiver \<times> main_pc \<Rightarrow> bool" for us_timeout where
  round: "round_step us_timeout (r, m) (probe_receiver_step r ev, m)"
| main: "round_step us_timeout x (main_move us_timeout x)"

abbreviation thread_run :: "u64 \<Rightarrow> threads \<Rightarrow> threads \<Rightarrow> bool" where
  "thread_run us_timeout \<equiv> (thread_step us_timeout)\<^sup>*\<^sup>*"

abbreviation round_run :: "u64 \<Rightarrow> receiver \<times> main_pc \<Rightarrow> receiver \<times> main_pc \<Rightarrow> bool" where
  "round_run us_timeout \<equiv> (round_step us_timeout)\<^sup>*\<^sup>*"

section \<open>Simulation\<close>

definition board_packet :: "receiver \<Rightarrow> bool" where
  "board_packet g \<longleftrightarrow> take 6 (drop 6 (recv_pkt_buf g)) = byte probe_dst_mac"

text \<open>The globals with the first \<open>i\<close> bytes of a received packet copied aside.\<close>

definition copied :: "nat \<Rightarrow> receiver \<Rightarrow> receiver" where
  "copied i g = g\<lparr>probe_pkt_buf := overlay (take i (recv_pkt_buf g)) (probe_pkt_buf g)\<rparr>"

text \<open>The globals \<open>g\<close> in the middle of a round that started from \<open>a\<close>.\<close>

definition mid_round :: "receiver \<Rightarrow> daemon_pc \<Rightarrow> receiver \<Rightarrow> bool" where
  "mid_round a pc g \<longleftrightarrow> wf_receiver a \<and>
     (if pc = Recv then g = a
      else \<exists>pkt b. b = fst (trigger_recv a (Some pkt)) \<and>
        (case pc of
           Recv \<Rightarrow> False
         | Check \<Rightarrow> g = b
         | Copy i \<Rightarrow> board_packet b \<and> i \<le> nat (recv_pkt_length b) \<and> g = copied i b
         | Set_Length \<Rightarrow> board_packet b \<and> g = copied (nat (recv_pkt_length b)) b
         | Set_Flag \<Rightarrow> board_packet b \<and>
             g = (copied (nat (recv_pkt_length b)) b)\<lparr>probe_pkt_length := recv_pkt_length b\<rparr>))"

lemma copied_simps [simp]:
  "recv_pkt_buf (copied i g) = recv_pkt_buf g" "recv_pkt_length (copied i g) = recv_pkt_length g"
  "probe_reply_received (copied i g) = probe_reply_received g" "board_packet (copied i g) = board_packet g"
  "(copied i g)\<lparr>probe_reply_received := v\<rparr> = copied i (g\<lparr>probe_reply_received := v\<rparr>)" "copied 0 g = g"
  by (simp_all add: copied_def board_packet_def overlay_def)

lemma board_packet_flag [simp]: "board_packet (g\<lparr>probe_reply_received := v\<rparr>) = board_packet g"
  by (simp add: board_packet_def)

lemma copied_Suc:
  assumes "wf_receiver g" "i < BUFFER_SIZE"
  shows "(copied i g)\<lparr>probe_pkt_buf := (probe_pkt_buf (copied i g))[i := recv_pkt_buf g ! i]\<rparr> = copied (Suc i) g"
  using assms
  by (simp add: copied_def overlay_def wf_receiver_def min_def list_update_append take_Suc_conv_app_nth Cons_nth_drop_Suc [symmetric])

lemma received:
  assumes "wf_receiver a"
  shows "wf_receiver (fst (trigger_recv a (Some pkt)))" "nat (recv_pkt_length (fst (trigger_recv a (Some pkt)))) \<le> BUFFER_SIZE"
    "snd (trigger_recv a (Some pkt)) = 0"
  using assms by (simp_all add: trigger_recv_def wf_receiver_def Let_def length_overlay)

lemma round_of_packet:
  "probe_receiver_step a (Some pkt) =
     (let b = fst (trigger_recv a (Some pkt)) in
      if board_packet b
      then (copied (nat (recv_pkt_length b)) b)\<lparr>probe_pkt_length := recv_pkt_length b, probe_reply_received := True\<rparr>
      else b)"
  by (simp add: probe_receiver_step_def trigger_recv_def board_packet_def copied_def Let_def)

lemma round_of_error: "probe_receiver_step a None = fst (trigger_recv a None)"
  by (simp add: probe_receiver_step_def trigger_recv_def)

text \<open>A move of the daemon stays in the round, or ends it.\<close>

lemma daemon_sim:
  assumes "mid_round a pc g" "daemon_move ev (g, pc) = (g', pc')"
  shows "mid_round a pc' g' \<or> (pc' = Recv \<and> (\<exists>ev. g' = probe_receiver_step a ev))"
proof (cases pc)
  case Recv
  show ?thesis
  proof (cases ev)
    case None
    with Recv assms have "g' = probe_receiver_step a None" "pc' = Recv"
      by (auto simp: mid_round_def daemon_move_def round_of_error split: prod.splits) (simp_all add: trigger_recv_def)
    then show ?thesis by blast
  next
    case (Some pkt)
    with Recv assms received(3) [of a pkt] have "g' = fst (trigger_recv a (Some pkt))" "pc' = Check"
      by (auto simp: mid_round_def daemon_move_def split: prod.splits)
    with assms(1) show ?thesis by (auto simp: mid_round_def)
  qed
next
  case Check
  then obtain pkt where b: "wf_receiver a" "g = fst (trigger_recv a (Some pkt))" using assms(1) by (auto simp: mid_round_def)
  show ?thesis
  proof (cases "board_packet g")
    case True
    with Check assms(2) have "g' = g" "pc' = Copy 0" by (auto simp: daemon_move_def board_packet_def)
    with b True show ?thesis by (auto simp: mid_round_def)
  next
    case False
    with Check assms(2) have "g' = g" "pc' = Recv" by (auto simp: daemon_move_def board_packet_def)
    moreover have "g = probe_receiver_step a (Some pkt)" using False b(2) by (simp add: round_of_packet Let_def)
    ultimately show ?thesis by blast
  qed
next
  case (Copy i)
  then obtain pkt b where b: "wf_receiver a" "b = fst (trigger_recv a (Some pkt))" "board_packet b"
      "i \<le> nat (recv_pkt_length b)" "g = copied i b"
    using assms(1) by (auto simp: mid_round_def)
  show ?thesis
  proof (cases "i < nat (recv_pkt_length b)")
    case True
    then have "i < BUFFER_SIZE" using received(2) [OF b(1), of pkt] b(2) by simp
    moreover have "wf_receiver b" using received(1) [OF b(1)] b(2) by simp
    ultimately have "g' = copied (Suc i) b" "pc' = Copy (Suc i)"
      using assms(2) True Copy copied_Suc [of b i] by (auto simp: daemon_move_def b(5))
    then have "mid_round a pc' g'" unfolding mid_round_def using True b(1-3) by auto
    then show ?thesis ..
  next
    case False
    then have "g' = copied (nat (recv_pkt_length b)) b" "pc' = Set_Length"
      using assms(2) Copy b(4) by (auto simp: daemon_move_def b(5) le_antisym)
    then have "mid_round a pc' g'" unfolding mid_round_def using b(1-3) by auto
    then show ?thesis ..
  qed
next
  case Set_Length
  then obtain pkt b where b: "wf_receiver a" "b = fst (trigger_recv a (Some pkt))" "board_packet b"
      "g = copied (nat (recv_pkt_length b)) b"
    using assms(1) by (auto simp: mid_round_def)
  then have "mid_round a pc' g'"
    unfolding mid_round_def using assms(2) Set_Length by (auto simp: daemon_move_def)
  then show ?thesis ..
next
  case Set_Flag
  then obtain pkt b where b: "b = fst (trigger_recv a (Some pkt))" "board_packet b"
      "g = (copied (nat (recv_pkt_length b)) b)\<lparr>probe_pkt_length := recv_pkt_length b\<rparr>"
    using assms(1) by (auto simp: mid_round_def)
  then have "g' = probe_receiver_step a (Some pkt)" "pc' = Recv"
    using assms(2) Set_Flag by (auto simp: daemon_move_def round_of_packet Let_def)
  then show ?thesis by blast
qed

text \<open>A move of the polling thread is the same move before the round.\<close>

lemma mid_round_flag:
  assumes "mid_round a pc g"
  shows "probe_reply_received g = probe_reply_received a"
    "mid_round (a\<lparr>probe_reply_received := v\<rparr>) pc (g\<lparr>probe_reply_received := v\<rparr>)"
proof -
  have com: "fst (trigger_recv (a\<lparr>probe_reply_received := v\<rparr>) ev) = (fst (trigger_recv a ev))\<lparr>probe_reply_received := v\<rparr>" for ev
    by (auto simp: trigger_recv_def Let_def split: option.splits)
  have keep: "probe_reply_received (fst (trigger_recv a ev)) = probe_reply_received a" for ev
    by (auto simp: trigger_recv_def Let_def split: option.splits)
  show "probe_reply_received g = probe_reply_received a"
    using assms by (cases pc) (auto simp: mid_round_def keep)
  have wf: "wf_receiver (a\<lparr>probe_reply_received := v\<rparr>)" using assms by (simp add: mid_round_def wf_receiver_def)
  show "mid_round (a\<lparr>probe_reply_received := v\<rparr>) pc (g\<lparr>probe_reply_received := v\<rparr>)"
  proof (cases pc)
    case Recv
    with assms wf show ?thesis by (simp add: mid_round_def)
  next
    case Set_Flag
    with assms wf show ?thesis by (force simp: mid_round_def com copied_def)
  qed (use assms wf in \<open>auto simp: mid_round_def com\<close>)
qed

lemma main_sim:
  assumes "mid_round a pc g"
  shows "\<exists>a'. main_move us_timeout (a, m) = (a', snd (main_move us_timeout (g, m))) \<and>
    mid_round a' pc (fst (main_move us_timeout (g, m)))"
  using assms mid_round_flag [OF assms] by (cases m) (auto simp: main_move_def)

definition related :: "threads \<Rightarrow> receiver \<times> main_pc \<Rightarrow> bool" where
  "related s x \<longleftrightarrow> mid_round (fst x) (daemon_at s) (globals s) \<and> snd x = main_at s"

lemma thread_step_sim:
  assumes "thread_step us_timeout s t" "related s x"
  shows "\<exists>y. round_run us_timeout x y \<and> related t y"
  using assms(1)
proof (cases rule: thread_step.cases)
  case (daemon ev g pc)
  then consider "mid_round (fst x) pc g" | ev where "pc = Recv" "g = probe_receiver_step (fst x) ev"
    using daemon_sim [of "fst x" "daemon_at s" "globals s" ev] assms(2) by (auto simp: related_def)
  then show ?thesis
  proof cases
    case 1
    with daemon assms(2) have "related t x" by (simp add: related_def)
    then show ?thesis by blast
  next
    case 2
    have "wf_receiver g" using assms(2) by (simp add: 2 step_wf related_def mid_round_def)
    with 2 daemon assms(2) have "related t (g, snd x)" by (auto simp: related_def mid_round_def)
    moreover have "round_run us_timeout x (g, snd x)"
      using round_step.round [of us_timeout "fst x" "snd x" ev] by (simp add: 2 r_into_rtranclp)
    ultimately show ?thesis by blast
  qed
next
  case (main g pc)
  obtain a' where a: "main_move us_timeout x = (a', pc)" "mid_round a' (daemon_at s) g"
    using main_sim [of "fst x" "daemon_at s" "globals s" us_timeout "main_at s"] assms(2) main
    by (cases x) (auto simp: related_def)
  have "round_run us_timeout x (a', pc)" using round_step.main [of us_timeout x] a(1) by auto
  moreover have "related t (a', pc)" using main a(2) by (auto simp: related_def)
  ultimately show ?thesis by blast
qed

lemma thread_run_sim:
  "thread_run us_timeout s t \<Longrightarrow> related s x \<Longrightarrow> \<exists>y. round_run us_timeout x y \<and> related t y"
proof (induction rule: rtranclp_induct)
  case (step t u)
  then obtain y where "round_run us_timeout x y" "related t y" by blast
  with step thread_step_sim show ?case by (meson rtranclp_trans)
qed blast

section \<open>Every round can take place\<close>

definition between :: "receiver \<times> main_pc \<Rightarrow> threads" where
  "between x = \<lparr>globals = fst x, daemon_at = Recv, main_at = snd x\<rparr>"

lemma daemon_stepI:
  "daemon_move ev (g, pc) = (g', pc') \<Longrightarrow>
    thread_run us_timeout \<lparr>globals = g, daemon_at = pc, main_at = m\<rparr> \<lparr>globals = g', daemon_at = pc', main_at = m\<rparr>"
  using thread_step.daemon [of ev "\<lparr>globals = g, daemon_at = pc, main_at = m\<rparr>" g' pc' us_timeout] by auto

lemma copy_run:
  assumes "wf_receiver b" "nat (recv_pkt_length b) \<le> BUFFER_SIZE" "i \<le> nat (recv_pkt_length b)"
  shows "thread_run us_timeout \<lparr>globals = b, daemon_at = Copy 0, main_at = m\<rparr> \<lparr>globals = copied i b, daemon_at = Copy i, main_at = m\<rparr>"
  using assms(3)
proof (induction i)
  case (Suc i)
  then have "daemon_move None (copied i b, Copy i) = (copied (Suc i) b, Copy (Suc i))"
    using copied_Suc [OF assms(1), of i] assms(2) by (simp add: daemon_move_def)
  from daemon_stepI [OF this] Suc show ?case by (meson Suc_leD rtranclp_trans)
qed simp

lemma receive_run:
  assumes "wf_receiver a" "b = fst (trigger_recv a (Some pkt))" "board_packet b" "i \<le> nat (recv_pkt_length b)"
  shows "thread_run us_timeout (between (a, m)) \<lparr>globals = copied i b, daemon_at = Copy i, main_at = m\<rparr>"
proof -
  have "daemon_move (Some pkt) (a, Recv) = (b, Check)"
    using received(3) [OF assms(1), of pkt] assms(2) by (auto simp: daemon_move_def split: prod.splits)
  moreover have "daemon_move None (b, Check) = (b, Copy 0)" using assms(3) by (simp add: daemon_move_def board_packet_def)
  moreover have "wf_receiver b" "nat (recv_pkt_length b) \<le> BUFFER_SIZE" using received [OF assms(1)] assms(2) by simp_all
  ultimately show ?thesis
    unfolding between_def fst_conv snd_conv using copy_run assms(4) by (meson daemon_stepI rtranclp_trans)
qed

lemma round_realised:
  assumes "wf_receiver a"
  shows "thread_run us_timeout (between (a, m)) (between (probe_receiver_step a ev, m))"
proof (cases ev)
  case None
  have "daemon_move None (a, Recv) = (probe_receiver_step a None, Recv)"
    by (simp add: daemon_move_def round_of_error split: prod.splits) (simp add: trigger_recv_def)
  with None show ?thesis unfolding between_def fst_conv snd_conv using daemon_stepI by blast
next
  case (Some pkt)
  let ?b = "fst (trigger_recv a (Some pkt))"
  show ?thesis
  proof (cases "board_packet ?b")
    case True
    let ?n = "nat (recv_pkt_length ?b)"
    let ?g = "(copied ?n ?b)\<lparr>probe_pkt_length := recv_pkt_length ?b\<rparr>"
    have "daemon_move None (copied ?n ?b, Copy ?n) = (copied ?n ?b, Set_Length)"
      "daemon_move None (copied ?n ?b, Set_Length) = (?g, Set_Flag)"
      "daemon_move None (?g, Set_Flag) = (probe_receiver_step a (Some pkt), Recv)"
      using True by (simp_all add: daemon_move_def round_of_packet Let_def)
    moreover have "thread_run us_timeout (between (a, m)) \<lparr>globals = copied ?n ?b, daemon_at = Copy ?n, main_at = m\<rparr>"
      using assms True by (intro receive_run) simp_all
    ultimately show ?thesis
      unfolding Some between_def fst_conv snd_conv by (meson daemon_stepI rtranclp_trans)
  next
    case False
    have "daemon_move (Some pkt) (a, Recv) = (?b, Check)"
      using received(3) [OF assms, of pkt] by (auto simp: daemon_move_def split: prod.splits)
    moreover have "daemon_move None (?b, Check) = (probe_receiver_step a (Some pkt), Recv)"
      using False by (simp add: daemon_move_def board_packet_def round_of_packet Let_def)
    ultimately show ?thesis
      unfolding Some between_def fst_conv snd_conv by (meson daemon_stepI rtranclp_trans)
  qed
qed

lemma main_realised: "thread_run us_timeout (between x) (between (main_move us_timeout x))"
  using thread_step.main [of us_timeout "between x" "fst (main_move us_timeout x)" "snd (main_move us_timeout x)"]
  by (auto simp: between_def)

lemma main_move_wf: "wf_receiver (fst x) \<Longrightarrow> wf_receiver (fst (main_move us_timeout x))"
  by (cases x; cases "snd x") (auto simp: main_move_def wf_receiver_def)

lemma round_run_realised:
  "round_run us_timeout x y \<Longrightarrow> wf_receiver (fst x) \<Longrightarrow> wf_receiver (fst y) \<and> thread_run us_timeout (between x) (between y)"
proof (induction rule: rtranclp_induct)
  case (step y z)
  from step(2) have "wf_receiver (fst z) \<and> thread_run us_timeout (between y) (between z)"
    using step(3) [OF step(4)] round_realised main_realised by (cases rule: round_step.cases) (auto simp: step_wf main_move_wf)
  with step show ?case by (meson rtranclp_trans)
qed simp

text \<open>Between two packets the interleaved threads and the rounds reach the same states.\<close>

lemma thread_run_iff_round_run:
  assumes "wf_receiver (fst x)"
  shows "thread_run us_timeout (between x) (between y) \<longleftrightarrow> round_run us_timeout x y"
proof
  assume "thread_run us_timeout (between x) (between y)"
  moreover have "related (between x) x" using assms by (simp add: related_def between_def mid_round_def)
  ultimately obtain z where "round_run us_timeout x z" "related (between y) z" using thread_run_sim by blast
  moreover from this(2) have "z = y" by (auto simp: related_def between_def mid_round_def prod_eq_iff)
  ultimately show "round_run us_timeout x y" by simp
qed (simp add: round_run_realised assms)

section \<open>The schedules of the receiver theory\<close>

lemma daemon_rounds_run: "round_run us_timeout (r, m) (daemon_rounds r evs, m)"
proof (induction evs arbitrary: r)
  case (Cons ev evs)
  have "round_step us_timeout (r, m) (probe_receiver_step r ev, m)" by (rule round_step.round)
  with Cons [of "probe_receiver_step r ev"] show ?case by (simp add: daemon_rounds_def)
qed (simp add: daemon_rounds_def)

lemma main_stepI: "main_move us_timeout x = y \<Longrightarrow> round_run us_timeout x y"
  using round_step.main [of us_timeout x] by auto

lemma probe_wait_run:
  assumes "probe_wait env us_timeout k t r = Some y"
  shows "round_run us_timeout (r, Poll t) (fst y, Return)"
proof (rule probe_wait.raw_induct [where P = "\<lambda>env us_timeout k t r y. round_run us_timeout (r, Poll t) (fst y, Return)", OF _ assms])
  fix wait and env :: schedule and us_timeout t :: u64 and k r y
  assume IH: "\<And>env us_timeout k t r y. wait env us_timeout k t r = Some y \<Longrightarrow> round_run us_timeout (r, Poll t) (fst y, Return)"
    and body: "(if \<not> probe_reply_received r \<and> t \<le> us_timeout
      then wait env us_timeout (Suc k) (t + 10) (daemon_rounds r (env k)) else Some (r, k)) = Some y"
  show "round_run us_timeout (r, Poll t) (fst y, Return)"
  proof (cases "\<not> probe_reply_received r \<and> t \<le> us_timeout")
    case True
    then have "round_run us_timeout (r, Poll t) (r, Poll (t + 10))" by (intro main_stepI) (simp add: main_move_def)
    moreover have "round_run us_timeout (r, Poll (t + 10)) (daemon_rounds r (env k), Poll (t + 10))" by (rule daemon_rounds_run)
    moreover have "round_run us_timeout (daemon_rounds r (env k), Poll (t + 10)) (fst y, Return)" using True body IH by simp
    ultimately show ?thesis by (meson rtranclp_trans)
  next
    case False
    with body show ?thesis by (intro main_stepI) (auto simp: main_move_def)
  qed
qed

lemma probe_reply_recv_run:
  assumes "probe_reply_recv env us_timeout k r = Some (r', k')"
  shows "round_run us_timeout (r, Poll 0) (r', Answer (probe_reply_received r'))"
proof -
  have "round_run us_timeout (r, Poll 0) (r', Return)" using assms probe_wait_run by (fastforce simp: probe_reply_recv_def)
  moreover have "round_run us_timeout (r', Return) (r', Answer (probe_reply_received r'))"
    by (rule main_stepI) (simp add: main_move_def)
  ultimately show ?thesis by (rule rtranclp_trans)
qed

section \<open>A second reply\<close>

lemma torn_reply:
  assumes "wf_receiver a" "is_frame p" "is_frame q" "from_board p" "from_board q" "length p = length q" "i \<le> length q"
  shows "\<exists>s. thread_run us_timeout (between (a, Reset)) s \<and> main_at s = Answer True \<and> daemon_at s = Copy i \<and>
    probe_pkt_length (globals s) = int (length p) \<and> take (length p) (probe_pkt_buf (globals s)) = take i q @ drop i p"
proof -
  let ?a = "a\<lparr>probe_reply_received := False\<rparr>"
  let ?r = "probe_receiver_step ?a (Some p)"
  let ?b = "fst (trigger_recv ?r (Some q))"
  have wf: "wf_receiver ?a" "wf_receiver ?r" using assms(1) step_wf [of ?a] by (simp_all add: wf_receiver_def)
  have r: "probe_reply_received ?r" "captured ?r p" using step_frame [OF wf(1) assms(2)] assms(4) by simp_all
  have "round_run us_timeout (a, Reset) (?a, Send)" "round_run us_timeout (?r, Send) (?r, Poll 0)"
    "round_run us_timeout (?r, Poll 0) (?r, Return)" "round_run us_timeout (?r, Return) (?r, Answer True)"
    using r(1) by (auto simp: main_move_def intro: main_stepI)
  moreover have "round_run us_timeout (?a, Send) (?r, Send)" by (simp add: round_step.round r_into_rtranclp)
  ultimately have "round_run us_timeout (a, Reset) (?r, Answer True)" by (meson rtranclp_trans)
  then have run: "thread_run us_timeout (between (a, Reset)) (between (?r, Answer True))"
    using round_run_realised assms(1) by simp
  have b: "board_packet ?b" "nat (recv_pkt_length ?b) = length q"
    "probe_pkt_buf ?b = probe_pkt_buf ?r" "probe_pkt_length ?b = probe_pkt_length ?r" "take (length q) (recv_pkt_buf ?b) = q"
    using assms(3,5) by (simp_all add: trigger_recv_def board_packet_def overlay_def is_frame_def from_board_def Let_def)
  have "thread_run us_timeout (between (?r, Answer True)) \<lparr>globals = copied i ?b, daemon_at = Copy i, main_at = Answer True\<rparr>"
    using b assms(7) by (intro receive_run [OF wf(2)]) simp_all
  with run have "thread_run us_timeout (between (a, Reset)) \<lparr>globals = copied i ?b, daemon_at = Copy i, main_at = Answer True\<rparr>"
    by (rule rtranclp_trans)
  moreover have "take i (recv_pkt_buf ?b) = take i q" using arg_cong [OF b(5), of "take i"] assms(7) by simp
  then have "take (length p) (probe_pkt_buf (copied i ?b)) = take i q @ take (length p - i) (drop i (probe_pkt_buf ?r))"
    using assms(6,7) b(3) by (simp add: copied_def overlay_def)
  moreover have "take (length p - i) (drop i (probe_pkt_buf ?r)) = drop i p"
    using r(2) by (simp add: captured_def flip: drop_take)
  moreover have "probe_pkt_length (copied i ?b) = int (length p)" using r(2) b(4) by (simp add: copied_def captured_def)
  ultimately show ?thesis by (intro exI [of _ "\<lparr>globals = copied i ?b, daemon_at = Copy i, main_at = Answer True\<rparr>"]) simp
qed

end
