(* ===== verification/Spec2Isabelle.thy ===== *)
theory Spec2Isabelle
  imports Launch Completion Crc32 Admin_Builder Spartan_Tools Validation_Verdict Siphash_Checker Receiver_Threads
begin

text \<open>
  \<^bold>\<open>The program.\<close> The repository is a DNS filter on an FPGA board and the software beside it, under \<^verbatim>\<open>src/sw\<close>. The
  administration client (\<^verbatim>\<open>admin-cli\<close>) is an interactive shell. It keeps two filter configurations, the one it
  believes the board has (\<open>f\<close>) and the one being edited (\<open>f_curr\<close>), edits the second, saves it to and loads it from
  files, sends it to the board in an authenticated administration packet, and probes the board for the configuration
  and counters it has. Beside it stand a packet builder, a test sender and a packet monitor (\<^verbatim>\<open>fpga-prober\<close>), a
  checker of Ethernet checksums (\<^verbatim>\<open>eth-crc32-checker\<close>), a checker of the digest (\<^verbatim>\<open>siphash-checker\<close>) and the senders and
  monitors for an earlier board (\<^verbatim>\<open>DEPRECATED-spartan3e\<close>).

  \<^bold>\<open>How the parts interact.\<close> A line is read, split and dispatched through tables of commands. The edit commands parse
  addresses and change \<open>f_curr\<close>. \<open>save\<close> and \<open>apply\<close> write it through a buffered bit writer, field by field, with the
  SipHash digest of the padded fields at the end. \<open>apply\<close> reads the file back into the payload buffer, forms an Ethernet
  frame around it in the global packet buffer, sends it, and probes: it resets a flag, sends a probe frame and polls the
  flag, which a daemon thread sets after copying a reply aside; the reply is decoded bit by bit and compared with \<open>f_curr\<close>. \<open>test\<close>
  configures the board in the same way, with drawn filter entries, and then sends packets and polls the receive buffer for each of
  them to come back, or not to.

  \<^bold>\<open>Theories and sources.\<close> File names are below \<^verbatim>\<open>src/sw/admin-cli\<close> unless they name a directory.

  \<^item> \<^verbatim>\<open>Adtm_Prelude\<close>: word types, faults, the combinators \<open>cbind\<close>, \<open>cmap\<close>, \<open>cfold\<close>, array accesses, when a computation runs
    outside an object (\<open>faults_iff\<close>), bytes as bit streams.
  \<^item> \<^verbatim>\<open>Fpga\<close>: the structures of \<^verbatim>\<open>fpga.hh\<close>, \<^verbatim>\<open>const.hh\<close> and \<^verbatim>\<open>fpga-const.hh\<close>, the IP checksum.
  \<^item> \<^verbatim>\<open>Siphash\<close>: \<^verbatim>\<open>siphash-ref-impl/siphash.c\<close> and, apart from it, the algorithm as published, with its test vector.
  \<^item> \<^verbatim>\<open>Bit_Reverse\<close>, \<^verbatim>\<open>Bit_Sink\<close>, \<^verbatim>\<open>Fpga_Filter\<close>, \<^verbatim>\<open>Admin_Packet\<close>, \<^verbatim>\<open>Fpga_Print\<close>: \<^verbatim>\<open>fpga-filter.hh\<close>. The locale \<open>bit_sink\<close>
    is the contract of a bit writer (what a write appends, what closing pads); the client's writer and the builder's
    interpret it.
  \<^item> \<^verbatim>\<open>Bit_Extract\<close>, \<^verbatim>\<open>Fpga_Prober\<close>: the decoder of \<^verbatim>\<open>fpga-prober.hh\<close>.
  \<^item> \<^verbatim>\<open>Net_Ops\<close>, \<^verbatim>\<open>Sender\<close>, \<^verbatim>\<open>Receiver\<close>: \<^verbatim>\<open>net-ops.hh\<close>, \<^verbatim>\<open>sender.hh\<close>, \<^verbatim>\<open>receiver.hh\<close>; \<^verbatim>\<open>Receiver_Threads\<close>: the two threads
    of the receiver as interleaved moves (\<open>thread_step\<close>) and as whole rounds (\<open>round_step\<close>).
  \<^item> \<^verbatim>\<open>C_String\<close>, \<^verbatim>\<open>Addr_Text\<close>: \<^verbatim>\<open>string-ops.hh\<close>, the parsers of \<^verbatim>\<open>commands/admin-edit.hh\<close> (locale \<open>field_parser\<close>, interpreted for
    both kinds of address).
  \<^item> \<^verbatim>\<open>Admin_Edit\<close>, \<^verbatim>\<open>Edit_Refinement\<close>: the edit commands; the locale \<open>filter_section\<close>, interpreted for the seven sections of a
    configuration, proves once what adding to and removing from a section does to the abstract configuration.
  \<^item> \<^verbatim>\<open>Cli_State\<close>, \<^verbatim>\<open>Commands\<close>, \<^verbatim>\<open>Admin_Commands\<close>, \<^verbatim>\<open>Session\<close>, \<^verbatim>\<open>Completion\<close>, \<^verbatim>\<open>Launch\<close>: the globals of the client (record \<open>cli\<close>),
    \<^verbatim>\<open>commands.hh\<close> and \<^verbatim>\<open>commands\<close>, \<^verbatim>\<open>file-ops.hh\<close>, probing, \<^verbatim>\<open>completion.hh\<close>, \<^verbatim>\<open>args-parser.hh\<close> and \<^verbatim>\<open>main.cc\<close>.
  \<^item> \<^verbatim>\<open>Validation\<close>: \<^verbatim>\<open>commands/test.hh\<close> and the suites \<^verbatim>\<open>commands/tests/*.hh\<close>. A test is a \<open>run_test\<close> with the draw of its
    configuration and its stages of ten packets; the 36 tests of six address fields are six definitions over colour and number
    of entries. \<^verbatim>\<open>Validation_Verdict\<close>: what the verdicts mean.
  \<^item> \<^verbatim>\<open>Crc32\<close>: \<^verbatim>\<open>eth-crc32-checker/crc32-checker.c\<close>, with division of polynomials over two elements.
  \<^item> \<^verbatim>\<open>Admin_Builder\<close>, \<^verbatim>\<open>Pkt_Sender\<close>, \<^verbatim>\<open>Pkt_Receiver\<close>: \<^verbatim>\<open>fpga-prober\<close>; the locale \<open>entry_parser\<close> is the filling of a table of
    addresses, interpreted for \<open>parse_mac\<close> and \<open>parse_ip\<close>. \<^verbatim>\<open>Siphash_Checker\<close>: \<^verbatim>\<open>siphash-checker\<close>.
  \<^item> \<^verbatim>\<open>Spartan_Tools\<close>: the four senders and two monitors of \<^verbatim>\<open>DEPRECATED-spartan3e\<close>; the UDP packets are related to the client's
    \<open>form_packet\<close>.

  \<^bold>\<open>Conventions.\<close> An operation returns \<open>Inr\<close> of its result or \<open>Inl\<close> of a fault; the faults are accesses outside an object, a
  null \<open>FILE*\<close>, a failed assertion and an overflowing \<open>atoi\<close>. The behaviour is that of x86-64: little-endian words, shift
  amounts taken modulo 64 where C++ leaves the shift undefined. \<open>memcmp\<close> of two configurations is equality of the records: the
  padding bytes of the structure are not modelled. What the program does not compute is a parameter: the files and which
  of them open, the results of \<open>rand\<close>, \<open>recvfrom\<close>, \<open>sendto\<close>, \<open>getopt\<close>, \<open>fscanf\<close> and the other system calls, the error texts, the
  bytes behind a line in memory, and the uninitialised bytes of the DNS tests. The table of top-level commands takes the handler of
  \<open>test\<close> as an argument; results about the other commands hold for any, those about validation for \<open>com_test\<close>.

  \<^bold>\<open>What is shown.\<close> The sections below, in order.

  \<^item> The administration packet: its exact bytes, reading it back, the decoder as a bijection on the fields, probe replies.
  \<^item> Bits, hash and checksum: the bit writer refines a stream, bit extraction is a slice, the optimised bit reversals
    equal their definitions, the in-place SipHash the published SipHash-2-4, the IP checksum verifies on the first packet and is zero on the second.
  \<^item> The session: \<open>apply\<close> succeeds exactly if the board answers with the configuration, where a board that is not heard counts as
    having the zero configuration; a probe ends in bounded time; saving and loading; launch, completion and quitting.
  \<^item> Editing: the commands refine operations on lists of entries, and every reachable configuration can be shown, saved and loaded;
    exactly which texts overrun the address parsers and which decoded configurations the printer.
  \<^item> The frame checker: the register algorithm is polynomial division, single bit errors are found, and its limits.
  \<^item> Text: parsing inverts printing, trimming, dispatch.
  \<^item> The stand-alone tools: the builder's file and check value, the packets of the test sender, the faults in its arguments, the
    interface of the monitor, the value of the digest checker; the packets of the tools for the earlier board, with the addresses their
    store past the destination damages and the stale bytes they carry, and the report of their monitor.
  \<^item> Validation: a silent board is always reported, though seven suites take its silence for a confirmation; what \<open>test all\<close> and
    \<open>test f-fail\<close> report of a run; and, for every schedule of arrivals, which packets count as received or blocked.
  \<^item> Interleaving: a packet handled in many moves and in one step give the same states between packets; a second reply can tear
    the first.

  \<^bold>\<open>Bounds and termination.\<close> \<open>probe_wait\<close>, with its 64-bit clock, and the checksum loop \<open>crc_loop\<close>, with its 8-bit counter, are partial
  functions into \<open>option\<close>: that the first returns after at most 101 polls for the client's timeout, and for which frames the second
  returns or does not, is proved. Drawing random addresses consumes a list and ends in \<open>Unfinished\<close> when it is too short; a
  sufficient length is part of the statements; a validation beside a silent board takes at most 392. The
  line editor's calls of the completion generator are bounded by one more than the number of commands, which is proved to exhaust
  it. The endless loops of the sender and the monitor run over the results of the
  system calls they make. All other functions are total.

  \<^bold>\<open>Not modelled.\<close> The hardware description of the board; the kernel's side of the sockets; the line editor beyond the
  calls it makes and the lines it returns; seeding of the random numbers; the order of memory accesses between the threads beyond
  interleaving.
\<close>

section \<open>The administration packet\<close>

text \<open>
  C1. Writing a well-formed configuration with \<open>write_to_admin_pkt\<close> from an idle writer
  produces exactly the wire format: the 678 bits of the fields in order, zero padding to 120
  bytes, and the 8 byte SipHash digest of those bytes; the writer is idle again afterwards.
\<close>

theorem admin_packet_written:
  assumes "wf_filter f" and "admin_idle st"
  shows "\<exists>t. write_to_admin_pkt True st f = Inr t \<and> admin_idle t \<and>
    admin_file t = admin_body f @ auth_digest (admin_body f) \<and> length (admin_file t) = 128 \<and>
    bytes_bits (admin_body f) = admin_layout f @ replicate 282 False"
  using write_to_admin_pkt_refines [OF assms] stands_at_admin_packet(2) [OF assms(1)]
    bytes_bits_admin_body(1) [OF assms(1)]
  by (auto simp: admin_packet_def)

lemma admin_idle_init: "admin_idle admin_io_init"
  by (simp add: admin_idle_def admin_io_init_def)

theorem admin_packet_written_witness:
  "wf_filter initialise_fpga_configuration \<and> admin_idle admin_io_init \<and>
   (\<exists>t. write_to_admin_pkt True admin_io_init initialise_fpga_configuration = Inr t \<and> length (admin_file t) = 128)"
  using admin_packet_written [OF wf_initial_configuration admin_idle_init]
    wf_initial_configuration admin_idle_init by blast

text \<open>
  C2. A saved configuration is loaded back unchanged: parsing the file that
  \<open>write_to_admin_pkt\<close> wrote, whatever else the read buffer holds behind it, gives the configuration.
\<close>

theorem save_load_roundtrip:
  assumes "wf_filter f" and "admin_idle st"
  shows "\<exists>t. write_to_admin_pkt True st f = Inr t \<and>
    parse_admin_bin fc (admin_file t @ stale) (length (admin_file t)) = Inr f"
proof -
  obtain t where t: "write_to_admin_pkt True st f = Inr t" "admin_file t = admin_packet f"
    using write_to_admin_pkt_refines [OF assms] by blast
  have "stands_at (admin_packet f @ stale) 0 (admin_layout f)"
    using stands_at_admin_packet [OF assms(1)] length_admin_layout [OF assms(1)] by (simp add: stands_at_def)
  then have "parse_admin_bin fc (admin_packet f @ stale) 128 = Inr f"
    by (rule parse_admin_bin_layout [OF assms(1)]) simp
  with t show ?thesis using stands_at_admin_packet(2) [OF assms(1)] by auto
qed

theorem save_load_roundtrip_witness:
  "\<exists>t. write_to_admin_pkt True admin_io_init initialise_fpga_configuration = Inr t \<and>
     parse_admin_bin filter_zero (admin_file t @ [1, 2, 3]) (length (admin_file t)) = Inr initialise_fpga_configuration"
  using save_load_roundtrip [OF wf_initial_configuration admin_idle_init, of filter_zero "[1, 2, 3]"] .

text \<open>
  C3. Decoding is the inverse of the wire format: a payload of at least 85 bytes always
  decodes, without a fault, to the one well-formed configuration whose layout is its first 678
  bits; a shorter one leaves the current configuration in place.
\<close>

theorem parse_admin_bin_bijective:
  assumes "85 \<le> length payload"
  shows "(len < 85 \<longrightarrow> parse_admin_bin fc payload len = Inr fc) \<and>
    (85 \<le> len \<longrightarrow> (\<exists>f. parse_admin_bin fc payload len = Inr f \<and> wf_filter f \<and>
      admin_layout f = take 678 (bytes_bits payload) \<and>
      (\<forall>g. wf_filter g \<and> admin_layout g = take 678 (bytes_bits payload) \<longrightarrow> g = f)))"
proof (intro conjI impI)
  show "len < 85 \<Longrightarrow> parse_admin_bin fc payload len = Inr fc" by (simp add: parse_admin_bin_def)
next
  assume len: "85 \<le> len"
  then obtain f where f: "parse_admin_bin fc payload len = Inr f" "wf_filter f"
    "admin_layout f = take 678 (bytes_bits payload)" using parse_admin_bin_total [OF assms] by metis
  moreover have "g = f" if "wf_filter g" "admin_layout g = take 678 (bytes_bits payload)" for g
  proof -
    have "stands_at payload 0 (admin_layout g)" using that assms by (simp add: stands_at_def)
    then have "parse_admin_bin fc payload len = Inr g" by (rule parse_admin_bin_layout [OF that(1) _ len])
    with f(1) show ?thesis by simp
  qed
  ultimately show "\<exists>f. parse_admin_bin fc payload len = Inr f \<and> wf_filter f \<and>
      admin_layout f = take 678 (bytes_bits payload) \<and>
      (\<forall>g. wf_filter g \<and> admin_layout g = take 678 (bytes_bits payload) \<longrightarrow> g = f)" by blast
qed

theorem parse_admin_bin_bijective_witness:
  "parse_admin_bin filter_zero (replicate 85 0) 3 = Inr filter_zero \<and>
   (\<exists>f. parse_admin_bin filter_zero (replicate 85 0) 85 = Inr f \<and> wf_filter f)"
proof -
  have len: "85 \<le> length (replicate 85 (0 :: u8))" by simp
  note short = conjunct1 [OF parse_admin_bin_bijective [OF len, of 3 filter_zero]]
  note long = conjunct2 [OF parse_admin_bin_bijective [OF len, of 85 filter_zero], THEN mp, OF order_refl]
  from long obtain f where "parse_admin_bin filter_zero (replicate 85 0) 85 = Inr f" "wf_filter f" by (elim exE conjE)
  with short show ?thesis by (intro conjI exI) simp_all
qed

text \<open>
  C4. The reply of the board is decoded field by field: when the payload behind the 42 header
  bytes is the layout of a configuration followed by the five 64-bit counters, a packet reported
  with at least 152 bytes yields exactly them, and one reported with 24 to 151 bytes is refused. The length check
  subtracts 24 in unsigned arithmetic: with fewer than 24 bytes reported, the contents of the buffer are decoded.
\<close>

theorem probe_reply_parsed:
  assumes "wf_filter f" and "stands_at (drop HEADERS_SIZE pkt) 0 (admin_layout f @ stats_bits s)"
  shows "parse_probe_pkt fc pkt len =
    Inr (if 24 \<le> len \<and> len < 152 then probe_response_zero else \<lparr>pr_f = f, pr_s = s\<rparr>)"
proof -
  let ?p = "drop HEADERS_SIZE pkt"
  have at: "stands_at ?p 0 (admin_layout f)" "stands_at ?p 678 (stats_bits s)"
    using assms(2) by (simp_all add: stands_at_append length_admin_layout [OF assms(1)])
  have "unat len < 2 ^ 64" using unsigned_less [of len, where 'a = nat] by simp
  then have "128 \<le> unat (len - 24) \<longleftrightarrow> \<not> (24 \<le> len \<and> len < 152)"
    by (auto simp: unat_sub_if' word_less_nat_alt word_le_nat_alt)
  then show ?thesis
    using parse_admin_bin_layout [OF assms(1) at(1), of "unat (len - 24)" fc] parse_stats_stands_at [OF at(2)]
    by (auto simp: parse_probe_pkt_def Let_def word_less_nat_alt)
qed

lemma zero_reply:
  "stands_at (drop HEADERS_SIZE (replicate 167 0)) 0
     (admin_layout (layout_filter (replicate 678 False)) @ stats_bits stats_zero)"
proof -
  have "drop HEADERS_SIZE (replicate 167 0) = (replicate 125 0 :: u8 list)" by (simp add: HEADERS_SIZE_def)
  moreover have "word_bits 64 (0 :: u64) = replicate 64 False" by (rule nth_equalityI) simp_all
  then have "stats_bits stats_zero = replicate 320 False" by (simp add: stats_bits_def stats_zero_def flip: replicate_add)
  ultimately show ?thesis
    by (simp add: stands_at_def admin_layout_layout_filter bytes_bits_replicate_0 flip: replicate_add)
qed

theorem probe_reply_parsed_witness:
  "parse_probe_pkt filter_zero (replicate 167 0) 152 =
     Inr \<lparr>pr_f = layout_filter (replicate 678 False), pr_s = stats_zero\<rparr> \<and>
   parse_probe_pkt filter_zero (replicate 167 0) 0 =
     Inr \<lparr>pr_f = layout_filter (replicate 678 False), pr_s = stats_zero\<rparr>"
  using probe_reply_parsed [OF wf_layout_filter zero_reply, of filter_zero 152]
    probe_reply_parsed [OF wf_layout_filter zero_reply, of filter_zero 0] by simp

text \<open>
  C13. \<open>extract_bits_from_arr\<close> reads, for every range of at most 64 bits inside the array,
  exactly that slice of the array's bit stream, least significant bit first.
\<close>

theorem extract_bits_slice:
  assumes "s \<le> e" and "e - s < 64" and "e div 8 < length pkt"
  shows "\<exists>w. extract_bits_from_arr pkt s e = Inr w \<and>
    word_bits 64 w = take (Suc e - s) (drop s (bytes_bits pkt)) @ replicate (63 - (e - s)) False"
proof -
  let ?xs = "take (Suc e - s) (drop s (bytes_bits pkt))"
  have "e < 8 * length pkt" using assms(3) by (simp add: div_less_iff_less_mult mult.commute)
  then have "length ?xs = Suc e - s" using assms(1) by simp
  then have "word_bits 64 (word_of_bits ?xs :: u64) = ?xs @ replicate (63 - (e - s)) False"
    using assms by (intro nth_equalityI) (auto simp: bit_word_of_bits nth_append)
  with extract_bits_ok [OF assms] show ?thesis by blast
qed

theorem extract_bits_slice_witness:
  "\<exists>w. extract_bits_from_arr [0x80, 0x01, 0xff] 7 10 = Inr w \<and>
     word_bits 64 w = take 4 (drop 7 (bytes_bits [0x80, 0x01, 0xff])) @ replicate 60 False"
  using extract_bits_slice [of 7 10 "[0x80, 0x01, 0xff]"] by simp

text \<open>
  C12. The bit writer: any sequence of writes of 1 to 30 bits that fits the 128 byte packet
  succeeds and appends exactly the low bits of each value, in order, to the bits written so far.
\<close>

theorem bit_writer_appends:
  assumes "admin_ok st" and "list_all narrow_call calls" and "admin_room st (length (calls_bits calls))"
  shows "\<exists>t. write_calls st calls = Inr t \<and> admin_ok t \<and> admin_stream t = admin_stream st @ calls_bits calls"
  using admin_sink.put_all [OF assms(1,2), of 0] assms(3) by auto

theorem bit_writer_appends_witness:
  "\<exists>t. write_calls (admin_io_init\<lparr>admin_pkt := Some []\<rparr>) [(5, 3), (0xabcd, 16)] = Inr t \<and>
     admin_stream t = word_bits 3 (5 :: u64) @ word_bits 16 (0xabcd :: u64)"
proof -
  let ?s = "admin_io_init\<lparr>admin_pkt := Some []\<rparr>"
  have "admin_ok ?s" "admin_stream ?s = []"
    by (simp_all add: admin_ok_def admin_io_init_def admin_file_def admin_stream_def pending_def)
  with bit_writer_appends [of ?s "[(5, 3), (0xabcd, 16)]"] show ?thesis
    by (auto simp: narrow_call_def admin_room_def call_bits_def)
qed

section \<open>Bits, hash and checksum\<close>

text \<open>
  C14. The in-place SipHash routine, with its fall-through tail, computes the message
  authentication code of the published SipHash-2-4 (pad, split in words, two rounds for each, four to finish, with rounds written
  apart from the routine's) for every message, key and both output lengths; any other output length fails the
  assertion. On the published test vector it gives the published digest.
\<close>

theorem siphash_is_siphash:
  assumes "inlen \<le> length inp" and "16 \<le> length k"
  shows "siphash inp inlen k outlen =
    (if outlen = 8 \<or> outlen = 16
     then Inr (concat (map (le_bytes 8) (siphash_spec (outlen = 16) (le_word (take 8 k)) (le_word (take 8 (drop 8 k)))
            (take inlen inp))))
     else Inl AssertFailed)"
  using siphash_eq_spec [OF assms, of outlen] by (simp add: siphash_def)

theorem siphash_is_siphash_witness:
  "siphash (map of_nat [0..<15]) 15 (map of_nat [0..<16]) 8 = Inr (le_bytes 8 (0xa129ca6149be45e5 :: u64))
   \<and> siphash [1, 2, 3] 3 (replicate 16 0) 7 = Inl AssertFailed"
proof
  have "siphash (map of_nat [0..<15]) 15 (map of_nat [0..<16]) 8 =
      Inr (concat (map (le_bytes 8) (siphash_spec False 0x706050403020100 0xf0e0d0c0b0a0908 (map of_nat [0..<15]))))"
    using siphash_is_siphash [of 15 "map of_nat [0..<15]" "map of_nat [0..<16]" 8] by (simp add: vector_key)
  then show "siphash (map of_nat [0..<15]) 15 (map of_nat [0..<16]) 8 = Inr (le_bytes 8 (0xa129ca6149be45e5 :: u64))"
    by (simp only: siphash_vector) simp
qed (use siphash_is_siphash [of 3 "[1, 2, 3]" "replicate 16 0" 7] in simp)

text \<open>
  C15. The two bit tricks of the writer are reversals: \<open>reverse_bits_64\<close>, a logarithmic loop of
  masked swaps, reverses the 64 bits of a word, and the multiply-and-modulus step of
  \<open>reverse_bits_byte_64\<close> reverses the bits inside each byte.
\<close>

theorem bit_reversals:
  "word_bits 64 (reverse_bits_64 n) = rev (word_bits 64 n) \<and>
   le_bytes 8 (reverse_bits_byte_64 n) = map (\<lambda>b. word_of_bits (rev (word_bits 8 b))) (le_bytes 8 n)"
proof
  show "word_bits 64 (reverse_bits_64 n) = rev (word_bits 64 n)"
    by (rule nth_equalityI) (simp_all add: bit_reverse_bits_64 rev_nth)
  have "le_bytes 8 (le_word bs :: u64) = bs" if "length bs = 8" for bs
    using that le_bytes_le_word [where 'a = 64, of bs] by simp
  then show "le_bytes 8 (reverse_bits_byte_64 n) = map (\<lambda>b. word_of_bits (rev (word_bits 8 b))) (le_bytes 8 n)"
    by (auto simp: reverse_bits_byte_64_def bit_word_of_bits bit_reverse_bits_byte rev_nth intro!: bit_word_eqI)
qed

text \<open>
  C16. A packet formed while the buffer's checksum field is zero is the frame of its arguments,
  and its IPv4 header verifies: the checksum over the finished header is zero. The field is not cleared first, so forming
  the same packet again over that buffer stores the checksum zero.
\<close>

theorem first_packet_verifies:
  assumes "wf_mac s" and "wf_mac d" and "wf_ip si" and "wf_ip di" and "n \<le> length pl" and "42 + n \<le> length buf"
    and "take 2 (drop 24 buf) = [0, 0]"
  shows "\<exists>buf' c. form_packet buf s d si di sp dp pl n = Inr (buf', n) \<and>
    trigger_send buf' n = Inr (frame (take 2 (drop 20 buf)) (store16 c) s d si di sp dp (take n pl)) \<and>
    IPchecksum (ip_words buf') 10 = Inr 0 \<and>
    (\<exists>buf''. form_packet buf' s d si di sp dp pl n = Inr (buf'', n) \<and> take 2 (drop 24 buf'') = [0, 0])"
proof -
  let ?fr = "take 2 (drop 20 buf)"
  have fr: "length ?fr = 2" using assms(6) by simp
  obtain c where c: "IPchecksum (header_words n ?fr [0, 0] si di) 10 = Inr c"
    "form_packet buf s d si di sp dp pl n =
      Inr (frame ?fr (store16 (htons c)) s d si di sp dp (take n pl) @ drop (42 + n) buf, n)"
    using form_packet_frame [OF assms(1-6), of sp dp] assms(7) by auto
  let ?b = "frame ?fr (store16 (htons c)) s d si di sp dp (take n pl) @ drop (42 + n) buf"
  have l2: "length (store16 (htons c)) = 2" by (simp add: store16_def)
  have ver: "IPchecksum (header_words n ?fr (store16 (htons c)) si di) 10 = Inr 0"
    by (rule header_checksum_verifies [OF assms(3,4) fr c(1)])
  have len: "length (frame ?fr (store16 (htons c)) s d si di sp dp (take n pl)) = 42 + n"
    using assms(5) fr l2 by (simp add: length_frame [OF assms(1-4)])
  have "trigger_send ?b n = Inr (frame ?fr (store16 (htons c)) s d si di sp dp (take n pl))"
    "IPchecksum (ip_words ?b) 10 = Inr 0"
    using ver ip_words_frame(1) [OF assms(1-4) fr l2] assms(5) len by (auto simp: trigger_send_def)
  moreover have "42 + n \<le> length ?b" using len by simp
  then have "form_packet ?b s d si di sp dp pl n =
      Inr (frame ?fr (store16 (htons 0)) s d si di sp dp (take n pl) @ drop (42 + n) ?b, n)"
    using form_packet_frame [OF assms(1-5), of ?b sp dp, unfolded frame_fields [OF assms(1-4) fr l2]] unfolding ver by blast
  moreover have z: "store16 (htons 0) = [0, 0]" by (simp add: store16_bytes bswap_16_def)
  have "take 2 (drop 24 (frame ?fr (store16 (htons 0)) s d si di sp dp (take n pl) @ drop (42 + n) ?b)) = [0, 0]"
    unfolding z by (rule frame_fields(2) [OF assms(1-4) fr]) simp
  ultimately show ?thesis using c(2) by blast
qed

theorem first_packet_verifies_witness:
  "\<exists>buf' c. form_packet (replicate 64 0) fpga_src_mac admin_dst_mac ip_zero ip_zero port_zero port_zero [1, 2] 2 = Inr (buf', 2) \<and>
     trigger_send buf' 2 = Inr (frame [0, 0] (store16 c) fpga_src_mac admin_dst_mac ip_zero ip_zero port_zero port_zero [1, 2]) \<and>
     IPchecksum (ip_words buf') 10 = Inr 0 \<and>
     (\<exists>buf''. form_packet buf' fpga_src_mac admin_dst_mac ip_zero ip_zero port_zero port_zero [1, 2] 2 = Inr (buf'', 2) \<and>
        take 2 (drop 24 buf'') = [0, 0])"
proof -
  have "take 2 (drop 20 (replicate 64 (0 :: u8))) = [0, 0]" "take 2 (drop 24 (replicate 64 (0 :: u8))) = [0, 0]"
    by (simp_all add: numeral_2_eq_2)
  moreover have "wf_ip ip_zero" by (simp add: wf_ip_def ip_zero_def)
  ultimately show ?thesis
    using first_packet_verifies [OF wf_const_macs(1,2), of ip_zero ip_zero 2 "[1, 2]" "replicate 64 0" port_zero port_zero]
    by simp
qed

section \<open>The session\<close>

text \<open>
  C5. \<open>apply\<close>: the client sends the administration packet of the current configuration to the
  administration address and then a probe, waits at most 101 rounds, and reports success exactly
  if the configuration the board answered with (the zero configuration, if it was not heard)
  is the current one.
\<close>

theorem apply_confirmed:
  assumes "wf_cli st" and "writable st ADMIN_PKT_TMP_FILENAME" and "plain_draws 2 (rands st)"
    and "frames_ok (net st)" and "board_replies (net st) g s" and "wf_filter g"
  shows "\<exists>st' pkt1 pkt2. apply_curr st =
      Inr (st', (if board_heard (net st) (net_pos st) (net_pos st') then g else filter_zero) = f_curr st) \<and>
    wf_cli st' \<and> f_curr st' = f_curr st \<and> net_pos st' \<le> net_pos st + 101 \<and> sent st' = sent st @ [pkt1, pkt2] \<and>
    frame_to admin_dst_mac (admin_packet (f_curr st)) pkt1 \<and> frame_to probe_dst_mac (map of_char probe_payload) pkt2"
  using apply_curr_ok [OF assms] by metis

text \<open>A client in its initial configuration on a silent network.\<close>

definition cli_example :: cli where
  "cli_example = \<lparr>cli_done = False, f_fpga = initialise_fpga_configuration, f_curr = filter_zero,
     s_fpga = stats_zero, io = admin_io_init, files = (\<lambda>_. None), writable = (\<lambda>_. True),
     file_payload = replicate BUFFER_SIZE 0, file_payload_length = 0, rands = replicate 28 0,
     send_pkt_buf = replicate BUFFER_SIZE 0, send_pkt_length = 0, sent = [], sendto_errno = (\<lambda>_. None), strerror = (\<lambda>_. []), rcv = receiver_init,
     net = (\<lambda>_. []), net_pos = 0, percent = (\<lambda>_ _. []), history = [], console = []\<rparr>"

lemma cli_example_ok:
  "wf_cli cli_example" "writable cli_example name" "plain_draws 2 (rands cli_example)"
  "frames_ok (net cli_example)" "board_replies (net cli_example) g s" "\<not> board_heard (net cli_example) k k'"
  "f_curr cli_example = filter_zero" "net_pos cli_example = 0" "sent cli_example = []"
proof -
  have "rand_byte 0 = 0" by (simp add: rand_byte_def)
  then have "replicate 6 (rand_byte 0) = [0, 0, 0, 0, 0, 0]" by (simp add: eval_nat_numeral)
  moreover have "\<lparr>byte = [0, 0, 0, 0, 0, 0]\<rparr> \<notin> {admin_dst_mac, probe_dst_mac}"
    by (simp add: admin_dst_mac_def probe_dst_mac_def)
  ultimately have "plain_draws (Suc (Suc 0)) (replicate 28 0)" by (simp only: plain_draws.simps) simp
  then show "plain_draws 2 (rands cli_example)" by (simp add: cli_example_def numeral_2_eq_2 del: plain_draws.simps)
qed (simp_all add: cli_example_def wf_cli_def wf_filter_zero wf_initial_configuration admin_idle_init
    wf_receiver_def receiver_init_def frames_ok_def board_replies_def board_heard_def)

theorem apply_confirmed_witness:
  "\<exists>st' pkt1 pkt2. apply_curr cli_example = Inr (st', True) \<and> sent st' = [pkt1, pkt2] \<and>
     frame_to admin_dst_mac (admin_packet filter_zero) pkt1"
  using apply_confirmed [OF cli_example_ok(1-4) cli_example_ok(5) wf_initial_configuration]
  by (auto simp: cli_example_ok)

text \<open>
  C6. \<open>probe\<close> always ends, after at most 101 polls, and sends one frame to the probe address.
  If a frame of the board arrives during the first 101 polls, the local copies of configuration
  and counters become those of the board; otherwise both are reset to zero.
\<close>

theorem probe_updates_local:
  assumes "wf_cli st" and "plain_draws 1 (rands st)"
    and "frames_ok (net st)" and "board_replies (net st) g s" and "wf_filter g"
  shows "\<exists>st' pkt. probe_fpga_update_local st = Inr st' \<and> wf_cli st' \<and> f_curr st' = f_curr st \<and>
    sent st' = sent st @ [pkt] \<and> frame_to probe_dst_mac (map of_char probe_payload) pkt \<and>
    net_pos st' \<le> net_pos st + 101 \<and>
    (if board_heard (net st) (net_pos st) (net_pos st + 101)
     then f_fpga st' = g \<and> s_fpga st' = s else f_fpga st' = filter_zero \<and> s_fpga st' = stats_zero)"
proof -
  have one: "plain_draws (Suc 0) (rands st)" using assms(2) by simp
  have mono: "board_heard (net st) (net_pos st) k' \<Longrightarrow> k' \<le> net_pos st + 101 \<Longrightarrow>
      board_heard (net st) (net_pos st) (net_pos st + 101)" for k'
    by (force simp: board_heard_def)
  show ?thesis
    by (rule probe_update_ok [OF assms(1) one assms(3-5)]) (use mono in \<open>auto split: if_splits\<close>)
qed

theorem probe_updates_local_witness:
  "\<exists>st' pkt. probe_fpga_update_local cli_example = Inr st' \<and> sent st' = [pkt] \<and> f_fpga st' = filter_zero"
proof -
  have "plain_draws 1 (rands cli_example)" using cli_example_ok(3) by (simp add: numeral_2_eq_2)
  from probe_updates_local [OF cli_example_ok(1) this cli_example_ok(4) cli_example_ok(5) wf_initial_configuration]
  show ?thesis by (auto simp: cli_example_ok)
qed

text \<open>
  C24. Saving to a writable name and loading that name in any later state in which the file is
  unchanged restores the saved configuration.
\<close>

theorem save_then_load:
  assumes "wf_cli st" and "terminated (drop p buf)" and "writable st (cstr_of (drop p buf))"
  shows "\<exists>st1. com_admin_save st buf p = Inr (st1, buf, 0) \<and> f_curr st1 = f_curr st \<and>
    (\<forall>st2. files st2 (cstr_of (drop p buf)) = files st1 (cstr_of (drop p buf)) \<longrightarrow>
      (\<exists>st3. com_admin_load st2 buf p = Inr (st3, buf, 0) \<and> f_curr st3 = f_curr st))"
proof -
  have wf: "wf_filter (f_curr st)" using assms(1) by (simp add: wf_cli_def)
  show ?thesis
    by (rule com_admin_save_ok [OF assms(1,2) refl assms(3)])
      (use load_saved [OF wf _ assms(2) refl] in \<open>auto intro!: exI\<close>)
qed

theorem save_then_load_witness:
  "\<exists>st1. com_admin_save cli_example (cstr ''a.bin'') 0 = Inr (st1, cstr ''a.bin'', 0) \<and>
     (\<exists>st3. com_admin_load st1 (cstr ''a.bin'') 0 = Inr (st3, cstr ''a.bin'', 0) \<and> f_curr st3 = filter_zero)"
  using save_then_load [OF cli_example_ok(1), of 0 "cstr ''a.bin''"] by (auto simp: cli_example_ok)

section \<open>Launch, completion and end\<close>

text \<open>
  C29. The interface: a name given with \<open>-f\<close>, the last one if there are several, reaches both
  sockets, cut to 16 characters. Without \<open>-f\<close> the receiver listens on \<open>enp8s0\<close> while the sender asks
  for the empty name. A name of more than 16 characters leaves the global array unterminated, and
  reporting it reads behind the array.
\<close>

theorem interface_selection:
  assumes "list_all (\<lambda>q. fst q \<in> {CHR ''p'', CHR ''f''} \<and> terminated (snd q)) opts"
  shows "\<exists>a. parse_args args_init opts = Inr (Run a) \<and>
    (probe_board_on_launch a \<longleftrightarrow> CHR ''p'' \<in> fst ` set opts) \<and>
    (case interface_opt opts of
       None \<Rightarrow> (\<exists>out. initialise_sender_socket e a = Inr (ifr_name [], ifr_name [], out)) \<and>
               (\<exists>out. initialise_receiver_socket_and_thread e a = Inr (ifr_name ''enp8s0'', out))
     | Some t \<Rightarrow> (\<exists>out. initialise_sender_socket e a = Inr (ifr_name t, ifr_name t, out)) \<and>
               (\<exists>out. initialise_receiver_socket_and_thread e a = Inr (ifr_name t, out)) \<and>
               (16 < length t \<and> \<not> probe_board_on_launch a \<longrightarrow> main_start e a st = Inl OutOfBounds))"
proof -
  have "length (if_name args_init) = IF_NAMESIZE + 1" "\<not> probe_board_on_launch args_init"
    by (simp_all add: args_init_def IF_NAMESIZE_def)
  with parse_args_interface [OF assms, of args_init]
  obtain a where a: "parse_args args_init opts = Inr (Run a)" "probe_board_on_launch a \<longleftrightarrow> CHR ''p'' \<in> fst ` set opts"
    "case interface_opt opts of None \<Rightarrow> if_name a = if_name args_init \<and> if_length a = if_length args_init
     | Some t \<Rightarrow> names_interface (if_name a) (if_length a) t" by blast
  show ?thesis
  proof (cases "interface_opt opts")
    case None
    with a show ?thesis using unnamed_sockets by simp
  next
    case (Some t)
    then have nm: "names_interface (if_name a) (if_length a) t" "NUL \<notin> set t"
      using a(3) NUL_cstr_of by (auto simp: interface_opt_def split: list.splits)
    obtain o1 o2 where "initialise_sender_socket e a = Inr (ifr_name t, ifr_name t, o1)"
      "initialise_receiver_socket_and_thread e a = Inr (ifr_name t, o2)" using named_sockets [OF nm] by metis
    then have "main_start e a st = Inl OutOfBounds" if "16 < length t" "\<not> probe_board_on_launch a"
      using that unterminated_name [OF nm] by (simp add: main_start_def Let_def)
    with a(1,2) Some named_sockets [OF nm] show ?thesis by auto
  qed
qed

definition sock_env_ok :: sock_env where
  "sock_env_ok = \<lparr>send_socket_ok = True, send_index_ok = True, send_hwaddr_ok = True, recv_socket_ok = True,
     recv_index_ok = True, recv_bind_ok = True, bind_error = []\<rparr>"

theorem interface_selection_witness:
  "\<exists>a. parse_args args_init [] = Inr (Run a) \<and>
     (\<exists>out. initialise_sender_socket sock_env_ok a = Inr (ifr_name [], ifr_name [], out)) \<and>
     (\<exists>out. initialise_receiver_socket_and_thread sock_env_ok a = Inr (ifr_name ''enp8s0'', out))"
  using interface_selection [of "[]" sock_env_ok] by simp

text \<open>
  C36. With \<open>-p\<close>, with or without \<open>-f\<close>, the client sends one probe before the first
  prompt, and both the current configuration and the copy of the board's start as the board's if it answers in time,
  and as the zero configuration otherwise. An interface name of more than 16 characters ends in a read
  behind the name instead.
\<close>

theorem launch_takes_board_configuration:
  assumes "list_all (\<lambda>q. fst q \<in> {CHR ''p'', CHR ''f''} \<and> terminated (snd q)) opts" and "CHR ''p'' \<in> fst ` set opts"
    and "wf_cli st" and "plain_draws 1 (rands st)" and "frames_ok (net st)" and "board_replies (net st) g s" and "wf_filter g"
  shows "\<exists>a. parse_args args_init opts = Inr (Run a) \<and>
    (if \<exists>t. interface_opt opts = Some t \<and> 16 < length t then main_start e a st = Inl OutOfBounds
     else \<exists>st'. main_start e a st = Inr st' \<and> wf_cli st' \<and>
       length (sent st') = Suc (length (sent st)) \<and> f_fpga st' = f_curr st' \<and>
       f_curr st' = (if board_heard (net st) (net_pos st) (net_pos st + 101) then g else filter_zero))"
proof -
  obtain a ni nc nr so ro where a: "parse_args args_init opts = Inr (Run a)" "probe_board_on_launch a"
    "initialise_sender_socket e a = Inr (ni, nc, so)" "initialise_receiver_socket_and_thread e a = Inr (nr, ro)"
    "percent_s (if_name a) = (case interface_opt opts of None \<Rightarrow> Inr ''enp8s0'' | Some t \<Rightarrow> if 16 < length t then Inl OutOfBounds else Inr t)"
    by (rule launch_interface [OF assms(1,2)])
  obtain st' where st': "main_start e a st =
      cbind (percent_s (if_name a)) (\<lambda>name. Inr (say [Stdout (''currently operating on '' @ name @ [NL])] st'))"
    "wf_cli st'" "f_curr st' = (if board_heard (net st) (net_pos st) (net_pos st + 101) then g else filter_zero)"
    "f_fpga st' = f_curr st'" "length (sent st') = Suc (length (sent st))"
    by (rule main_start_probe [OF assms(3-7) a(3,4,2)])
  from st'(2) have "wf_cli (say out st')" for out by (simp add: wf_cli_def say_def)
  with a st' show ?thesis by (auto simp: say_def split: option.splits)
qed

theorem launch_takes_board_configuration_witness:
  "(\<exists>a st'. parse_args args_init [(CHR ''p'', cstr [])] = Inr (Run a) \<and>
     main_start sock_env_ok a cli_example = Inr st' \<and> length (sent st') = 1 \<and> f_curr st' = filter_zero) \<and>
   (\<exists>a. parse_args args_init [(CHR ''p'', cstr []), (CHR ''f'', cstr ''wireless-adapter0'')] = Inr (Run a) \<and>
     main_start sock_env_ok a cli_example = Inl OutOfBounds)"
proof -
  have d: "plain_draws 1 (rands cli_example)" using cli_example_ok(3) by (simp add: numeral_2_eq_2)
  have i: "interface_opt [(CHR ''p'', cstr [])] = None"
    "interface_opt [(CHR ''p'', cstr []), (CHR ''f'', cstr ''wireless-adapter0'')] = Some ''wireless-adapter0''"
    by (simp_all add: interface_opt_def cstr_def)
  show ?thesis
    using d i launch_takes_board_configuration [of "[(CHR ''p'', cstr [])]" cli_example
        initialise_fpga_configuration stats_zero sock_env_ok]
      launch_takes_board_configuration [of "[(CHR ''p'', cstr []), (CHR ''f'', cstr ''wireless-adapter0'')]" cli_example
        initialise_fpga_configuration stats_zero sock_env_ok]
    by (auto simp: cli_example_ok wf_initial_configuration simp del: parse_args.simps interface_opt_simps)
qed

text \<open>
  \<open>quit\<close> ends the session: the lines behind it are not read, and the globals are changed in
  the history and the end flag only.
\<close>

theorem quit_ends_session:
  assumes "\<not> cli_done st"
  shows "main_loop ct (NUL # slack) st (''quit'' # lines) = Inr ((add_history ''quit'' st)\<lparr>cli_done := True\<rparr>)"
  using assms by (cases lines) (simp_all add: quit_round)

text \<open>
  C28. Completion at the start of a line offers exactly the top-level commands that begin with the
  typed text, in table order, and ends; elsewhere it offers nothing.
\<close>

theorem completion_offers:
  assumes "NUL \<notin> set t" and "names = map cmd_name (commands ct)"
  shows "admincli_completion (Suc (length names)) names (t @ NUL # rest) start g =
    Inr (if start = 0 then map cstr (filter (prefix t) names) else [])"
proof -
  have "list_all (\<lambda>n. NUL \<notin> set n) names"
    using tables_plain(1) by (simp add: assms(2) plain_table_def list_all_iff)
  from completion_calls_from [OF this assms(1), of 0] show ?thesis
    by (simp add: admincli_completion_def del: completion_calls.simps)
qed

theorem completion_offers_witness:
  "admincli_completion 9 (map cmd_name (commands com_help)) (cstr ''h'') 0 \<lparr>list_index = 5, gen_len = 2\<rparr> =
     Inr [cstr ''history'', cstr ''help'']"
  using completion_offers [OF _ refl, of "''h''" com_help "[]" 0]
  by (simp add: commands_def commands_docs_def table_of_def cstr_def eval_nat_numeral)

section \<open>Editing\<close>

text \<open>
  C9. A typed line \<open>admin edit add <section> <content>\<close>, with any surrounding blanks, goes through
  the three command tables and appends the entry that the content denotes to that section of the
  current configuration, leaving every other section and flag alone and the invariant intact.
\<close>

theorem add_line_adds:
  assumes "NUL \<notin> set line" and "trim line = ''admin edit add '' @ section_name sec @ CHR '' '' # content"
    and "sec \<noteq> Reply" and "filter_ok (f_curr st)" and "length (abs_filter (f_curr st) sec) < FILTER_DEPTH"
    and "content_entry sec content = Some e"
  shows "\<exists>st'. main_round ct slack st line = Inr st' \<and> filter_ok (f_curr st') \<and>
    abs_filter (f_curr st') = spec_add (abs_filter (f_curr st)) sec e \<and> abs_BW (f_curr st') = abs_BW (f_curr st)"
proof -
  let ?st = "add_history (trim line) st"
  have sp: "isspace CHR '' ''" by (simp add: isspace_def)
  have arg: "section_name sec @ CHR '' '' # content \<noteq> []" "\<not> isspace (hd (section_name sec @ CHR '' '' # content))"
    using section_name_chars [of sec] by (cases "section_name sec"; simp)+
  have tr: "trim line = ''admin edit '' @ ''add'' @ CHR '' '' # section_name sec @ CHR '' '' # content"
    using assms(2) by simp
  have fc: "f_curr ?st = f_curr st" by (simp add: add_history_def Let_def)
  have add: "''add'' \<noteq> []" "\<forall>c \<in> set ''add''. \<not> isspace c" by (simp_all add: isspace_def)
  obtain buf p where l: "terminated (drop p buf)" "cstr_of (drop p buf) = section_name sec @ CHR '' '' # content"
    "main_round ct slack st line = cbind (cmd_func \<lparr>cmd_name = ''add'',
       cmd_func = edit_handler com_admin_edit_add, cmd_doc = ''add [filter-type] [filter-content]''\<rparr> ?st buf p) (\<lambda>(st, buf, _). Inr st)"
    using edit_line [OF assms(1) tr add arg table_entries(3)] .
  obtain buf' q where a: "com_admin_edit_add (f_curr st) buf p = add_section (Some sec) (f_curr st) buf' p q"
    "terminated (drop p buf')" "terminated (drop q buf')" "cstr_of (drop q buf') = content"
    using com_admin_edit_add_section [OF l(1,2) sp assms(3)] .
  obtain g where "add_section (Some sec) (f_curr st) buf' p q = Inr (g, buf', [], 0)" "filter_ok g"
    "abs_filter g = spec_add (abs_filter (f_curr st)) sec e" "abs_BW g = abs_BW (f_curr st)"
    using add_section_ok [OF assms(4) a(3,4) assms(5,6)] by blast
  then show ?thesis using l(3) a(1) fc by (simp add: edit_handler_def say_def)
qed

theorem add_line_adds_witness:
  "\<exists>st'. main_round com_quit [] cli_example ''  admin edit add dns ucl.ac.uk '' = Inr st' \<and>
     abs_filter (f_curr st') Dns = [DnsE (9 * 8) \<lparr>dns_c = map of_char ''ucl.ac.uk'' @ replicate 7 0\<rparr>]"
proof -
  have "trim ''  admin edit add dns ucl.ac.uk '' = ''admin edit add '' @ section_name Dns @ CHR '' '' # ''ucl.ac.uk''"
    by (simp add: trim_def isspace_def section_name_def)
  moreover have "content_entry Dns ''ucl.ac.uk'' = Some (DnsE (9 * 8) \<lparr>dns_c = map of_char ''ucl.ac.uk'' @ replicate 7 0\<rparr>)"
    by (simp add: content_entry_def dns_entry_def)
  moreover have "filter_ok (f_curr cli_example)" "abs_filter (f_curr cli_example) Dns = []"
    by (simp_all add: cli_example_ok filter_ok_initial) (simp add: abs_filter_def filter_zero_def)
  ultimately show ?thesis
    using add_line_adds [of "''  admin edit add dns ucl.ac.uk ''" Dns "''ucl.ac.uk''" cli_example _ com_quit "[]"]
    by (auto simp: FILTER_DEPTH_def spec_add_def)
qed



text \<open>
  C10. Removing entry 0 or 1 of a section moves the last entry into its place and clears the slot
  that became free; an index with no entry is refused and changes nothing.
\<close>

theorem remove_entry_refines:
  assumes "filter_ok f" and "terminated (drop p buf)" and "cstr_of (drop p buf) = section_name sec @ sp # [d]"
    and "isspace sp" and "sec \<noteq> Reply" and "d \<in> {CHR ''0'', CHR ''1''}"
  defines "i \<equiv> if d = CHR ''0'' then 0 else 1"
  shows "if i < length (abs_filter f sec)
    then \<exists>g buf'. com_admin_edit_remove f buf p = Inr (g, buf', [], 0) \<and> filter_ok g \<and>
      abs_filter g = spec_remove (abs_filter f) sec i \<and> abs_BW g = abs_BW f
    else \<exists>buf' out. com_admin_edit_remove f buf p = Inr (f, buf', out, - 1)"
proof -
  obtain buf' q where r: "terminated (drop q buf')"
    "com_admin_edit_remove f buf p = remove_section (Some sec) f buf' p q (if d = CHR ''0'' then 0 else 1)"
    using com_admin_edit_remove_section [OF assms(2-6)] .
  show ?thesis
    using remove_section_ok [OF assms(1) r(1) assms(5), of i p] r(2) by (auto simp: i_def [symmetric] not_less)
qed

theorem remove_entry_refines_witness:
  "\<exists>g buf'. com_admin_edit_remove initialise_fpga_configuration (cstr ''dns 0'') 0 = Inr (g, buf', [], 0) \<and>
     abs_filter g Dns = [DnsE (10 * 8) \<lparr>dns_c = map of_char ''google.com'' @ replicate 6 0\<rparr>]"
proof -
  have ok: "filter_ok initialise_fpga_configuration"
    by (simp add: filter_ok_def section_ok_def initialise_fpga_configuration_def FILTER_DEPTH_def dns_items_def
        wf_mac_def wf_ip_def wf_dns_pair_def wf_dns_item_def mac_zero_def)
  have "abs_filter initialise_fpga_configuration Dns =
      [DnsE (9 * 8) \<lparr>dns_c = map of_char ''apple.com'' @ replicate 7 0\<rparr>, DnsE (10 * 8) \<lparr>dns_c = map of_char ''google.com'' @ replicate 6 0\<rparr>]"
    by (simp add: abs_filter_def initialise_fpga_configuration_def dns_items_def)
  then show ?thesis
    using remove_entry_refines [OF ok, of 0 "cstr ''dns 0''" Dns "CHR '' ''" "CHR ''0''"]
    by (auto simp: cstr_def section_name_def isspace_def spec_remove_def)
qed

text \<open>
  C11. Setting a section black or white (or the reply type to payload or DNS) changes that flag only.
\<close>

theorem set_refines:
  assumes "terminated (drop p buf)" and "cstr_of (drop p buf) = section_name sec @ sp # value" and "isspace sp"
    and "map_of [(''black'', 0), (''payload'', 0), (''white'', 1), (''dns'', 1)] value = Some (b :: u8)"
  shows "\<exists>g buf'. com_admin_edit_set f buf p = Inr (g, buf', [], 0) \<and> abs_BW g = (abs_BW f)(sec := ucast b) \<and>
    abs_filter g = abs_filter f \<and> filter_ok g = filter_ok f"
  using com_admin_edit_set_section [OF assms, of f] set_BW_abs [of sec "ucast b" f] by blast

theorem set_refines_witness:
  "\<exists>g buf'. com_admin_edit_set filter_zero (cstr ''srcip white'') 0 = Inr (g, buf', [], 0) \<and> abs_BW g SrcIp = 1"
  using set_refines [of 0 "cstr ''srcip white''" SrcIp "CHR '' ''" "''white''" 1 filter_zero]
  by (auto simp: cstr_def section_name_def isspace_def)

text \<open>
  C8. Whatever edit commands are typed, with whatever arguments, every configuration reached
  from the initial one has at most two entries per section and zero in the unused slots; it can
  be shown without reading outside an array, and saved and loaded back unchanged.
\<close>

theorem edited_configurations_safe:
  assumes "edit_step\<^sup>*\<^sup>* initialise_fpga_configuration f" and "admin_idle st"
  shows "filter_ok f \<and> (\<exists>s. print_filter_configuration f = Inr s) \<and>
    (\<exists>t. write_to_admin_pkt True st f = Inr t \<and> parse_admin_bin fc (admin_file t) (length (admin_file t)) = Inr f)"
proof -
  have "filter_ok initialise_fpga_configuration"
    by (simp add: filter_ok_def section_ok_def initialise_fpga_configuration_def FILTER_DEPTH_def dns_items_def
        wf_mac_def wf_ip_def wf_dns_pair_def wf_dns_item_def mac_zero_def)
  with assms(1) have ok: "filter_ok f" by (rule edit_reachable_ok)
  obtain t where t: "write_to_admin_pkt True st f = Inr t" "admin_file t = admin_packet f"
    using write_to_admin_pkt_refines [OF filter_ok_wf [OF ok] assms(2)] by blast
  have "parse_admin_bin fc (admin_packet f) 128 = Inr f"
    by (rule parse_admin_bin_layout [OF filter_ok_wf [OF ok]])
      (simp_all add: stands_at_admin_packet [OF filter_ok_wf [OF ok]])
  with t ok print_filter_configuration_safe [OF ok] stands_at_admin_packet(2) [OF filter_ok_wf [OF ok]]
  show ?thesis by auto
qed

theorem edited_configurations_safe_witness:
  "\<exists>s. print_filter_configuration initialise_fpga_configuration = Inr s"
  using edited_configurations_safe [OF rtranclp.rtrancl_refl admin_idle_init] by blast

text \<open>
  C40. A decoded configuration is not checked. Every configuration comes back from its packet, whatever
  its length fields; showing it reads behind an array exactly if one of the seven two bit lengths is 3, or if one of the DNS
  items that are shown has more than 128 bits.
\<close>

theorem length_three_overrun:
  assumes "wf_filter f"
  shows "parse_admin_bin fc (admin_packet f) 128 = Inr f \<and>
    (if 3 \<in> {srcMACLength f, dstMACLength f, srcIPLength f, dstIPLength f, srcPortLength f, dstPortLength f, dnsLength f} \<or>
        (\<exists>i<unat (dnsLength f). 128 < unat (dnsItemEndPtr f ! i))
     then print_filter_configuration f = Inl OutOfBounds
     else \<exists>s. print_filter_configuration f = Inr s)"
proof
  show "parse_admin_bin fc (admin_packet f) 128 = Inr f"
    by (rule parse_admin_bin_layout [OF assms(1)]) (simp_all add: stands_at_admin_packet [OF assms(1)])
qed (use print_filter_configuration_faults [OF assms] in \<open>simp add: faults_iff_def\<close>)

theorem length_three_overrun_witness:
  "print_filter_configuration (filter_zero\<lparr>dstPortLength := 3\<rparr>) = Inl OutOfBounds \<and>
   print_filter_configuration (filter_zero\<lparr>dnsLength := 1, dnsItemEndPtr := [129, 0]\<rparr>) = Inl OutOfBounds \<and>
   (\<exists>s. print_filter_configuration (filter_zero\<lparr>dnsLength := 2, dnsItemEndPtr := [128, 0]\<rparr>) = Inr s)"
proof (intro conjI)
  have wf: "wf_filter (filter_zero\<lparr>dstPortLength := 3\<rparr>)" "wf_filter (filter_zero\<lparr>dnsLength := n, dnsItemEndPtr := [b, 0]\<rparr>)" for n b
    using wf_filter_zero by (simp_all add: wf_filter_def FILTER_DEPTH_def)
  show "print_filter_configuration (filter_zero\<lparr>dstPortLength := 3\<rparr>) = Inl OutOfBounds"
    using length_three_overrun [OF wf(1)] by simp
  show "print_filter_configuration (filter_zero\<lparr>dnsLength := 1, dnsItemEndPtr := [129, 0]\<rparr>) = Inl OutOfBounds"
    using length_three_overrun [OF wf(2) [where n = 1 and b = 129]] by simp
  have "3 \<notin> {srcMACLength filter_zero, dstMACLength filter_zero, srcIPLength filter_zero, dstIPLength filter_zero,
      srcPortLength filter_zero, dstPortLength filter_zero}" "\<forall>i<2. unat ([128, 0] ! i :: u8) \<le> 128"
    by (auto simp: filter_zero_def less_2_cases_iff)
  then show "\<exists>s. print_filter_configuration (filter_zero\<lparr>dnsLength := 2, dnsItemEndPtr := [128, 0]\<rparr>) = Inr s"
    using length_three_overrun [OF wf(2) [where n = 2 and b = 128]] by (fastforce simp: not_less split: if_splits)
qed

section \<open>The frame checker\<close>

text \<open>
  C21. The table-free register algorithm of the CRC model, with its reflections, computes the
  Ethernet checksum: the complemented remainder of the message, with its first 32 bits inverted
  and 32 zeros appended, on division by the generator polynomial over the two element field.
\<close>

theorem crc_by_division:
  "word_bits 32 (cm_crc (foldl (\<lambda>cm b. cm_nxt cm (ucast b)) (cm_ini eth_cm) bs)) =
   map Not (gf2_mod eth_poly (gf2_add (replicate 32 True) (bytes_bits bs @ replicate 32 False)))"
  using crc_is_crc_spec [of bs] by (simp add: crc_spec_def)

text \<open>
  C23. For a file with a frame of 4 to 259 bytes the program ends and reports a match exactly if
  the last four bytes are the checksum of the others. With fewer bytes it reads before its buffer, and with more the loop over
  the data, whose counter has eight bits, never ends.
\<close>

theorem crc_checker_verdict:
  assumes "length bs < MAX_FRAME_SIZE"
  shows "if length bs < 4 then crc_main prog [frame_input name bs] = Some (Inl OutOfBounds)
    else if 260 \<le> length bs then crc_main prog [frame_input name bs] = None
    else \<exists>out crc fcs. crc_main prog [frame_input name bs] = Some (Inr (out, [Verdict crc fcs])) \<and>
      (crc = fcs \<longleftrightarrow> bytes_bits (drop (length bs - 4) bs) = crc_spec (take (length bs - 4) bs))"
proof -
  have "crc_main prog [frame_input name bs] = Some (Inl OutOfBounds)" if "length bs < 4"
    using that assms by (auto simp: crc_main_def crc_file_first(1))
  moreover have "crc_main prog [frame_input name bs] = None" if "260 \<le> length bs"
    using that assms by (auto simp: crc_main_def crc_file_first(3))
  moreover have "\<exists>out crc fcs. crc_main prog [frame_input name bs] = Some (Inr (out, [Verdict crc fcs])) \<and>
      (crc = fcs \<longleftrightarrow> bytes_bits (drop (length bs - 4) bs) = crc_spec (take (length bs - 4) bs))"
    if "4 \<le> length bs" "length bs < 260"
    using crc_main_verdict [OF that, of prog name] by (simp add: frame_valid_def)
  ultimately show ?thesis by (simp add: not_less not_le)
qed

lemma crc_spec_empty: "crc_spec [] = replicate 32 False"
proof -
  have len: "length eth_poly = 32" by (simp add: eth_poly_def)
  then have "eth_poly \<noteq> []" by auto
  with len show ?thesis
    using register_divides [of "replicate 32 True" eth_poly "[]"] by (simp add: crc_spec_def map_replicate)
qed

lemma frame_valid_zeros: "frame_valid [0, 0, 0, 0]"
proof -
  have "[0, 0, 0, 0 :: u8] = replicate 4 0" by (simp add: eval_nat_numeral)
  then have "bytes_bits [0, 0, 0, 0] = replicate 32 False" by (simp only: bytes_bits_replicate_0) simp
  then show ?thesis by (simp add: frame_valid_def crc_spec_empty)
qed

theorem crc_checker_verdict_witness:
  "(\<exists>out crc. crc_main ''crc'' [frame_input ''zero.txt'' [0, 0, 0, 0]] = Some (Inr (out, [Verdict crc crc]))) \<and>
   crc_main ''crc'' [frame_input ''long.txt'' (replicate 1514 0)] = None"
  using crc_checker_verdict [of "[0, 0, 0, 0]" "''crc''" "''zero.txt''"]
    crc_checker_verdict [of "replicate 1514 0" "''crc''" "''long.txt''"] frame_valid_zeros
  by (auto simp: frame_valid_def MAX_FRAME_SIZE_def)

text \<open>
  C22. Every single bit error is detected: if a frame is reported as matching, the frame with any
  one bit inverted, of the data or of the check sequence, is reported as not matching.
\<close>

theorem crc_single_bit_detected:
  assumes "4 \<le> length bs" and "length bs < 260"
    and "crc_main prog [frame_input name bs] = Some (Inr (out, [Verdict c c]))"
    and "bytes_bits bs = p @ b # q" and "bytes_bits bs' = p @ (\<not> b) # q"
  shows "\<exists>out' crc fcs. crc_main prog [frame_input name bs'] = Some (Inr (out', [Verdict crc fcs])) \<and> crc \<noteq> fcs"
proof -
  have "frame_valid bs" using crc_main_verdict [OF assms(1,2), of prog name] assms(3) by auto
  from frame_valid_one_bit [OF assms(4,5) this] show ?thesis
    using crc_main_verdict [of bs' prog name] assms(1,2) by auto
qed

theorem crc_single_bit_detected_witness:
  "\<exists>out crc fcs. crc_main ''crc'' [frame_input ''zero.txt'' [1, 0, 0, 0]] = Some (Inr (out, [Verdict crc fcs])) \<and> crc \<noteq> fcs"
proof -
  obtain out c where r: "crc_main ''crc'' [frame_input ''zero.txt'' [0, 0, 0, 0]] = Some (Inr (out, [Verdict c c]))"
    using crc_main_verdict [of "[0, 0, 0, 0]" "''crc''" "''zero.txt''"] frame_valid_zeros by auto
  have "bytes_bits [0, 0, 0, 0] = [] @ False # tl (bytes_bits [0, 0, 0, 0])"
    "bytes_bits [1, 0, 0, 0] = [] @ (\<not> False) # tl (bytes_bits [0, 0, 0, 0])"
    by (simp_all add: bytes_bits_def word_bits_def upt_rec)
  from crc_single_bit_detected [OF _ _ r this] show ?thesis by simp
qed

text \<open>
  The statics are not reset: a second file on the command line is opened but not read. The
  program judges as many zero bytes as the first file had, whatever the second one holds.
\<close>

theorem crc_second_file:
  assumes "4 \<le> length bs" and "length bs < 260"
  shows "\<exists>out v crc. crc_main prog [frame_input name bs, frame_input name' bs'] = Some (Inr (out, [v, Verdict crc 0])) \<and>
    word_bits 32 crc = crc_spec (replicate (length bs - 4) 0)"
proof -
  let ?n = "length bs" and ?z = "replicate MAX_FRAME_SIZE 0 :: u8 list"
  let ?s = "\<lparr>file_ret = EOF, frame_sz = word_of_nat (length bs)\<rparr>"
  have sz: "unat (frame_sz ?s) = ?n" "?n < MAX_FRAME_SIZE"
    using assms(2) by (simp_all add: unsigned_of_nat take_bit_nat_eq_self_iff MAX_FRAME_SIZE_def)
  obtain out v where 1: "crc_file prog (frame_input name bs) crc_static_init = Some (Inr (?s, out, v))" "v \<noteq> Stop"
    using crc_file_first(2) [OF sz(2) assms, of prog name] by auto
  have rd: "crc_read (map Scanned bs') ?s ?z = (?s, ?z, [], False)" by (simp add: crc_read_next)
  obtain out' where 2: "crc_file prog (frame_input name' bs') ?s =
      Some (Inr (?s, out', Verdict (crc_of (take (?n - 4) ?z)) (le_word (take 4 (drop (?n - 4) ?z)))))"
    using crc_file_judges(2) [OF rd sz, of prog name'] assms by auto
  have z: "take (?n - 4) ?z = replicate (?n - 4) 0" "take 4 (drop (?n - 4) ?z) = replicate 4 0"
    using sz(2) assms by (simp_all add: MAX_FRAME_SIZE_def)
  have "(le_word (replicate 4 0) :: u32) = 0" by (simp add: le_word_def eval_nat_numeral)
  with 1 2 z crc_is_crc_spec show ?thesis by (auto simp: crc_main_def)
qed

section \<open>Text\<close>

text \<open>
  C25. The address parsers read back what the printers write, for every MAC and IP address. A port
  typed in decimal, however, is stored with its two bytes swapped, while the default configuration, the printer and the packet
  writer take a stored port in host order: the writer swaps again, so that a typed port goes out in the byte order opposite to a
  configured one.
\<close>

theorem parse_print_addresses:
  assumes "wf_mac m" and "wf_ip a" and "n < 65536"
  shows "parse_mac (tl (print_MAC m) @ NUL # rest) = Inr m \<and> parse_ip (tl (print_IP a) @ NUL # rest) = Inr a \<and>
    (\<exists>q. parse_port (dec n @ NUL # rest) = Inr q \<and> q = \<lparr>port = bswap_16 (word_of_nat n)\<rparr> \<and>
       port_calls [q] = [(ucast (word_of_nat n :: u16), 16)] \<and>
       port_calls [\<lparr>port = word_of_nat n\<rparr>] = [(ucast (bswap_16 (word_of_nat n)), 16)])"
  using parse_print_MAC [OF assms(1)] parse_print_IP [OF assms(2)] parse_port_decimal [OF assms(3), of rest]
  by (simp add: port_calls_def)

theorem parse_print_addresses_witness:
  "parse_mac (tl (print_MAC admin_dst_mac) @ NUL # []) = Inr admin_dst_mac \<and>
   parse_ip (tl (print_IP \<lparr>num = [192, 168, 255, 255]\<rparr>) @ NUL # []) = Inr \<lparr>num = [192, 168, 255, 255]\<rparr> \<and>
   parse_port (dec 53 @ NUL # []) = Inr \<lparr>port = 13568\<rparr>"
proof -
  have "bswap_16 (word_of_nat 53) = 13568" by code_simp
  moreover have "wf_ip \<lparr>num = [192, 168, 255, 255]\<rparr>" by (simp add: wf_ip_def)
  ultimately show ?thesis
    using parse_print_addresses [OF wf_const_macs(2), of "\<lparr>num = [192, 168, 255, 255]\<rparr>" 53 "[]"] by simp
qed

text \<open>
  C26. \<open>stripwhite\<close> returns a pointer into the line at the text without its leading and trailing
  blanks, for every terminated string, and writes inside it only.
\<close>

theorem stripwhite_trims:
  assumes "terminated buf"
  shows "\<exists>buf' s. stripwhite buf = Inr (buf', s) \<and> length buf' = length buf \<and>
    terminated (drop s buf') \<and> cstr_of (drop s buf') = trim (cstr_of buf)"
  using assms by (rule stripwhite_ok)

theorem stripwhite_trims_witness:
  "\<exists>buf' s. stripwhite (cstr '' ab c  '') = Inr (buf', s) \<and> cstr_of (drop s buf') = ''ab c''"
proof -
  have "trim (cstr_of (cstr '' ab c  '')) = ''ab c''" by (simp add: cstr_of_cstr trim_def isspace_def)
  with stripwhite_trims [of "cstr '' ab c  ''"] show ?thesis by auto
qed

text \<open>
  C27. \<open>execute\<close>: a command with an argument runs the handler of the first table entry of that
  name on the argument text; an unknown command is reported and refused; a known command without
  an argument, whose string ends its memory block, makes the function read behind the block.
\<close>

theorem execute_dispatch:
  assumes "terminated (drop p buf)" and "plain_table table" and "\<forall>c \<in> set name. \<not> isspace c"
  shows "(\<forall>sp arg cmd. cstr_of (drop p buf) = name @ sp # arg \<and> isspace sp \<and> find (\<lambda>c. cmd_name c = name) table = Some cmd \<longrightarrow>
      (\<exists>buf' q. execute table st buf p = cmd_func cmd st buf' q \<and> terminated (drop q buf') \<and>
        cstr_of (drop q buf') = dropWhile isspace arg)) \<and>
    (takeWhile (\<lambda>c. \<not> isspace c) (cstr_of (drop p buf)) = name \<and> find (\<lambda>c. cmd_name c = name) table = None \<longrightarrow>
      (\<exists>buf'. execute table st buf p = Inr (say [Stderr (name @ '': no such command'' @ [NL])] st, buf', - 1))) \<and>
    (cstr_of (drop p buf) = name \<and> find (\<lambda>c. cmd_name c = name) table \<noteq> None \<and> length buf = p + length name + 1 \<longrightarrow>
      execute table st buf p = Inl OutOfBounds)"
proof (intro conjI allI impI; (elim conjE)?)
  fix sp arg cmd
  assume "cstr_of (drop p buf) = name @ sp # arg" "isspace sp" "find (\<lambda>c. cmd_name c = name) table = Some cmd"
  then show "\<exists>buf' q. execute table st buf p = cmd_func cmd st buf' q \<and> terminated (drop q buf') \<and>
        cstr_of (drop q buf') = dropWhile isspace arg"
    using execute_with_argument [OF assms(1) _ _ assms(3,2)] by metis
next
  assume "takeWhile (\<lambda>c. \<not> isspace c) (cstr_of (drop p buf)) = name" "find (\<lambda>c. cmd_name c = name) table = None"
  then show "\<exists>buf'. execute table st buf p = Inr (say [Stderr (name @ '': no such command'' @ [NL])] st, buf', - 1)"
    by (intro execute_unknown [OF assms(1) _ assms(2)])
next
  assume "cstr_of (drop p buf) = name" "find (\<lambda>c. cmd_name c = name) table \<noteq> None" "length buf = p + length name + 1"
  then show "execute table st buf p = Inl OutOfBounds"
    using execute_bare_command [OF assms(1) _ assms(3,2)] by blast
qed

theorem execute_dispatch_witness:
  "execute (commands com_help) cli_example (cstr ''quit'') 0 = Inl OutOfBounds"
proof -
  have "find (\<lambda>c. cmd_name c = ''quit'') (commands com_help) \<noteq> None"
    by (simp add: commands_def commands_docs_def table_of_def)
  then show ?thesis
    using execute_dispatch [of 0 "cstr ''quit''" "commands com_help" "''quit''" cli_example] tables_plain(1)
    by (simp add: cstr_def isspace_def)
qed

text \<open>
  C37. The random addresses: a drawn MAC address is the first group of six random numbers that is
  neither the administration nor the probe destination, and every other address can be drawn, the board's own source
  address included; local addresses are in 10/8; ports are at least 10000, and each of these can be drawn.
\<close>

theorem random_endpoints_range:
  "(\<forall>m rs'. random_mac rs = Inr (m, rs') \<longleftrightarrow>
      (\<exists>k. 6 * k + 6 \<le> length rs \<and> m = \<lparr>byte = map rand_byte (take 6 (drop (6 * k) rs))\<rparr> \<and> rs' = drop (6 * k + 6) rs \<and>
         m \<notin> {admin_dst_mac, probe_dst_mac} \<and>
         (\<forall>i<k. \<lparr>byte = map rand_byte (take 6 (drop (6 * i) rs))\<rparr> \<in> {admin_dst_mac, probe_dst_mac}))) \<and>
   (\<forall>m. wf_mac m \<and> m \<notin> {admin_dst_mac, probe_dst_mac} \<longrightarrow> random_mac (map unat (byte m) @ rs) = Inr (m, rs)) \<and>
   random_mac (map unat (byte fpga_src_mac) @ rs) = Inr (fpga_src_mac, rs) \<and>
   (\<forall>a rs'. random_local_ip rs = Inr (a, rs') \<longrightarrow> wf_ip a \<and> num a ! 0 = 10) \<and>
   (\<forall>q rs'. random_unused_port rs = Inr (q, rs') \<longrightarrow> 10000 \<le> unat (port q) \<and> unat (port q) < 65536) \<and>
   (\<forall>q. 10000 \<le> unat (port q) \<longrightarrow> random_unused_port ((unat (port q) - 10000) # rs) = Inr (q, rs))"
  using random_mac_first [of rs] random_mac_draws [of _ rs] random_mac_draws [OF wf_const_macs(1), of rs]
    random_local_ip_ok random_unused_port_ok random_unused_port_draws
  unfolding mac_group_def by (auto simp: fpga_src_mac_def admin_dst_mac_def probe_dst_mac_def)

theorem random_endpoints_range_witness:
  "random_mac (map unat (byte admin_dst_mac @ byte fpga_src_mac)) = Inr (fpga_src_mac, []) \<and>
   random_unused_port [13456, 1] = Inr (\<lparr>port = 23456\<rparr>, [1])"
proof
  let ?rs = "map unat (byte admin_dst_mac @ byte fpga_src_mac)"
  have "map rand_byte (take 6 (drop 6 ?rs)) = byte fpga_src_mac" "map rand_byte (take 6 ?rs) = byte admin_dst_mac"
    "length ?rs = 12" "byte fpga_src_mac \<noteq> byte admin_dst_mac" "byte fpga_src_mac \<noteq> byte probe_dst_mac"
    by code_simp+
  then have "6 * 1 + 6 \<le> length ?rs \<and> fpga_src_mac = \<lparr>byte = map rand_byte (take 6 (drop (6 * 1) ?rs))\<rparr> \<and>
      [] = drop (6 * 1 + 6) ?rs \<and> fpga_src_mac \<notin> {admin_dst_mac, probe_dst_mac} \<and>
      (\<forall>i<1. \<lparr>byte = map rand_byte (take 6 (drop (6 * i) ?rs))\<rparr> \<in> {admin_dst_mac, probe_dst_mac})"
    by (auto simp del: map_append)
  then show "random_mac ?rs = Inr (fpga_src_mac, [])" using random_endpoints_range [of ?rs] by blast
  have "10000 \<le> unat (port \<lparr>port = 23456\<rparr>)" by simp
  then have "random_unused_port ((unat (port \<lparr>port = 23456\<rparr>) - 10000) # [1]) = Inr (\<lparr>port = 23456\<rparr>, [1])"
    using random_endpoints_range [of "[1]"] by blast
  then show "random_unused_port [13456, 1] = Inr (\<lparr>port = 23456\<rparr>, [1])" by simp
qed

section \<open>The stand-alone tools\<close>

text \<open>
  C17. The packet builder writes a well-formed configuration as 92 bytes: the fields of the
  administration packet without the reply type, padded to 88 bytes, and the exclusive or of the key
  and the 32-bit words before, so that the words of the whole file cancel the key. The client's parser
  reads the file back as the same configuration with reply type 0.
\<close>

theorem builder_file:
  assumes "wf_filter (to_filter f)" "bbuf st = 0" "bits_clean st = 64"
  shows "\<exists>t body. write_to_file True st f = Inr t \<and> bbuf t = 0 \<and> bits_clean t = 64 \<and>
    bfile t = Some (body @ le_bytes 4 (builder_key XOR xor_words body)) \<and> length body = 88 \<and>
    bytes_bits body = calls_bits (builder_calls f) @ replicate 27 False \<and>
    xor_words (body @ le_bytes 4 (builder_key XOR xor_words body)) = builder_key \<and>
    parse_admin_bin fc (body @ le_bytes 4 (builder_key XOR xor_words body) @ stale) 92 = Inr (to_filter f)"
proof -
  obtain t body where t: "write_to_file True st f = Inr t" "bfile t = Some (body @ le_bytes 4 (builder_key XOR xor_words body))"
      "bytes_bits body = admin_layout (to_filter f) @ replicate 26 False" "bbuf t = 0" "bits_clean t = 64"
    using assms by (rule write_to_file_ok)
  have len: "length body = 88" using arg_cong [OF t(3), of length] length_admin_layout [OF assms(1)] by simp
  have "xor_words (le_bytes 4 w) = w" for w :: u32 by (rule xor_words_word)
  then have "xor_words (body @ le_bytes 4 (builder_key XOR xor_words body)) = builder_key"
    using len by (simp add: xor_words_append xor.left_commute)
  moreover have "stands_at (body @ le_bytes 4 (builder_key XOR xor_words body) @ stale) 0 (admin_layout (to_filter f))"
    using t(3) len length_admin_layout [OF assms(1)] by (simp add: stands_at_def)
  then have "parse_admin_bin fc (body @ le_bytes 4 (builder_key XOR xor_words body) @ stale) 92 = Inr (to_filter f)"
    by (rule parse_admin_bin_layout [OF assms(1)]) simp
  moreover have "bytes_bits body = calls_bits (builder_calls f) @ replicate 27 False"
    using t(3) by (simp add: builder_layout flip: replicate_Suc)
  ultimately show ?thesis using t len by (intro exI [of _ t] exI [of _ body]) simp
qed

theorem builder_file_witness:
  "\<exists>t body. write_to_file True builder_io_init builder_configuration = Inr t \<and>
     bfile t = Some (body @ le_bytes 4 (builder_key XOR xor_words body)) \<and> length body = 88 \<and>
     parse_admin_bin filter_zero (body @ le_bytes 4 (builder_key XOR xor_words body) @ []) 92 = Inr (to_filter builder_configuration)"
  using builder_file [OF wf_builder_configuration, of builder_io_init filter_zero "[]"] by (auto simp: builder_io_init_def)

text \<open>
  C18. The test sender, given two addresses of each kind and two ports as text, sends the frame
  with these addresses, its test payload or the file named with \<open>-r\<close>, and a header checksum that
  verifies: once, or in mode \<open>daemon\<close> again and again, the same bytes each time, until \<open>sendto\<close> fails.
\<close>

theorem sender_transmits:
  assumes "wf_mac sm" "wf_mac dm" "wf_ip si" "wf_ip di" "mode = ''daemon'' \<or> mode = ''once''"
    and "case name of None \<Rightarrow> payload = test_payload
         | Some nm \<Rightarrow> NUL \<notin> set nm \<and> fs nm = Some payload \<and> length payload \<le> 65494"
    and opts_def: "opts = payload_opts name @ address_opts [sm, dm] [si, di] [sp, dp] @ [(CHR ''s'', cstr mode)]"
  shows "\<exists>c out. IPchecksum (header_words (length payload) [0, 0] (store16 (htons c)) si di) 10 = Inr 0 \<and>
    sender_main fs e err opts results =
      Inr (map (\<lambda>_. frame [0, 0] (store16 (htons c)) sm dm si di sp dp payload)
             (if mode = ''daemon'' then until_failure results else take 1 results), out,
           if mode = ''daemon'' then list_all (\<lambda>e. e = None) results else results = [])"
proof -
  define t0 where "t0 = load_payload fs name tool_init"
  define t where "t = t0\<lparr>MAC_ADDRS := [sm, dm], IP_ADDRS := [si, di], UDP_PORTS := [sp, dp],
    SEND_MODE := (if mode = ''daemon'' then DAEMON else ONCE)\<rparr>"
  have nm: "NUL \<notin> set x \<and> fs x \<noteq> None" if "name = Some x" for x using that assms(6) by simp
  have t0: "wf_tool t0" "tool_payload t0 = payload" "INTF_NAME t0 = INTF_NAME tool_init"
    using load_payload_ok [OF wf_tool_init _ assms(6)] by (simp_all add: t0_def tool_init_def)
  have args: "parse_args_sender fs tool_init opts = Inr (Inr t)"
    using mode_parsed [OF assms(5)] t0(1) assms(1-4)
    by (simp add: opts_def payload_opts_parsed [OF wf_tool_init nm] address_opts_parsed t_def flip: t0_def)
  have wf: "wf_tool t" using args wf_tool_init by (rule parse_args_sender_wf)
  have pl: "tool_payload t = payload" using t0(2) by (auto simp: t_def tool_payload_def)
  have n: "42 + length payload \<le> BUFFER_SIZE"
    using assms(6) by (auto simp: BUFFER_SIZE_def test_payload_def cstr_def split: option.splits)
  obtain c where c: "IPchecksum (header_words (length payload) [0, 0] (store16 (htons c)) si di) 10 = Inr 0"
    "sender_form_packet t = Inr (t\<lparr>PKTBUF := frame [0, 0] (store16 (htons c)) sm dm si di sp dp payload @
        replicate (BUFFER_SIZE - (42 + length payload)) 0, PAYLOAD_LENGTH := length payload\<rparr>, sender_text sm dm si di sp dp)"
    using sender_form_packet_ok [OF wf, of sm dm si di sp dp] n pl by (auto simp: t_def)
  let ?F = "frame [0, 0] (store16 (htons c)) sm dm si di sp dp payload"
  have "length ?F = 42 + length payload" using length_frame [OF assms(1-4)] by (simp add: store16_def)
  then show ?thesis
    using sender_main_sends [OF args _ c(2), of "mode = ''daemon''" e err results] c(1) t0(3) n
    by (auto simp: t_def)
qed

theorem sender_transmits_witness:
  "\<exists>c out. sender_main (\<lambda>_. None) \<lparr>tool_socket_ok = True, tool_index_ok = True, tool_hwaddr_ok = True\<rparr> (\<lambda>_. ''Error'')
     (payload_opts None @ address_opts [mac_zero, mac_zero] [ip_zero, ip_zero] [port_zero, port_zero] @ [(CHR ''s'', cstr ''daemon'')])
     [None, Some 100, None] =
   Inr (replicate 2 (frame [0, 0] (store16 (htons c)) mac_zero mac_zero ip_zero ip_zero port_zero port_zero test_payload), out, False)"
  using sender_transmits [where sm = mac_zero and dm = mac_zero and si = ip_zero and di = ip_zero and mode = "''daemon''" and name = None
      and payload = test_payload and fs = "\<lambda>_. None" and sp = port_zero and dp = port_zero and err = "\<lambda>_. ''Error''"
      and e = "\<lparr>tool_socket_ok = True, tool_index_ok = True, tool_hwaddr_ok = True\<rparr>" and results = "[None, Some 100, None]", OF wf_zeros(1) wf_zeros(1) wf_zeros(2) wf_zeros(2) _ _ refl]
  by (auto simp: until_failure_def eval_nat_numeral)

text \<open>
  C19. Whatever the arguments, a sender that gets past them has its global arrays in shape and is not in
  mode \<open>CHANGING\<close>; its packet is formed with a verifying checksum if the payload has at most 65494 bytes,
  and written past the end of \<open>PKTBUF\<close> otherwise. An interface name of 16 or more characters is written
  past the end of \<open>INTF_NAME\<close>.
\<close>

theorem sender_arguments:
  "(\<forall>t. parse_args_sender fs tool_init opts = Inr (Inr t) \<longrightarrow>
      wf_tool t \<and> SEND_MODE t \<noteq> CHANGING \<and>
      (if 65494 < length (tool_payload t) then sender_form_packet t = Inl OutOfBounds
       else \<exists>u out c. sender_form_packet t = Inr (u, out) \<and> SEND_MODE u = SEND_MODE t \<and>
         take (42 + length (tool_payload t)) (PKTBUF u) =
           frame [0, 0] (store16 (htons c)) (MAC_ADDRS t ! 0) (MAC_ADDRS t ! 1) (IP_ADDRS t ! 0) (IP_ADDRS t ! 1)
             (UDP_PORTS t ! 0) (UDP_PORTS t ! 1) (tool_payload t) \<and>
         IPchecksum (header_words (length (tool_payload t)) [0, 0] (store16 (htons c)) (IP_ADDRS t ! 0) (IP_ADDRS t ! 1)) 10 = Inr 0)) \<and>
   (NUL \<notin> set nm \<and> 16 \<le> length nm \<longrightarrow> sender_main fs e err ((CHR ''f'', cstr nm) # opts) results = Inl OutOfBounds)"
proof (intro conjI allI impI)
  fix t assume "parse_args_sender fs tool_init opts = Inr (Inr t)"
  then show wf: "wf_tool t" using wf_tool_init by (rule parse_args_sender_wf)
  then show "SEND_MODE t \<noteq> CHANGING" by (simp add: wf_tool_def)
  obtain sm dm si di sp dp where t: "MAC_ADDRS t = [sm, dm]" "IP_ADDRS t = [si, di]" "UDP_PORTS t = [sp, dp]"
    and wfs: "wf_mac sm" "wf_mac dm" "wf_ip si" "wf_ip di" using wf by (rule wf_toolE)
  show "if 65494 < length (tool_payload t) then sender_form_packet t = Inl OutOfBounds
       else \<exists>u out c. sender_form_packet t = Inr (u, out) \<and> SEND_MODE u = SEND_MODE t \<and>
         take (42 + length (tool_payload t)) (PKTBUF u) =
           frame [0, 0] (store16 (htons c)) (MAC_ADDRS t ! 0) (MAC_ADDRS t ! 1) (IP_ADDRS t ! 0) (IP_ADDRS t ! 1)
             (UDP_PORTS t ! 0) (UDP_PORTS t ! 1) (tool_payload t) \<and>
         IPchecksum (header_words (length (tool_payload t)) [0, 0] (store16 (htons c)) (IP_ADDRS t ! 0) (IP_ADDRS t ! 1)) 10 = Inr 0"
  proof (cases "65494 < length (tool_payload t)")
    case True
    with sender_form_packet_overrun [OF wf] show ?thesis by (simp add: BUFFER_SIZE_def)
  next
    case False
    then obtain c where "IPchecksum (header_words (length (tool_payload t)) [0, 0] (store16 (htons c)) si di) 10 = Inr 0"
      "sender_form_packet t = Inr (t\<lparr>PKTBUF := frame [0, 0] (store16 (htons c)) sm dm si di sp dp (tool_payload t) @
        replicate (BUFFER_SIZE - (42 + length (tool_payload t))) 0, PAYLOAD_LENGTH := length (tool_payload t)\<rparr>, sender_text sm dm si di sp dp)"
      using sender_form_packet_ok [OF wf t] by (auto simp: BUFFER_SIZE_def)
    moreover have "length (frame [0, 0] (store16 (htons c)) sm dm si di sp dp (tool_payload t)) = 42 + length (tool_payload t)"
      using length_frame [OF wfs] by (simp add: store16_def)
    ultimately show ?thesis using False by (auto simp: t)
  qed
next
  assume "NUL \<notin> set nm \<and> 16 \<le> length nm"
  then show "sender_main fs e err ((CHR ''f'', cstr nm) # opts) results = Inl OutOfBounds"
    using interface_overrun [OF _ _ wf_tool_init] by (simp add: sender_main_def INTF_LENGTH_def)
qed

theorem sender_arguments_witness:
  "SEND_MODE tool_init \<noteq> CHANGING \<and>
   sender_main (\<lambda>_. None) \<lparr>tool_socket_ok = True, tool_index_ok = True, tool_hwaddr_ok = True\<rparr> (\<lambda>_. ''Error'')
     [(CHR ''f'', cstr ''enx0123456789abcd'')] [None] = Inl OutOfBounds"
proof
  have *: "parse_args_sender (\<lambda>_. None) tool_init [] = Inr (Inr tool_init)" by simp
  show "SEND_MODE tool_init \<noteq> CHANGING" using conjunct1 [OF sender_arguments] * by blast
  show "sender_main (\<lambda>_. None) \<lparr>tool_socket_ok = True, tool_index_ok = True, tool_hwaddr_ok = True\<rparr> (\<lambda>_. ''Error'')
     [(CHR ''f'', cstr ''enx0123456789abcd'')] [None] = Inl OutOfBounds"
    by (rule mp [OF conjunct2 [OF sender_arguments]]) simp
qed

text \<open>
  C30. The packet monitor copies the name given with \<open>-f\<close> over the default \<open>ens37\<close> without a terminator: it
  binds to the name followed by what is left of the default one, so the intended name is bound exactly if it
  has at least five characters (and at most 16). Bound, it prints for every frame its source address and size.
\<close>

theorem monitor_interface:
  assumes "NUL \<notin> set nm" "length nm \<le> 16" "mon_socket e = None" "mon_index_ok e" "mon_bind e = None"
    and "list_all (\<lambda>pkt. 12 \<le> length pkt \<and> length pkt \<le> BUFFER_SIZE) pkts"
  shows "\<exists>name. monitor_main e buffer [(CHR ''f'', cstr nm)] (map Some pkts) =
      Inr (Some name, map (\<lambda>pkt. packet_line pkt (int (length pkt))) pkts) \<and>
    cstr_of name = nm @ drop (length nm) ''ens37'' \<and> (cstr_of name = nm \<longleftrightarrow> 5 \<le> length nm)"
proof -
  obtain name where n: "monitor_main e buffer [(CHR ''f'', cstr nm)] (map Some pkts) = Inr (Some name, monitor_loop buffer (map Some pkts))"
    "cstr_of name = cstr_of (bound_name nm)" using assms(1,3-5) by (rule monitor_binds)
  have "monitor_loop buffer (map Some pkts) = map (\<lambda>r. packet_line (the r) (int (length (the r)))) (map Some pkts)"
    by (rule monitor_lines) (use assms(6) in \<open>auto simp: list_all_iff\<close>)
  moreover have "cstr_of (bound_name nm) = nm @ drop (length nm) ''ens37''" using assms(1,2) by (rule cstr_of_bound_name)
  moreover have "drop (length nm) ''ens37'' = [] \<longleftrightarrow> 5 \<le> length nm" by (simp add: eval_nat_numeral)
  ultimately show ?thesis using n by (auto simp: comp_def)
qed

theorem monitor_interface_witness:
  "\<exists>name. monitor_main \<lparr>mon_socket = None, mon_index_ok = True, mon_bind = None\<rparr> (replicate BUFFER_SIZE 0)
       [(CHR ''f'', cstr ''en0'')] (map Some [replicate 12 7]) =
     Inr (Some name, [packet_line (replicate 12 7) 12]) \<and> cstr_of name = ''en037''"
proof -
  have "list_all (\<lambda>pkt. 12 \<le> length pkt \<and> length pkt \<le> BUFFER_SIZE) [replicate 12 (7 :: u8)]" by (simp add: BUFFER_SIZE_def)
  from monitor_interface [where nm = "''en0''" and e = "\<lparr>mon_socket = None, mon_index_ok = True, mon_bind = None\<rparr>"
      and buffer = "replicate BUFFER_SIZE 0", OF _ _ _ _ _ this]
  show ?thesis by (auto simp: eval_nat_numeral)
qed

text \<open>
  C20. The digest checker prints, in hexadecimal, the digest with which the client ends the administration
  packet of the zero configuration with reply type 1.
\<close>

theorem siphash_checker_digest:
  assumes "admin_idle st"
  shows "\<exists>t. write_to_admin_pkt True st (filter_zero\<lparr>replyType := 1\<rparr>) = Inr t \<and>
    siphash_checker_main = Inr [Stdout (hex016 (le_word (drop 120 (admin_file t))) @ [NL])]"
proof -
  obtain t where t: "write_to_admin_pkt True st reply_only = Inr t" "admin_file t = admin_packet reply_only"
    using write_to_admin_pkt_refines [OF wf_reply_only assms] by blast
  have "drop 120 (admin_file t) = auth_digest (admin_body reply_only)"
    using bytes_bits_admin_body(2) [OF wf_reply_only] by (simp add: t(2) admin_packet_def)
  with t(1) siphash_checker_prints show ?thesis by (simp add: reply_only_def)
qed

theorem siphash_checker_digest_witness:
  "\<exists>t. write_to_admin_pkt True admin_io_init (filter_zero\<lparr>replyType := 1\<rparr>) = Inr t \<and>
    siphash_checker_main = Inr [Stdout (hex016 (le_word (drop 120 (admin_file t))) @ [NL])]"
  using siphash_checker_digest [OF admin_idle_init] .

text \<open>
  C31. The tools for the earlier board that send counter packets, \<open>raw_sender\<close> and \<open>raw_bdcast\<close>, send
  32 bytes in every round until \<open>sendto\<close> fails, and the \<open>k\<close>-th packet ends in the counter \<open>k\<close> modulo 256. Since the sixth
  byte of the destination is stored to \<open>h_dest[6]\<close>, the destination ends in a byte of fresh memory and that byte of the
  destination replaces the first one of the source address.
\<close>

theorem spartan_counter:
  assumes "length (sp_source e) = 6" "length buf = BUFFER_SIZE" and n: "n = length (until_failure rs)"
    and "packet = (\<lambda>dest5 dest_6 k. dest5 @ [buf ! 5] @ [dest_6] @ tl (sp_source e) @ [0, 0] @ [0x10, 0xFF] @
      take 14 (drop 16 buf) @ store16 (htons (word_of_nat (k mod 256))))"
  shows "(\<exists>out. raw_sender_main e err buf rs =
      Inr (map (packet [0x00, 0x0A, 0x35, 0x00, 0x00] 0x00) [1..<n + 1], out, list_all (\<lambda>r. r = None) rs)) \<and>
    (\<exists>out. raw_bdcast_main e err buf rs =
      Inr (map (packet [0xFF, 0xFF, 0xFF, 0xFF, 0xFF] 0xFF) [1..<n + 1], out, list_all (\<lambda>r. r = None) rs))"
proof -
  have main: "\<exists>out. counter_main d5 d6 e err buf rs = Inr (map (packet d5 d6) [1..<n + 1], out, list_all (\<lambda>r. r = None) rs)"
    if d5: "length d5 = 5" for d5 d6
  proof -
    define h where "h = byte (sent_dest d5 buf) @ byte (sent_source (sp_source e) d6) @ store16 0"
    have l: "length h = 14" using wf_sent assms(1) d5 by (simp add: wf_mac_def store16_def h_def)
    have st: "do_stores buf (sp_eth_stores (sp_source e) d5 d6 0) = Inr (h @ drop 14 buf)"
      using eth_stores [OF assms(1) d5, of buf d6 0] assms(2) by (simp add: BUFFER_SIZE_def h_def)
    have z: "store16 0 = [0, 0]" by code_simp
    have p: "packet d5 d6 k = counter_packet h (take 14 (drop 16 buf)) (k mod 256)" for k
      by (simp add: assms(4) counter_packet_def h_def sent_dest_def sent_source_def z)
    show ?thesis
      using counter_loop_sends [of "h @ drop 14 buf" 0 err rs] l assms(2)
      by (auto simp: counter_main_def st p n BUFFER_SIZE_def simp del: upt_Suc)
  qed
  then show ?thesis unfolding raw_sender_main_def raw_bdcast_main_def by simp
qed

theorem spartan_counter_witness:
  "\<exists>out. raw_bdcast_main \<lparr>sp_socket_ok = True, sp_ifindex = Some 3, sp_hwaddr = Some [1, 2, 3, 4, 5, 6], sp_ifaddr = None\<rparr>
      (\<lambda>_. ''Error'') (replicate BUFFER_SIZE 9) [None, Some 100] =
    Inr ([[0xFF, 0xFF, 0xFF, 0xFF, 0xFF, 9, 0xFF, 2, 3, 4, 5, 6, 0, 0, 0x10, 0xFF] @ replicate 14 9 @ [0, 1],
          [0xFF, 0xFF, 0xFF, 0xFF, 0xFF, 9, 0xFF, 2, 3, 4, 5, 6, 0, 0, 0x10, 0xFF] @ replicate 14 9 @ [0, 2]], out, False)"
proof -
  have b: "store16 (htons (word_of_nat 1)) = [0, 1]" "store16 (htons (word_of_nat 2)) = [0, 2]" by code_simp+
  have "[1..<3] = [1, 2 :: nat]" by (simp add: upt_conv_Cons)
  then show ?thesis
    using spartan_counter [where n = 2 and buf = "replicate BUFFER_SIZE 9" and rs = "[None, Some 100]" and err = "\<lambda>_. ''Error''"
      and e = "\<lparr>sp_socket_ok = True, sp_ifindex = Some 3, sp_hwaddr = Some [1, 2, 3, 4, 5, 6], sp_ifaddr = None\<rparr>", OF _ _ _ refl] b
    by (simp add: until_failure_def sp_source_def BUFFER_SIZE_def drop_replicate take_replicate)
qed

text \<open>
  C32. The tools for the earlier board that send UDP packets, over fresh memory of any content:
  \<open>udp_sender\<close> repeats one frame until \<open>sendto\<close> fails, from the IP address 0.0.0.0 whatever address the interface has,
  since it reads the address from the answer to the index request; \<open>rawsockinit/sender\<close> sends one frame from the address
  of the interface. Both damage the Ethernet addresses, send the fragment bytes that the memory held, and take the
  checksum over what the memory held in its place: the header verifies when those bytes were zero. The monitor
  \<open>rawsockinit/receiver\<close> reports such a frame with the fields that were sent, but the ports and the UDP length with their
  bytes swapped.
\<close>

theorem spartan_udp:
  assumes "length (sp_source e) = 6" "sp_ifaddr e = Some (num si)" "wf_ip si" and len: "length buf = BUFFER_SIZE"
    and old: "frag = take 2 (drop 20 buf)" "stale = take 2 (drop 24 buf)" and ports: "sp = \<lparr>port = 12345\<rparr>" "dp = \<lparr>port = 23456\<rparr>"
  shows "(\<exists>c out s d di. s = \<lparr>byte = 0x00 # tl (sp_source e)\<rparr> \<and> d = \<lparr>byte = [0x00, 0x0A, 0x35, 0x00, 0x00, buf ! 5]\<rparr> \<and>
      di = \<lparr>num = [192, 168, 5, 1]\<rparr> \<and> IPchecksum (header_words 7 frag stale ip_zero di) 10 = Inr c \<and>
      (stale = [0, 0] \<longrightarrow> IPchecksum (header_words 7 frag (store16 (htons c)) ip_zero di) 10 = Inr 0) \<and>
      udp_sender_main e err buf rs =
        Inr (map (\<lambda>_. frame frag (store16 (htons c)) s d ip_zero di sp dp (map of_char (cstr ''test12''))) (until_failure rs),
             out, list_all (\<lambda>r. r = None) rs)) \<and>
    (\<exists>c pkt out s d di. s = \<lparr>byte = 0x08 # tl (sp_source e)\<rparr> \<and> d = \<lparr>byte = [0x00, 0x50, 0x56, 0xC0, 0x00, buf ! 5]\<rparr> \<and>
      di = \<lparr>num = [192, 168, 249, 1]\<rparr> \<and> IPchecksum (header_words 5 frag stale si di) 10 = Inr c \<and>
      (stale = [0, 0] \<longrightarrow> IPchecksum (header_words 5 frag (store16 (htons c)) si di) 10 = Inr 0) \<and>
      pkt = frame frag (store16 (htons c)) s d si di sp dp (map of_char (cstr ''test'')) \<and>
      sockinit_sender_main e err buf r = Inr (pkt, out) \<and>
      sockinit_receiver_main True mem [Some pkt] = frame_report (store16 (htons c)) s d si di sp dp 5)"
    (is "?udp \<and> ?sockinit")
proof
  let ?py = "map of_char (cstr ''test12'') :: u8 list" and ?di = "\<lparr>num = [192, 168, 5, 1]\<rparr>"
  have py: "length (cstr ''test12'') = 7" and room: "42 + length ?py \<le> length buf" by (simp_all add: cstr_def len BUFFER_SIZE_def)
  have di: "wf_ip ?di" by (simp add: wf_ip_def)
  have z: "index_request_addr e = num ip_zero" by (simp add: index_request_addr ip_zero_def)
  obtain c b where c: "IPchecksum (header_words (length ?py) frag stale ip_zero ?di) 10 = Inr c"
      "stale = [0, 0] \<longrightarrow> IPchecksum (header_words (length ?py) frag (store16 (htons c)) ip_zero ?di) 10 = Inr 0"
    and b: "sp_udp_packet (sp_source e) [0x00, 0x0A, 0x35, 0x00, 0x00] 0x00 (num ip_zero) (num ?di) ?py buf = Inr b"
      "take (42 + length ?py) b = frame frag (store16 (htons c)) \<lparr>byte = 0x00 # tl (sp_source e)\<rparr> \<lparr>byte = [0x00, 0x0A, 0x35, 0x00, 0x00] @ [buf ! 5]\<rparr>
        ip_zero ?di \<lparr>port = 12345\<rparr> \<lparr>port = 23456\<rparr> ?py"
    unfolding old
    by (rule sp_udp_sent [OF assms(1) _ wf_zeros(2) di room, where lb = "0x00" and db = "[0x00, 0x0A, 0x35, 0x00, 0x00]"]) simp_all
  obtain out where "same_packet_loop err (take (7 + 8 + 20 + 14) b) rs =
      (map (\<lambda>_. take (7 + 8 + 20 + 14) b) (until_failure rs), out, list_all (\<lambda>r. r = None) rs)"
    using same_packet_sends [of err "take (7 + 8 + 20 + 14) b" rs] by blast
  then show ?udp using c b by (intro exI [of _ c]) (simp add: udp_sender_main_def z ports py)
next
  let ?py = "map of_char (cstr ''test'') :: u8 list" and ?s = "\<lparr>byte = 0x08 # tl (sp_source e)\<rparr>"
    and ?d = "\<lparr>byte = [0x00, 0x50, 0x56, 0xC0, 0x00, buf ! 5]\<rparr>" and ?di = "\<lparr>num = [192, 168, 249, 1]\<rparr>"
  have py: "length (cstr ''test'') = 5" and room: "42 + length ?py \<le> length buf" by (simp_all add: cstr_def len BUFFER_SIZE_def)
  have wf: "wf_ip ?di" "wf_mac ?s" "wf_mac ?d" using assms(1) by (simp_all add: wf_ip_def wf_mac_def)
  have frag: "length frag = 2" using len by (simp add: old BUFFER_SIZE_def)
  obtain c b where c: "IPchecksum (header_words (length ?py) frag stale si ?di) 10 = Inr c"
      "stale = [0, 0] \<longrightarrow> IPchecksum (header_words (length ?py) frag (store16 (htons c)) si ?di) 10 = Inr 0"
    and b: "sp_udp_packet (sp_source e) [0x00, 0x50, 0x56, 0xC0, 0x00] 0x08 (num si) (num ?di) ?py buf = Inr b"
      "take (42 + length ?py) b = frame frag (store16 (htons c)) ?s \<lparr>byte = [0x00, 0x50, 0x56, 0xC0, 0x00] @ [buf ! 5]\<rparr> si ?di \<lparr>port = 12345\<rparr> \<lparr>port = 23456\<rparr> ?py"
    unfolding old
    by (rule sp_udp_sent [OF assms(1) _ assms(3) wf(1) room, where lb = "0x08" and db = "[0x00, 0x50, 0x56, 0xC0, 0x00]"]) simp_all
  let ?p = "frame frag (store16 (htons c)) ?s ?d si ?di sp dp ?py"
  have chk: "length (store16 (htons c)) = 2" by (simp add: store16_def)
  have "length ?p = 47" using length_frame [OF wf(2,3) assms(3) wf(1) frag chk] py by simp
  then have "sockinit_receiver_main True mem [Some ?p] = frame_report (store16 (htons c)) ?s ?d si ?di sp dp 5"
    using header_report_frame [OF wf(2,3) assms(3) wf(1) frag chk, of sp dp ?py] py
    by (simp add: sockinit_receiver_main_def BUFFER_SIZE_def)
  then show ?sockinit using c b assms(2) by (intro exI [of _ c]) (simp add: sockinit_sender_main_def ports py Let_def)
qed

theorem spartan_udp_witness:
  "\<exists>c pkt out. sockinit_sender_main \<lparr>sp_socket_ok = True, sp_ifindex = Some 3, sp_hwaddr = Some [1, 2, 3, 4, 5, 6], sp_ifaddr = Some [10, 0, 0, 7]\<rparr>
      (\<lambda>_. ''Error'') (replicate BUFFER_SIZE 9) None = Inr (pkt, out) \<and> take 6 (drop 6 pkt) = [8, 2, 3, 4, 5, 6] \<and>
    sockinit_receiver_main True [] [Some pkt] =
      frame_report (store16 (htons c)) \<lparr>byte = [8, 2, 3, 4, 5, 6]\<rparr> \<lparr>byte = [0x00, 0x50, 0x56, 0xC0, 0x00, 9]\<rparr> \<lparr>num = [10, 0, 0, 7]\<rparr>
        \<lparr>num = [192, 168, 249, 1]\<rparr> \<lparr>port = 12345\<rparr> \<lparr>port = 23456\<rparr> 5"
  using spartan_udp [where si = "\<lparr>num = [10, 0, 0, 7]\<rparr>" and err = "\<lambda>_. ''Error''" and r = None and mem = "[]" and rs = "[]"
      and e = "\<lparr>sp_socket_ok = True, sp_ifindex = Some 3, sp_hwaddr = Some [1, 2, 3, 4, 5, 6], sp_ifaddr = Some [10, 0, 0, 7]\<rparr>", OF _ _ _ length_replicate [where x = 9] refl refl refl refl]
  by (auto simp: sp_source_def wf_ip_def frame_def BUFFER_SIZE_def)

section \<open>Validation\<close>

text \<open>
  C33. The typed line \<open>test all\<close> beside a board from which no frame arrives sends 23 frames and
  ends with the report that each of the eight suites failed and the validation was not successful. In the first seven suites a test
  packet follows the probe: the probe stayed unanswered, and yet the zero configuration that was sent counts as confirmed. Only the
  eighth suite, whose configuration is not zero, stops behind the probe.
\<close>

theorem silent_board_reported:
  assumes "disconnected st" and "392 \<le> length (rands st)"
  shows "\<exists>st' pkts. main_round (com_test stack) (NUL # slack) st ''test all'' =
      Inr (say (map print_fail_test_suite [0..<8] @ [Stdout (''FPGA validation failed. UNSUCCESSFUL!'' @ [NL])]) st') \<and>
    sent st' = sent st @ pkts \<and> length pkts = 23 \<and>
    list_all2 (\<lambda>P pkt. P pkt) (concat (replicate 7
        [frame_to admin_dst_mac (admin_packet filter_zero), frame_to probe_dst_mac (map of_char probe_payload),
         \<lambda>pkt. \<exists>d py. d \<notin> {admin_dst_mac, probe_dst_mac} \<and> length py = 8 \<and> frame_to d py pkt]) @
      [frame_to admin_dst_mac (admin_packet (filter_zero\<lparr>replyType := 1\<rparr>)), frame_to probe_dst_mac (map of_char probe_payload)]) pkts"
    (is "\<exists>st' pkts. _ \<and> _ \<and> _ \<and> list_all2 _ ?frames pkts")
proof -
  have d: "disconnected (add_history ''test all'' st)" "392 \<le> length (rands (add_history ''test all'' st))"
    "sent (add_history ''test all'' st) = sent st"
    using assms by (simp_all add: disconnected_def wf_cli_def add_history_def Let_def)
  obtain buf p where l: "main_round (com_test stack) (NUL # slack) st ''test all'' =
      cbind (com_test_all stack (add_history ''test all'' st) buf p) (\<lambda>(st, _, _). Inr st)"
    using test_all_line by blast
  obtain st' where t: "com_test_all stack (add_history ''test all'' st) buf p = Inr (say
      (map print_fail_test_suite [0..<8] @ [Stdout (''FPGA validation failed. UNSUCCESSFUL!'' @ [NL])]) st', buf, 0)"
    "sends (concat suite_frames) (add_history ''test all'' st) st'"
    using d(1,2) by (rule com_test_all_disconnected)
  have "concat suite_frames = ?frames"
    by (simp add: suite_frames_def configuration_frames_def test_frame_def [abs_def])
  then obtain pkts where "sent st' = sent st @ pkts" "list_all2 (\<lambda>P pkt. P pkt) ?frames pkts"
    using t(2) d(3) by (auto simp: sends_def)
  moreover from this(2) have "length pkts = length ?frames" by (rule list_all2_lengthD [symmetric])
  then have "length pkts = 23" by (simp add: length_concat sum_list_replicate)
  ultimately show ?thesis using l t(1) by auto
qed

text \<open>A client with random numbers for a validation, on a silent network.\<close>

definition cli_testing :: cli where "cli_testing = cli_example\<lparr>rands := replicate 392 0\<rparr>"

lemma cli_testing_ok: "disconnected cli_testing" "392 \<le> length (rands cli_testing)"
proof -
  have "rand_byte 0 = 0" by (simp add: rand_byte_def)
  then have "map rand_byte (replicate 6 0) = [0, 0, 0, 0, 0, 0]" by (simp add: eval_nat_numeral)
  moreover have "\<lparr>byte = [0, 0, 0, 0, 0, 0]\<rparr> \<notin> {admin_dst_mac, probe_dst_mac}"
    by (simp add: admin_dst_mac_def probe_dst_mac_def)
  ultimately have "\<lparr>byte = map rand_byte (replicate 6 0)\<rparr> \<notin> {admin_dst_mac, probe_dst_mac}" by simp
  moreover have "take 6 (drop i (replicate 392 (0 :: nat))) = replicate 6 0" if "i + 6 \<le> 392" for i
    using that by (simp add: drop_replicate take_replicate)
  ultimately have "plain_rands (replicate 392 0)" by (simp add: plain_rands_def)
  moreover have "unheard receiver_init"
  proof -
    have "take 6 (drop 6 (recv_pkt_buf receiver_init)) = replicate 6 0"
      by (simp add: receiver_init_def BUFFER_SIZE_def drop_replicate take_replicate)
    moreover have "byte fpga_src_mac ! 1 \<noteq> replicate 6 0 ! 1" by (simp add: fpga_src_mac_def)
    ultimately show ?thesis unfolding unheard_def by metis
  qed
  ultimately show "disconnected cli_testing"
    using cli_example_ok(1) by (simp add: disconnected_def cli_testing_def wf_cli_def cli_example_def quiet_def)
qed (simp add: cli_testing_def)

theorem silent_board_reported_witness:
  "\<exists>st'. main_round (com_test (\<lambda>_. replicate 20 0)) [NUL] cli_testing ''test all'' = Inr st' \<and>
     last (console st') = Stdout (''FPGA validation failed. UNSUCCESSFUL!'' @ [NL])"
  using silent_board_reported [OF cli_testing_ok, of "\<lambda>_. replicate 20 0" "[]"] by (auto simp: say_def)

text \<open>
  C34. What \<open>test all\<close> and \<open>test f-fail\<close> report of one run of the eight suites, from each to the
  next: \<open>test all\<close> runs every suite, names exactly those that failed, in their order, and reports success if there is none;
  \<open>test f-fail\<close> names the first of them and stops in the state behind it, or ends like \<open>test all\<close> if there is none.
\<close>

theorem validation_reports_agree:
  assumes "com_test_all stack st buf p = Inr (st', buf', ret)"
  shows "buf' = buf \<and> ret = 0 \<and> (\<exists>s res. s 0 = st \<and> length res = 8 \<and>
    (\<forall>j<8. (suites stack ! j) (s j) = Inr (s (Suc j), res ! j) \<and> res ! j \<in> {0, - 1}) \<and>
    st' = say (map print_fail_test_suite (filter (\<lambda>j. res ! j = - 1) [0..<8]) @
      [Stdout (''FPGA validation'' @ (if \<forall>j<8. res ! j = 0 then '' completed. SUCCESSFUL!'' else '' failed. UNSUCCESSFUL!'') @ [NL])]) (s 8) \<and>
    com_test_first_fail stack st buf p =
      (case filter (\<lambda>j. res ! j = - 1) [0..<8] of
         [] \<Rightarrow> Inr (st', buf, 0)
       | i # later \<Rightarrow> Inr (say [print_fail_test_suite i] (s (Suc i)), buf, - 1)))"
proof -
  let ?ss = "suites stack" and ?failed = "\<lambda>res. filter (\<lambda>j. res ! j = - 1) [0..<8]"
  have l: "length ?ss = 8" by (simp add: suites_def)
  obtain u res where c: "collect ?ss [0..<8] (replicate 8 0) st = Inr (u, res)"
    and st': "st' = say (verdict ''FPGA validation'' res) u" "buf' = buf" "ret = 0"
    using assms by (auto simp: com_test_all_def run_suites_def cbind_eq_Inr simp del: upt_Suc)
  obtain s where s: "s 0 = st" "s 8 = u" "length res = 8" "\<forall>j<8. (?ss ! j) (s j) = Inr (s (Suc j), res ! j)"
    using collect_trace [of "replicate 8 0" ?ss 0 st u res, unfolded l] c by auto
  have two: "res ! j \<in> {0, - 1}" if "j < 8" for j
    using suites_two_valued [of "?ss ! j" stack] s(4) that l unfolding two_valued_def by (metis insertCI nth_mem)
  have v: "verdict ''FPGA validation'' res = map print_fail_test_suite (?failed res) @
      [Stdout (''FPGA validation'' @ (if \<forall>j<8. res ! j = 0 then '' completed. SUCCESSFUL!'' else '' failed. UNSUCCESSFUL!'') @ [NL])]"
    using s(3) by (simp add: verdict_def foldl_or_zero all_set_conv_all_nth)
  have "com_test_first_fail stack st buf p =
      (case ?failed res of [] \<Rightarrow> Inr (st', buf, 0) | i # later \<Rightarrow> Inr (say [print_fail_test_suite i] (s (Suc i)), buf, - 1))"
  proof (cases "?failed res")
    case Nil
    then have zero: "\<forall>j<8. res ! j = 0" using two by (fastforce simp: filter_empty_conv)
    then have "first_fail 0 ?ss (s 0) = first_fail 8 (drop 8 ?ss) (s 8)" using s(4) l by (intro first_fail_skip) simp_all
    with zero Nil v show ?thesis using s(1,2) st'(1) l by (simp add: com_test_first_fail_def say_def)
  next
    case (Cons i later)
    note i = filter_upt_first [OF Cons]
    have "(?ss ! k) (s k) = Inr (s (Suc k), 0)" if "k < i" for k
      using that i(1,3) two [of k] s(4) by simp
    then have "first_fail 0 ?ss (s 0) = first_fail i (drop i ?ss) (s i)" using i(1) l by (intro first_fail_skip) simp_all
    with Cons i(1,2) l s(1,4) show ?thesis by (simp add: com_test_first_fail_def Cons_nth_drop_Suc [symmetric])
  qed
  with s two st' v show ?thesis by (intro conjI exI [of _ s] exI [of _ res]) auto
qed

theorem validation_reports_agree_witness:
  "\<exists>u i. com_test_first_fail (\<lambda>_. replicate 20 0) cli_testing (cstr ''all'') 0 = Inr (say [print_fail_test_suite i] u, cstr ''all'', - 1) \<and> i < 8"
proof -
  let ?t = "\<lambda>_. replicate 20 0 :: u8 list"
  obtain u where u: "com_test_all ?t cli_testing (cstr ''all'') 0 = Inr (say
      (map print_fail_test_suite [0..<8] @ [Stdout (''FPGA validation failed. UNSUCCESSFUL!'' @ [NL])]) u, cstr ''all'', 0)"
    (is "_ = Inr (?st', _, _)")
    using cli_testing_ok by (rule com_test_all_disconnected)
  obtain s res where r: "?st' = say (map print_fail_test_suite (filter (\<lambda>j. res ! j = - 1) [0..<8]) @
      [Stdout (''FPGA validation'' @ (if \<forall>j<8. res ! j = (0 :: int) then '' completed. SUCCESSFUL!'' else '' failed. UNSUCCESSFUL!'') @ [NL])]) (s 8)"
    "\<forall>j<8. res ! j \<in> {0, - 1}" "com_test_first_fail ?t cli_testing (cstr ''all'') 0 =
      (case filter (\<lambda>j. res ! j = - 1) [0..<8] of [] \<Rightarrow> Inr (?st', cstr ''all'', 0)
       | i # later \<Rightarrow> Inr (say [print_fail_test_suite i] (s (Suc i)), cstr ''all'', - 1))"
    using validation_reports_agree [OF u] by (elim conjE exE) blast
  have "last (console ?st') = Stdout (''FPGA validation failed. UNSUCCESSFUL!'' @ [NL])" by (simp add: say_def)
  then have "\<not> (\<forall>j<8. res ! j = 0)" unfolding r(1) by (auto simp: say_def split: if_splits)
  then have "filter (\<lambda>j. res ! j = - 1) [0..<8] \<noteq> []" using r(2) by (fastforce simp: filter_empty_conv)
  then obtain i later where "filter (\<lambda>j. res ! j = - 1) [0..<8] = i # later" by (metis list.exhaust)
  with filter_upt_first(1) [OF this] r(3) show ?thesis by (auto simp del: upt_Suc)
qed

text \<open>
  C35. Waiting for a packet, for every schedule of arrivals, failed reads and idle sleeps: the buffer is
  looked at before each of the \<open>c\<close> sleeps, and the packet counts as received exactly if at one of these times the
  buffer, that is its old contents with every frame so far written over the front, has the board's source address, the length
  and the payload. A packet counts as blocked in all other cases. When the last arrival is a complete UDP frame, of whatever
  length, it alone decides: it must come from the board's source address and carry the payload, whatever arrived before.
\<close>

theorem expect_receive_exact:
  assumes "wf_receiver r" "n \<le> length payload" "n < 65528"
  shows "(fst (expect_receive env k r payload n c) \<longleftrightarrow>
      (\<exists>j<c. carries (take n payload) (delivered (recv_pkt_buf r) (arrivals env k j)))) \<and>
    fst (expect_block env k r payload n c) = (\<not> fst (expect_receive env k r payload n c)) \<and>
    (\<forall>j pre frag chk s d si di sp dp py. arrivals env k j = pre @ [frame frag chk s d si di sp dp py] \<and>
       wf_mac s \<and> wf_mac d \<and> wf_ip si \<and> wf_ip di \<and> length frag = 2 \<and> length chk = 2 \<and> length py \<le> 65494 \<longrightarrow>
       (carries (take n payload) (delivered (recv_pkt_buf r) (arrivals env k j)) \<longleftrightarrow> s = fpga_src_mac \<and> py = take n payload))"
proof (intro conjI allI impI; (elim conjE)?)
  have len: "length (recv_pkt_buf r) = BUFFER_SIZE" using assms(1) by (simp add: wf_receiver_def)
  note carries = packet_matches_carries [OF length_delivered [OF len] assms(2,3)]
  show "fst (expect_receive env k r payload n c) \<longleftrightarrow>
      (\<exists>j<c. carries (take n payload) (delivered (recv_pkt_buf r) (arrivals env k j)))"
    by (simp only: expect_receive_iff sleeps_buffer carries)
  show "fst (expect_block env k r payload n c) = (\<not> fst (expect_receive env k r payload n c))"
    by (simp add: expect_block_def split: prod.splits)
  fix j pre frag chk s d si di sp dp py
  assume last: "arrivals env k j = pre @ [frame frag chk s d si di sp dp py]"
    and wf: "wf_mac s" "wf_mac d" "wf_ip si" "wf_ip di" "length frag = 2" "length chk = 2" and py: "length py \<le> 65494"
  have "length (frame frag chk s d si di sp dp py) \<le> BUFFER_SIZE" using length_frame [OF wf] py by (simp add: BUFFER_SIZE_def)
  then obtain rest where "delivered (recv_pkt_buf r) (arrivals env k j) = frame frag chk s d si di sp dp py @ rest"
    by (simp add: last delivered_def)
  then show "carries (take n payload) (delivered (recv_pkt_buf r) (arrivals env k j)) \<longleftrightarrow> s = fpga_src_mac \<and> py = take n payload"
    using packet_matches_frame [OF wf, of py payload n sp dp rest] py assms(2)
    unfolding carries [symmetric] by auto
qed

theorem expect_receive_exact_witness:
  "fst (expect_receive (\<lambda>i. if i = 3 then [None, Some [1], Some (frame [0, 0] [0, 0] fpga_src_mac mac_zero ip_zero ip_zero port_zero port_zero [7, 8])] else [])
     0 receiver_init [7, 8] 2 1000)"
proof -
  let ?f = "frame [0, 0] [0, 0] fpga_src_mac mac_zero ip_zero ip_zero port_zero port_zero [7, 8]"
  let ?env = "\<lambda>i. if i = 3 then [None, Some [1], Some ?f] else [] :: u8 list option list"
  have "arrivals ?env 0 4 = [[1], ?f]" by (simp add: arrivals_def upt_rec)
  then have a: "arrivals ?env 0 4 = [[1]] @ [?f]" by simp
  have "wf_receiver receiver_init" "2 \<le> length [7, 8 :: u8]" "(2 :: nat) < 65528"
    by (simp_all add: wf_receiver_def receiver_init_def)
  note exact = expect_receive_exact [OF this, of ?env 0 1000]
  have wf: "wf_mac fpga_src_mac" "wf_mac mac_zero" "wf_ip ip_zero" "length [0, 0 :: u8] = 2" "length [7, 8 :: u8] \<le> 65494" "[7, 8] = take 2 [7, 8 :: u8]"
    by (simp_all add: wf_const_macs wf_zeros)
  have "carries (take 2 [7, 8]) (delivered (recv_pkt_buf receiver_init) (arrivals ?env 0 4))"
    using exact [THEN conjunct2, THEN conjunct2, rule_format, OF conjI, OF a] wf by blast
  moreover have "(4 :: nat) < 1000" by simp
  ultimately show ?thesis using exact [THEN conjunct1] by blast
qed

section \<open>Interleaving\<close>

text \<open>
  C7. The receiver daemon, moving in single steps that interleave with the polling thread in any order, and
  the daemon that handles each packet in one step reach the same states between two packets; in the middle of a
  packet the poller is where some run of the one-step daemon has it. The waiting of \<open>probe_reply_recv\<close> under a
  schedule is one of these runs.
\<close>

theorem threads_refine_rounds:
  assumes "wf_receiver r"
  shows "(\<forall>y. thread_run us_timeout (between (r, m)) (between y) \<longleftrightarrow> round_run us_timeout (r, m) y) \<and>
    (\<forall>s. thread_run us_timeout (between (r, m)) s \<longrightarrow>
       (\<exists>a. round_run us_timeout (r, m) (a, main_at s) \<and> probe_reply_received a = probe_reply_received (globals s))) \<and>
    (\<forall>env k r' k'. probe_reply_recv env us_timeout k r = Some (r', k') \<longrightarrow>
       thread_run us_timeout (between (r, Poll 0)) (between (r', Answer (probe_reply_received r'))))"
proof (intro conjI allI impI)
  fix y show "thread_run us_timeout (between (r, m)) (between y) \<longleftrightarrow> round_run us_timeout (r, m) y"
    using assms by (simp add: thread_run_iff_round_run)
next
  fix s assume "thread_run us_timeout (between (r, m)) s"
  moreover have "related (between (r, m)) (r, m)" using assms by (simp add: related_def between_def mid_round_def)
  ultimately obtain y where "round_run us_timeout (r, m) y" "related s y" using thread_run_sim by blast
  then show "\<exists>a. round_run us_timeout (r, m) (a, main_at s) \<and> probe_reply_received a = probe_reply_received (globals s)"
    using mid_round_flag(1) by (cases y) (auto simp: related_def)
next
  fix env k r' k' assume "probe_reply_recv env us_timeout k r = Some (r', k')"
  then have "round_run us_timeout (r, Poll 0) (r', Answer (probe_reply_received r'))" by (rule probe_reply_recv_run)
  then show "thread_run us_timeout (between (r, Poll 0)) (between (r', Answer (probe_reply_received r')))"
    using assms by (simp add: thread_run_iff_round_run)
qed

theorem threads_refine_rounds_witness:
  "thread_run PROBE_TIMEOUT (between (receiver_init, Reset)) (between (receiver_init, Poll 0))"
proof -
  have "wf_receiver receiver_init" by (simp add: wf_receiver_def receiver_init_def)
  moreover have "round_run PROBE_TIMEOUT (receiver_init, Reset) (receiver_init, Send)"
    "round_run PROBE_TIMEOUT (receiver_init, Send) (receiver_init, Poll 0)"
    by (auto simp: main_move_def receiver_init_def intro!: main_stepI)
  ultimately show ?thesis using threads_refine_rounds [of receiver_init PROBE_TIMEOUT Reset] by (meson rtranclp_trans)
qed

text \<open>
  C39. The poller reads the copied reply without a lock: when a second reply of the same length arrives after the
  first was noticed, the buffer it decodes can be any prefix of the second followed by the rest of the first.
\<close>

theorem second_reply_tears:
  assumes "wf_receiver r" "is_frame p" "is_frame q" "from_board p" "from_board q" "length p = length q" "i \<le> length q"
  shows "\<exists>s. thread_run us_timeout (between (r, Reset)) s \<and> main_at s = Answer True \<and>
    probe_pkt_length (globals s) = int (length p) \<and> take (length p) (probe_pkt_buf (globals s)) = take i q @ drop i p"
  using torn_reply [OF assms] by blast

theorem second_reply_tears_witness:
  "\<exists>s. thread_run PROBE_TIMEOUT (between (receiver_init, Reset)) s \<and> main_at s = Answer True \<and>
     take 16 (probe_pkt_buf (globals s)) = replicate 6 0 @ byte probe_dst_mac @ [2, 2, 1, 1]"
proof -
  define f where "f x = [0, 0, 0, 0, 0, 0] @ byte probe_dst_mac @ [x, x, x, x :: u8]" for x
  have f: "is_frame (f x)" "from_board (f x)" "length (f x) = 16" for x
    by (simp_all add: f_def is_frame_def from_board_def BUFFER_SIZE_def probe_dst_mac_def)
  have torn: "take 14 (f 2) @ drop 14 (f 1) = replicate 6 0 @ byte probe_dst_mac @ [2, 2, 1, 1]"
    by (simp add: f_def probe_dst_mac_def eval_nat_numeral)
  have "wf_receiver receiver_init" by (simp add: wf_receiver_def receiver_init_def)
  from second_reply_tears [OF this f(1) f(1) f(2) f(2), of 1 2 14 PROBE_TIMEOUT] show ?thesis
    unfolding f(3) torn by auto
qed

end
